(* ===== verification/DL_Prelude.thy ===== *)
theory DL_Prelude
  imports
    Main
    "HOL-Library.Word"
    "HOL-Library.AList"
    "HOL-Library.Char_ord"
    "HOL-Library.List_Lexorder"
    "HOL-Library.Multiset"
begin

text \<open>
  Shared vocabulary of the development.

  \<^item> \<open>int64\<close> is Go's \<open>int64\<close>: a 64-bit word, compared as a signed number through \<open>sint\<close>.
  \<^item> \<open>gotime\<close> is an instant, counted in nanoseconds from January 1 of year 1, 00:00 UTC. This is
    the instant of Go's zero \<open>time.Time\<close>, so \<open>t.IsZero()\<close> is \<open>t = 0\<close>; \<open>t.After(u)\<close> is
    \<open>u < t\<close>; \<open>t.UTC()\<close> is the identity. \<open>duration\<close> is Go's \<open>time.Duration\<close>, a signed 64-bit
    count of nanoseconds.
  \<^item> \<open>go_error\<close> are the error values the server returns and inspects: the sentinels of the
    packages \<open>store\<close> and \<open>auth\<close>, an error made by \<open>errors.New\<close> or \<open>fmt.Errorf\<close> without \<open>%w\<close>,
    represented by its format string, and an error wrapped with \<open>%w\<close>, represented by the text in
    front and the error inside. \<open>errors_is\<close> is \<open>errors.Is\<close>: it looks through the wrapping.
  \<^item> \<open>'v gomap\<close> is a Go map with string keys: an association list with distinct keys
    (\<open>gm_wf\<close>), so that ranging over a map visits each key once. The order in which a Go program
    visits the keys is not specified; a definition that ranges over a map takes the visiting
    order as an argument.
\<close>

section \<open>Lemma collections\<close>

named_theorems store_op_defs \<open>definitions of the operations of the in-memory store\<close>
named_theorems gomap_simps \<open>how lookups and key sets react to map updates\<close>
named_theorems wf_intros \<open>preservation of the well-formedness of maps and stores\<close>

section \<open>Integers, instants, byte strings\<close>

type_synonym int64 = "64 word"
type_synonym duration = "64 word"
type_synonym gotime = int
type_synonym bytes = "char list"

definition time_add :: "gotime \<Rightarrow> duration \<Rightarrow> gotime" where
  "time_add t d = t + sint d"

definition time_is_zero :: "gotime \<Rightarrow> bool" where
  "time_is_zero t \<longleftrightarrow> t = 0"

section \<open>Errors\<close>

datatype go_error =
    ErrNotFound
  | ErrClosed
  | ErrMissingToken
  | ErrInvalidToken
  | ErrText string
  | ErrWrap string go_error

type_synonym 'a res = "go_error + 'a"

fun errors_is :: "go_error \<Rightarrow> go_error \<Rightarrow> bool" where
  "errors_is (ErrWrap msg e) target \<longleftrightarrow> ErrWrap msg e = target \<or> errors_is e target"
| "errors_is e target \<longleftrightarrow> e = target"

lemma errors_is_refl [simp]: "errors_is e e"
  by (cases e) auto

section \<open>Go maps with string keys\<close>

type_synonym 'v gomap = "(string \<times> 'v) list"

abbreviation gm_get :: "'v gomap \<Rightarrow> string \<Rightarrow> 'v option" where
  "gm_get m k \<equiv> map_of m k"

abbreviation gm_put :: "string \<Rightarrow> 'v \<Rightarrow> 'v gomap \<Rightarrow> 'v gomap" where
  "gm_put k v m \<equiv> AList.update k v m"

abbreviation gm_del :: "string \<Rightarrow> 'v gomap \<Rightarrow> 'v gomap" where
  "gm_del k m \<equiv> AList.delete k m"

definition gm_wf :: "'v gomap \<Rightarrow> bool" where
  "gm_wf m \<longleftrightarrow> distinct (map fst m)"

lemma gm_wf_Nil [simp, wf_intros]: "gm_wf []"
  by (simp add: gm_wf_def)

lemma gm_wf_single [simp]: "gm_wf [(k, v)]"
  by (simp add: gm_wf_def)

lemma gm_wf_put [wf_intros]: "gm_wf m \<Longrightarrow> gm_wf (gm_put k v m)"
  by (simp add: gm_wf_def distinct_update)

lemma gm_wf_del [wf_intros]: "gm_wf m \<Longrightarrow> gm_wf (gm_del k m)"
  by (simp add: gm_wf_def distinct_delete)

lemma gm_get_put [simp, gomap_simps]:
  "gm_get (gm_put k v m) k' = (if k' = k then Some v else gm_get m k')"
  by (simp add: update_conv)

lemma gm_get_del [simp, gomap_simps]:
  "gm_get (gm_del k m) k' = (if k' = k then None else gm_get m k')"
  by (simp add: delete_conv)

lemma gm_wf_mem_iff: "gm_wf m \<Longrightarrow> (k, v) \<in> set m \<longleftrightarrow> gm_get m k = Some v"
  by (auto simp: gm_wf_def map_of_eq_Some_iff)

lemma gm_wf_distinct: "gm_wf m \<Longrightarrow> distinct m"
  by (auto simp: gm_wf_def distinct_map)

section \<open>Prefixes of sorted lists\<close>

lemma take_sorted_wrt: "sorted_wrt P xs \<Longrightarrow> sorted_wrt P (take n xs)"
  by (metis append_take_drop_id sorted_wrt_append)

lemma sorted_take_drop:
  "sorted_wrt P xs \<Longrightarrow> x \<in> set (take n xs) \<Longrightarrow> y \<in> set (drop n xs) \<Longrightarrow> P x y"
  by (metis append_take_drop_id sorted_wrt_append)

section \<open>Visiting orders\<close>

text \<open>
  A visiting order of a map is any rearrangement of its entries. Sorting the visited entries
  with a stable sort after an arbitrary visiting order produces every sorted arrangement, so
  an arbitrary visiting order also accounts for \<open>sort.Slice\<close> not being stable.
\<close>

definition range_order :: "('a list \<Rightarrow> 'a list) \<Rightarrow> bool" where
  "range_order ord \<longleftrightarrow> (\<forall>xs. mset (ord xs) = mset xs)"

lemma range_order_id [simp]: "range_order (\<lambda>xs. xs)"
  by (simp add: range_order_def)

lemma range_order_rev [simp]: "range_order rev"
  by (simp add: range_order_def)

lemma range_order_mset: "range_order ord \<Longrightarrow> mset (ord xs) = mset xs"
  by (simp add: range_order_def)

lemma range_order_set: "range_order ord \<Longrightarrow> set (ord xs) = set xs"
  by (metis range_order_mset set_mset_mset)

text \<open>\<open>for k := range m { out = append(out, k) }; sort.Strings(out)\<close> of the source's \<open>sortedKeys\<close>.\<close>

definition sortedKeys :: "'v gomap \<Rightarrow> string list" where
  "sortedKeys m = sort (map fst m)"

lemma set_sortedKeys [simp]: "set (sortedKeys m) = fst ` set m"
  by (simp add: sortedKeys_def)

lemma sorted_sortedKeys [simp]: "sorted (sortedKeys m)"
  by (simp add: sortedKeys_def)

lemma distinct_sortedKeys: "gm_wf m \<Longrightarrow> distinct (sortedKeys m)"
  by (simp add: sortedKeys_def gm_wf_def)

lemma sortedKeys_order:
  assumes "range_order ord"
  shows "sort (map fst (ord m)) = sortedKeys m"
  unfolding sortedKeys_def
  by (rule properties_for_sort) (simp_all add: range_order_mset [OF assms])

section \<open>Prefixes\<close>

definition has_prefix :: "string \<Rightarrow> string \<Rightarrow> bool" where
  "has_prefix s p \<longleftrightarrow> take (length p) s = p"

lemma has_prefix_append [simp]: "has_prefix (p @ t) p"
  by (simp add: has_prefix_def)

lemma has_prefixD: "has_prefix s p \<Longrightarrow> s = p @ drop (length p) s"
  by (metis append_take_drop_id has_prefix_def)

end
