(* ===== verification/Go_Strings.thy ===== *)
theory Go_Strings
  imports DL_Prelude
begin

text \<open>
  The parts of Go's \<open>strings\<close> and \<open>strconv\<close> packages that the server calls. A Go string is a
  sequence of bytes, which is what \<open>string\<close> is here; \<open>length\<close> is \<open>len\<close>.

  \<^item> \<open>trim_space\<close> is \<open>strings.TrimSpace\<close>: it removes, at both ends, the UTF-8 encodings of the
    code points with Unicode's White Space property. UTF-8 is prefix free, so decoding the
    first rune and asking whether it is white space is asking whether the string starts
    with one of these encodings, and the same holds for the last rune and the end.
  \<^item> \<open>to_lower\<close> is \<open>strings.ToLower\<close>. A string of ASCII bytes is mapped byte by byte. Any other
    string goes through the Unicode case tables, which are data this development does not
    hold: they are the argument \<open>uni\<close>, about which nothing is assumed.
  \<^item> \<open>split_on\<close> is \<open>strings.Split\<close> with a separator of one byte.
  \<^item> \<open>atoi\<close> is \<open>strconv.Atoi\<close> on a platform whose \<open>int\<close> has 64 bits, \<open>append_int\<close> the
    zero-padded decimal rendering that \<open>time.Format\<close> uses.
\<close>

section \<open>ASCII\<close>

definition ord8 :: "char \<Rightarrow> nat" where
  "ord8 c = of_char c"

definition is_ascii :: "char \<Rightarrow> bool" where
  "is_ascii c \<longleftrightarrow> ord8 c < 128"

definition ascii_lower :: "char \<Rightarrow> char" where
  "ascii_lower c = (if 65 \<le> ord8 c \<and> ord8 c \<le> 90 then char_of (ord8 c + 32) else c)"

definition to_lower :: "(string \<Rightarrow> string) \<Rightarrow> string \<Rightarrow> string" where
  "to_lower uni s = (if list_all is_ascii s then map ascii_lower s else uni s)"

lemma ord8_char_of: "n < 256 \<Longrightarrow> ord8 (char_of n) = n"
  by (simp add: ord8_def)

lemma ascii_lower_idem [simp]: "ascii_lower (ascii_lower c) = ascii_lower c"
  by (auto simp: ascii_lower_def ord8_char_of)

lemma is_ascii_lower: "is_ascii c \<Longrightarrow> is_ascii (ascii_lower c)"
  by (auto simp: ascii_lower_def is_ascii_def ord8_char_of)

lemma to_lower_Nil [simp]: "to_lower uni [] = []"
  by (simp add: to_lower_def)

lemma to_lower_idem_ascii:
  "list_all is_ascii s \<Longrightarrow> to_lower uni (to_lower uni s) = to_lower uni s"
  by (simp add: to_lower_def list_all_iff is_ascii_lower)

section \<open>Trimming white space\<close>

text \<open>
  The UTF-8 encodings of U+0009 to U+000D, U+0020, U+0085, U+00A0, U+1680, U+2000 to U+200A,
  U+2028, U+2029, U+202F, U+205F and U+3000.
\<close>

definition space_encs :: "string list" where
  "space_encs =
     [[CHR 0x09], [CHR 0x0A], [CHR 0x0B], [CHR 0x0C], [CHR 0x0D], [CHR 0x20],
      [CHR 0xC2, CHR 0x85], [CHR 0xC2, CHR 0xA0], [CHR 0xE1, CHR 0x9A, CHR 0x80],
      [CHR 0xE2, CHR 0x80, CHR 0x80], [CHR 0xE2, CHR 0x80, CHR 0x81],
      [CHR 0xE2, CHR 0x80, CHR 0x82], [CHR 0xE2, CHR 0x80, CHR 0x83],
      [CHR 0xE2, CHR 0x80, CHR 0x84], [CHR 0xE2, CHR 0x80, CHR 0x85],
      [CHR 0xE2, CHR 0x80, CHR 0x86], [CHR 0xE2, CHR 0x80, CHR 0x87],
      [CHR 0xE2, CHR 0x80, CHR 0x88], [CHR 0xE2, CHR 0x80, CHR 0x89],
      [CHR 0xE2, CHR 0x80, CHR 0x8A], [CHR 0xE2, CHR 0x80, CHR 0xA8],
      [CHR 0xE2, CHR 0x80, CHR 0xA9], [CHR 0xE2, CHR 0x80, CHR 0xAF],
      [CHR 0xE2, CHR 0x81, CHR 0x9F], [CHR 0xE3, CHR 0x80, CHR 0x80]]"

lemma find_SomeD: "find P xs = Some x \<Longrightarrow> P x \<and> x \<in> set xs"
  by (auto simp: find_Some_iff)

lemma drop_prefix_shorter:
  "e \<noteq> [] \<Longrightarrow> has_prefix s e \<Longrightarrow> length (drop (length e) s) < length s"
  by (cases s) (auto simp: has_prefix_def)

function strip :: "string list \<Rightarrow> string \<Rightarrow> string" where
  "strip encs s =
     (case find (\<lambda>e. e \<noteq> [] \<and> has_prefix s e) encs of
        None \<Rightarrow> s
      | Some e \<Rightarrow> strip encs (drop (length e) s))"
  by pat_completeness auto
termination
  by (relation "measure (\<lambda>(encs, s). length s)")
    (auto dest!: find_SomeD dest: drop_prefix_shorter)

declare strip.simps [simp del]

definition trim_left :: "string \<Rightarrow> string" where
  "trim_left s = strip space_encs s"

definition trim_right :: "string \<Rightarrow> string" where
  "trim_right s = rev (strip (map rev space_encs) (rev s))"

definition trim_space :: "string \<Rightarrow> string" where
  "trim_space s = trim_right (trim_left s)"

text \<open>What is stripped: the result is a suffix that no longer starts with an encoding.\<close>

lemma strip_stuck:
  "e \<in> set encs \<Longrightarrow> e \<noteq> [] \<Longrightarrow> \<not> has_prefix (strip encs s) e"
proof (induction encs s rule: strip.induct)
  case (1 encs s)
  show ?case
  proof (cases "find (\<lambda>e. e \<noteq> [] \<and> has_prefix s e) encs")
    case None
    then have "strip encs s = s" by (simp add: strip.simps [of encs s])
    with None 1(2,3) show ?thesis by (auto simp: find_None_iff)
  next
    case (Some e')
    with 1 show ?thesis
      by (simp add: strip.simps [of encs s])
  qed
qed

lemma strip_id:
  "(\<And>e. e \<in> set encs \<Longrightarrow> e \<noteq> [] \<Longrightarrow> \<not> has_prefix s e) \<Longrightarrow> strip encs s = s"
  by (subst strip.simps) (auto simp: find_None_iff split: option.split dest!: find_Some_iff [THEN iffD1])

lemma strip_suffix: "\<exists>p. s = p @ strip encs s"
proof (induction encs s rule: strip.induct)
  case (1 encs s)
  show ?case
  proof (cases "find (\<lambda>e. e \<noteq> [] \<and> has_prefix s e) encs")
    case None
    then show ?thesis by (simp add: strip.simps [of encs s])
  next
    case (Some e)
    then have "has_prefix s e"
      by (auto simp: find_Some_iff)
    then have "s = e @ drop (length e) s"
      by (rule has_prefixD)
    moreover obtain p where "drop (length e) s = p @ strip encs (drop (length e) s)"
      using 1 Some by blast
    ultimately have "s = (e @ p) @ strip encs s"
      using Some by (simp add: strip.simps [of encs s])
    then show ?thesis by blast
  qed
qed

lemma space_encs_nonempty: "e \<in> set space_encs \<Longrightarrow> e \<noteq> []"
  by (auto simp: space_encs_def)

lemma trim_right_prefix: "\<exists>q. s = trim_right s @ q"
proof -
  obtain p where "rev s = p @ strip (map rev space_encs) (rev s)"
    using strip_suffix by blast
  then have "s = rev (strip (map rev space_encs) (rev s)) @ rev p"
    by (metis rev_append rev_rev_ident)
  then show ?thesis by (auto simp: trim_right_def)
qed

lemma trim_space_no_leading_space:
  assumes "e \<in> set space_encs"
  shows "\<not> has_prefix (trim_space s) e"
proof
  assume "has_prefix (trim_space s) e"
  moreover obtain q where "trim_left s = trim_space s @ q"
    using trim_right_prefix [of "trim_left s"] by (auto simp: trim_space_def)
  ultimately have "has_prefix (trim_left s) e"
    by (metis append.assoc has_prefixD has_prefix_append)
  moreover have "\<not> has_prefix (trim_left s) e"
    using strip_stuck [OF assms space_encs_nonempty [OF assms]] by (simp add: trim_left_def)
  ultimately show False by simp
qed

lemma trim_space_no_trailing_space:
  assumes "e \<in> set space_encs"
  shows "\<not> has_prefix (rev (trim_space s)) (rev e)"
  using strip_stuck [of "rev e" "map rev space_encs"] space_encs_nonempty [OF assms] assms
  by (auto simp: trim_space_def trim_right_def)

lemma trim_space_idem [simp]: "trim_space (trim_space s) = trim_space s"
proof -
  have "trim_left (trim_space s) = trim_space s"
    unfolding trim_left_def by (rule strip_id) (rule trim_space_no_leading_space)
  moreover have "strip (map rev space_encs) (rev (trim_space s)) = rev (trim_space s)"
    by (rule strip_id) (auto dest: trim_space_no_trailing_space)
  ultimately show ?thesis
    by (simp add: trim_space_def [of "trim_space s"] trim_right_def)
qed

lemma strip_Nil [simp]: "strip encs [] = []"
  by (rule strip_id) (auto simp: has_prefix_def)

lemma trim_space_Nil [simp]: "trim_space [] = []"
  by (simp add: trim_space_def trim_left_def trim_right_def)

section \<open>Splitting\<close>

fun split_on :: "char \<Rightarrow> string \<Rightarrow> string list" where
  "split_on sep [] = [[]]"
| "split_on sep (c # cs) =
     (if c = sep then [] # split_on sep cs
      else (case split_on sep cs of [] \<Rightarrow> [[c]] | p # ps \<Rightarrow> (c # p) # ps))"

fun join_with :: "char \<Rightarrow> string list \<Rightarrow> string" where
  "join_with sep [] = []"
| "join_with sep [p] = p"
| "join_with sep (p # q # ps) = p @ sep # join_with sep (q # ps)"

lemma split_on_ne: "split_on sep s \<noteq> []"
  by (cases s) (auto split: list.split)

lemma join_with_split_on: "join_with sep (split_on sep s) = s"
proof (induction s)
  case (Cons c s)
  obtain p ps where "split_on sep s = p # ps"
    using split_on_ne by (metis list.exhaust)
  with Cons show ?case by (cases ps) auto
qed simp

lemma split_on_no_sep: "p \<in> set (split_on sep s) \<Longrightarrow> sep \<notin> set p"
  by (induction s arbitrary: p) (auto split: list.splits if_splits)

section \<open>Decimal numbers\<close>

definition is_digit :: "char \<Rightarrow> bool" where
  "is_digit c \<longleftrightarrow> 48 \<le> ord8 c \<and> ord8 c \<le> 57"

definition digit_val :: "char \<Rightarrow> nat" where
  "digit_val c = ord8 c - 48"

definition digit_chr :: "nat \<Rightarrow> char" where
  "digit_chr n = char_of (48 + n)"

lemma digit_chr [simp]:
  "n < 10 \<Longrightarrow> is_digit (digit_chr n)"
  "n < 10 \<Longrightarrow> digit_val (digit_chr n) = n"
  by (simp_all add: is_digit_def digit_val_def digit_chr_def ord8_char_of)

lemma digit_chr_val: "is_digit c \<Longrightarrow> digit_chr (digit_val c) = c"
  by (simp add: is_digit_def digit_val_def digit_chr_def ord8_def)

lemma digit_val_less: "is_digit c \<Longrightarrow> digit_val c < 10"
  by (auto simp: is_digit_def digit_val_def)

definition digits_val :: "string \<Rightarrow> nat" where
  "digits_val ds = foldl (\<lambda>n c. 10 * n + digit_val c) 0 ds"

fun dec_digits :: "nat \<Rightarrow> string" where
  "dec_digits n = (if n < 10 then [digit_chr n] else dec_digits (n div 10) @ [digit_chr (n mod 10)])"

declare dec_digits.simps [simp del]

definition append_int :: "int \<Rightarrow> nat \<Rightarrow> string" where
  "append_int n w =
     (let ds = dec_digits (nat \<bar>n\<bar>)
      in (if n < 0 then ''-'' else []) @ replicate (w - length ds) (CHR ''0'') @ ds)"

text \<open>
  \<open>strconv.Atoi\<close>: an optional sign, at least one digit, digits only, and a value in the range of
  a 64-bit \<open>int\<close>; anything else is an error.
\<close>

definition atoi :: "string \<Rightarrow> int option" where
  "atoi s =
     (let neg = (s \<noteq> [] \<and> hd s = CHR ''-'');
          ds = (if s \<noteq> [] \<and> (hd s = CHR ''-'' \<or> hd s = CHR ''+'') then tl s else s);
          v = (if neg then - int (digits_val ds) else int (digits_val ds))
      in if ds = [] \<or> \<not> list_all is_digit ds then None
         else if v < - (2 ^ 63) \<or> 2 ^ 63 \<le> v then None
         else Some v)"

lemma digits_val_snoc [simp]: "digits_val (ds @ [c]) = 10 * digits_val ds + digit_val c"
  by (simp add: digits_val_def)

lemma digits_val_Nil [simp]: "digits_val [] = 0"
  by (simp add: digits_val_def)

lemma digits_val_dec_digits [simp]: "digits_val (dec_digits n) = n"
proof (induction n rule: dec_digits.induct)
  case (1 n)
  then show ?case
    by (subst dec_digits.simps) (auto simp: digits_val_def)
qed

lemma list_all_dec_digits: "list_all is_digit (dec_digits n)"
proof (induction n rule: dec_digits.induct)
  case (1 n)
  then show ?case by (subst dec_digits.simps) auto
qed

lemma dec_digits_ne: "dec_digits n \<noteq> []"
  by (subst dec_digits.simps) auto

lemma dec_digits_head: "is_digit (hd (dec_digits n))"
  using list_all_dec_digits [of n] dec_digits_ne [of n] by (cases "dec_digits n") auto

lemma atoi_dec_digits:
  assumes "n < 2 ^ 63"
  shows "atoi (dec_digits n) = Some (int n)"
proof -
  have "hd (dec_digits n) \<noteq> CHR ''-''" "hd (dec_digits n) \<noteq> CHR ''+''"
    using dec_digits_head [of n] by (auto simp: is_digit_def ord8_def)
  moreover have "int n < 2 ^ 63" using assms by simp
  ultimately show ?thesis
    using list_all_dec_digits [of n] dec_digits_ne [of n]
    by (simp add: atoi_def Let_def)
qed

end
