(* ===== verification/Go_Time.thy ===== *)
theory Go_Time
  imports Go_Strings
begin

text \<open>
  The part of Go's \<open>time\<close> package that the server calls: the civil calendar behind
  \<open>Time.Date\<close> and \<open>time.Date\<close>, \<open>AddDate\<close> with a number of days, and \<open>Parse\<close> and \<open>Format\<close> for the
  one layout the server uses, \<open>2006-01-02\<close>. Days are counted from January 1 of year 1, which
  is day 0. The lemmas show that the two directions of the calendar are inverse to each other
  and that parsing and printing are.
\<close>

section \<open>The proleptic Gregorian calendar\<close>

type_synonym civil = "int \<times> int \<times> int"

definition is_leap :: "int \<Rightarrow> bool" where
  "is_leap y \<longleftrightarrow> y mod 4 = 0 \<and> (y mod 100 \<noteq> 0 \<or> y mod 400 = 0)"

definition days_in :: "int \<Rightarrow> int \<Rightarrow> int" where
  "days_in m y =
     (if m = 2 then (if is_leap y then 29 else 28)
      else if m = 4 \<or> m = 6 \<or> m = 9 \<or> m = 11 then 30 else 31)"

definition days_before_year :: "int \<Rightarrow> int" where
  "days_before_year y = 365 * (y - 1) + (y - 1) div 4 - (y - 1) div 100 + (y - 1) div 400"

definition days_before_month :: "int \<Rightarrow> int \<Rightarrow> int" where
  "days_before_month y m =
     (if m \<le> 1 then 0 else if m = 2 then 31
      else (if m = 3 then 59 else if m = 4 then 90 else if m = 5 then 120 else if m = 6 then 151
            else if m = 7 then 181 else if m = 8 then 212 else if m = 9 then 243
            else if m = 10 then 273 else if m = 11 then 304 else 334)
           + (if is_leap y then 1 else 0))"

fun day_number :: "civil \<Rightarrow> int" where
  "day_number (y, m, d) = days_before_year y + days_before_month y m + (d - 1)"

fun valid_civil :: "civil \<Rightarrow> bool" where
  "valid_civil (y, m, d) \<longleftrightarrow> 1 \<le> m \<and> m \<le> 12 \<and> 1 \<le> d \<and> d \<le> days_in m y"

text \<open>
  The year of a day, by cutting off cycles of 400, 100, 4 and 1 years. A cycle of 100 years
  (or of 1 year) can be one day longer than its predecessors, hence the minimum with 3.
\<close>

definition year_of :: "int \<Rightarrow> int" where
  "year_of n =
     (let a = n div 146097; r = n mod 146097;
          c = min 3 (r div 36524); r = r - 36524 * c;
          q = r div 1461; r = r - 1461 * q;
          e = min 3 (r div 365)
      in 400 * a + 100 * c + 4 * q + e + 1)"

definition month_of :: "int \<Rightarrow> int \<Rightarrow> int" where
  "month_of y yd =
     (if yd < days_before_month y 2 then 1 else if yd < days_before_month y 3 then 2
      else if yd < days_before_month y 4 then 3 else if yd < days_before_month y 5 then 4
      else if yd < days_before_month y 6 then 5 else if yd < days_before_month y 7 then 6
      else if yd < days_before_month y 8 then 7 else if yd < days_before_month y 9 then 8
      else if yd < days_before_month y 10 then 9 else if yd < days_before_month y 11 then 10
      else if yd < days_before_month y 12 then 11 else 12)"

definition civil_of_day :: "int \<Rightarrow> civil" where
  "civil_of_day n =
     (let y = year_of n; yd = n - days_before_year y; m = month_of y yd
      in (y, m, yd - days_before_month y m + 1))"

text \<open>The length of a year, and the years as consecutive intervals of days.\<close>

lemma div_pred:
  fixes k :: int
  assumes "0 < k"
  shows "(y - 1) div k = (if y mod k = 0 then y div k - 1 else y div k)"
proof (cases "y mod k = 0")
  case True
  then have "y - 1 = k * (y div k - 1) + (k - 1)"
    using mult_div_mod_eq [of k y] by (simp add: algebra_simps)
  then have "(y - 1) div k = y div k - 1"
    by (rule int_div_pos_eq) (use assms in auto)
  with True show ?thesis by simp
next
  case False
  have "y - 1 = k * (y div k) + (y mod k - 1)"
    using mult_div_mod_eq [of k y] by (simp add: algebra_simps)
  moreover have "0 \<le> y mod k" "y mod k < k"
    using assms by simp_all
  ultimately have "(y - 1) div k = y div k"
    using False by (intro int_div_pos_eq [where r = "y mod k - 1"]) linarith+
  with False show ?thesis by simp
qed

lemma mod_zero_trans:
  fixes y :: int
  shows "y mod 400 = 0 \<Longrightarrow> y mod 100 = 0" and "y mod 100 = 0 \<Longrightarrow> y mod 4 = 0"
  by (auto simp: mod_eq_0_iff_dvd elim!: dvd_trans [rotated])

lemma days_before_year_Suc:
  "days_before_year (y + 1) = days_before_year y + (if is_leap y then 366 else 365)"
  using mod_zero_trans [of y]
  by (auto simp: days_before_year_def is_leap_def div_pred)

lemma days_before_year_mono: "y < y' \<Longrightarrow> days_before_year (y + 1) \<le> days_before_year y'"
proof (induction "nat (y' - y - 1)" arbitrary: y')
  case 0
  then have "y' = y + 1" by simp
  then show ?case by simp
next
  case (Suc k)
  then have "days_before_year (y + 1) \<le> days_before_year (y' - 1)" by simp
  also have "\<dots> \<le> days_before_year y'"
    using days_before_year_Suc [of "y' - 1"] by (simp split: if_splits)
  finally show ?case .
qed

text \<open>One 400-year cycle: the year index decomposes in the mixed base 400, 100, 4, 1.\<close>

lemma cycle_divs:
  fixes a c q e :: int
  assumes "0 \<le> c" "c \<le> 3" "0 \<le> q" "q \<le> 24" "0 \<le> e" "e \<le> 3"
  shows "(400 * a + 100 * c + 4 * q + e) div 4 = 100 * a + 25 * c + q"
    and "(400 * a + 100 * c + 4 * q + e) div 100 = 4 * a + c"
    and "(400 * a + 100 * c + 4 * q + e) div 400 = a"
proof -
  show "(400 * a + 100 * c + 4 * q + e) div 4 = 100 * a + 25 * c + q"
    using assms by (intro int_div_pos_eq [where r = e]) (simp_all add: distrib_left)
  show "(400 * a + 100 * c + 4 * q + e) div 100 = 4 * a + c"
    using assms by (intro int_div_pos_eq [where r = "4 * q + e"]) (simp_all add: distrib_left)
  show "(400 * a + 100 * c + 4 * q + e) div 400 = a"
    using assms by (intro int_div_pos_eq [where r = "100 * c + 4 * q + e"]) (simp_all add: distrib_left)
qed

lemma cycle_days:
  fixes a c q e :: int
  assumes "0 \<le> c" "c \<le> 3" "0 \<le> q" "q \<le> 24" "0 \<le> e" "e \<le> 3"
  shows "days_before_year (400 * a + 100 * c + 4 * q + e + 1)
       = 146097 * a + 36524 * c + 1461 * q + 365 * e"
  using cycle_divs [OF assms, of a] by (simp add: days_before_year_def)

text \<open>Which years of a cycle are leap years follows from the length of the year.\<close>

lemma mod_of_div:
  fixes k :: int
  assumes "0 < k" and "(y - 1) div k = v"
  shows "y mod k = 0 \<longleftrightarrow> y = k * (v + 1)"
proof (cases "y mod k = 0")
  case True
  then have "v = y div k - 1"
    using assms div_pred [OF assms(1), of y] by simp
  then have "k * (v + 1) = y"
    using True mult_div_mod_eq [of k y] by simp
  with True show ?thesis by simp
next
  case False
  then show ?thesis by auto
qed

lemma cycle_leap:
  fixes a c q e :: int
  assumes "0 \<le> c" "c \<le> 3" "0 \<le> q" "q \<le> 24" "0 \<le> e" "e \<le> 3"
  shows "is_leap (400 * a + 100 * c + 4 * q + e + 1) \<longleftrightarrow> e = 3 \<and> (q \<noteq> 24 \<or> c = 3)"
proof -
  let ?y = "400 * a + 100 * c + 4 * q + e + 1"
  have "?y mod 4 = 0 \<longleftrightarrow> ?y = 4 * (100 * a + 25 * c + q + 1)"
    by (rule mod_of_div) (use cycle_divs [OF assms, of a] in simp_all)
  also have "\<dots> \<longleftrightarrow> e = 3" by (rule iffI) (simp_all add: distrib_left)
  finally have y4: "?y mod 4 = 0 \<longleftrightarrow> e = 3" .
  have "?y mod 100 = 0 \<longleftrightarrow> ?y = 100 * (4 * a + c + 1)"
    by (rule mod_of_div) (use cycle_divs [OF assms, of a] in simp_all)
  also have "\<dots> \<longleftrightarrow> 4 * q + e = 99" by (rule iffI) (simp_all add: distrib_left)
  finally have y100: "?y mod 100 = 0 \<longleftrightarrow> 4 * q + e = 99" .
  have "?y mod 400 = 0 \<longleftrightarrow> ?y = 400 * (a + 1)"
    by (rule mod_of_div) (use cycle_divs [OF assms, of a] in simp_all)
  also have "\<dots> \<longleftrightarrow> 100 * c + (4 * q + e) = 399" by (rule iffI) (simp_all add: distrib_left)
  finally have y400: "?y mod 400 = 0 \<longleftrightarrow> 100 * c + (4 * q + e) = 399" .
  have "e = 3 \<Longrightarrow> 4 * q + e = 99 \<longleftrightarrow> q = 24" by (rule iffI) linarith+
  moreover have "4 * q + e = 99 \<Longrightarrow> 100 * c + (4 * q + e) = 399 \<longleftrightarrow> c = 3"
    by (rule iffI) linarith+
  moreover have "100 * c + (4 * q + e) = 399 \<Longrightarrow> 4 * q + e = 99"
    using assms by linarith
  ultimately show ?thesis
    unfolding is_leap_def y4 y100 y400 by blast
qed

text \<open>A quotient capped at 3 and its remainder.\<close>

lemma capped_div:
  fixes k :: int
  assumes "0 < k" and "0 \<le> r" and "r < 4 * k + 1" and "c = min 3 (r div k)"
  shows "0 \<le> c" "c \<le> 3" "k * c \<le> r" "c < 3 \<longrightarrow> r < k * c + k"
proof -
  have "0 \<le> r div k" using assms by (simp add: pos_imp_zdiv_nonneg_iff)
  then show "0 \<le> c" "c \<le> 3" using assms by auto
  have m: "k * (r div k) + r mod k = r" "0 \<le> r mod k" "r mod k < k"
    using assms by simp_all
  have "k * c \<le> k * (r div k)" using assms by (intro mult_left_mono) auto
  with m show "k * c \<le> r" by linarith
  show "c < 3 \<longrightarrow> r < k * c + k"
  proof
    assume "c < 3"
    then have "k * c = k * (r div k)" using assms(4) by auto
    with m show "r < k * c + k" by linarith
  qed
qed

lemma year_of_bounds:
  "days_before_year (year_of n) \<le> n \<and> n < days_before_year (year_of n + 1)"
proof -
  define a where "a = n div 146097"
  define r where "r = n mod 146097"
  define c where "c = min 3 (r div 36524)"
  define s where "s = r - 36524 * c"
  define q where "q = s div 1461"
  define t where "t = s - 1461 * q"
  define e where "e = min 3 (t div 365)"
  have n: "n = 146097 * a + r" and r: "0 \<le> r" "r < 146097"
    by (simp_all add: a_def r_def)
  have c: "0 \<le> c" "c \<le> 3" and s: "0 \<le> s" "s \<le> 36524" "c < 3 \<longrightarrow> s < 36524"
    using capped_div [of 36524 r c] r by (auto simp: c_def s_def)
  have sq: "s = 1461 * q + t" "0 \<le> t" "t < 1461"
    by (simp_all add: q_def t_def minus_mult_div_eq_mod)
  then have q: "0 \<le> q" "q \<le> 24" and t: "q = 24 \<and> c < 3 \<longrightarrow> t < 1460"
    using s by linarith+
  have e: "0 \<le> e" "e \<le> 3" and u: "365 * e \<le> t" "e < 3 \<longrightarrow> t < 365 * e + 365"
    using capped_div [of 365 t e] sq by (auto simp: e_def)
  have y: "year_of n = 400 * a + 100 * c + 4 * q + e + 1"
    unfolding year_of_def Let_def
    by (simp only: a_def [symmetric] r_def [symmetric] c_def [symmetric] s_def [symmetric]
        q_def [symmetric] t_def [symmetric] e_def [symmetric])
  have "n = 146097 * a + 36524 * c + 1461 * q + t"
    using n sq by (simp add: s_def)
  moreover have "days_before_year (year_of n) = 146097 * a + 36524 * c + 1461 * q + 365 * e"
    unfolding y by (rule cycle_days [OF c q e])
  ultimately have lo: "n = days_before_year (year_of n) + (t - 365 * e)"
    by linarith
  have "t - 365 * e < (if is_leap (year_of n) then 366 else 365)"
  proof (cases "e < 3")
    case True
    then show ?thesis using u by simp
  next
    case False
    then have "e = 3" using e by simp
    then show ?thesis
      using cycle_leap [OF c q e, of a] sq t c by (auto simp: y)
  qed
  with lo u show ?thesis
    using days_before_year_Suc [of "year_of n"] by simp
qed

lemma year_of_unique:
  assumes "days_before_year y \<le> n" and "n < days_before_year (y + 1)"
  shows "year_of n = y"
  using year_of_bounds [of n] assms days_before_year_mono [of y "year_of n"]
    days_before_year_mono [of "year_of n" y]
  by (metis linorder_neqE_linordered_idom linorder_not_le order_le_less_trans order_less_le_trans)

text \<open>Months as consecutive intervals of the days of a year.\<close>

lemma month_cases:
  assumes "(1::int) \<le> m" and "m \<le> 12"
  obtains "m = 1" | "m = 2" | "m = 3" | "m = 4" | "m = 5" | "m = 6"
    | "m = 7" | "m = 8" | "m = 9" | "m = 10" | "m = 11" | "m = 12"
  using assms by atomize_elim arith

lemma days_before_month_at:
  "days_before_month y 1 = 0" "days_before_month y 2 = 31"
  "days_before_month y 3 = 59 + (if is_leap y then 1 else 0)"
  "days_before_month y 4 = 90 + (if is_leap y then 1 else 0)"
  "days_before_month y 5 = 120 + (if is_leap y then 1 else 0)"
  "days_before_month y 6 = 151 + (if is_leap y then 1 else 0)"
  "days_before_month y 7 = 181 + (if is_leap y then 1 else 0)"
  "days_before_month y 8 = 212 + (if is_leap y then 1 else 0)"
  "days_before_month y 9 = 243 + (if is_leap y then 1 else 0)"
  "days_before_month y 10 = 273 + (if is_leap y then 1 else 0)"
  "days_before_month y 11 = 304 + (if is_leap y then 1 else 0)"
  "days_before_month y 12 = 334 + (if is_leap y then 1 else 0)"
  by (simp_all add: days_before_month_def)

lemma days_in_at:
  "days_in 1 y = 31" "days_in 2 y = (if is_leap y then 29 else 28)" "days_in 3 y = 31"
  "days_in 4 y = 30" "days_in 5 y = 31" "days_in 6 y = 30" "days_in 7 y = 31" "days_in 8 y = 31"
  "days_in 9 y = 30" "days_in 10 y = 31" "days_in 11 y = 30" "days_in 12 y = 31"
  by (simp_all add: days_in_def)

lemmas month_table = days_before_month_at days_in_at

lemma month_of_day:
  assumes "1 \<le> m" "m \<le> 12" "1 \<le> d" "d \<le> days_in m y"
  shows "month_of y (days_before_month y m + (d - 1)) = m"
proof (cases "is_leap y")
  case True
  show ?thesis
    by (rule month_cases [OF assms(1,2)])
      (use assms(3,4) True in \<open>simp_all add: month_of_def month_table\<close>)
next
  case False
  show ?thesis
    by (rule month_cases [OF assms(1,2)])
      (use assms(3,4) False in \<open>simp_all add: month_of_def month_table\<close>)
qed

lemma month_of_bounds:
  assumes "0 \<le> yd" and "yd < (if is_leap y then 366 else 365)"
  shows "1 \<le> month_of y yd \<and> month_of y yd \<le> 12 \<and> days_before_month y (month_of y yd) \<le> yd
       \<and> yd < days_before_month y (month_of y yd) + days_in (month_of y yd) y"
  using assms by (cases "is_leap y") (simp_all add: month_of_def month_table)

text \<open>The two directions of the calendar.\<close>

lemma civil_of_day_number:
  assumes "valid_civil (y, m, d)"
  shows "civil_of_day (day_number (y, m, d)) = (y, m, d)"
proof -
  from assms have m: "1 \<le> m" "m \<le> 12" and d: "1 \<le> d" "d \<le> days_in m y"
    by auto
  have le: "days_before_month y m + days_in m y \<le> (if is_leap y then 366 else 365)"
    by (rule month_cases [OF m]) (simp_all add: days_before_month_def days_in_def)
  have "0 \<le> days_before_month y m"
    by (simp add: days_before_month_def)
  then have "year_of (day_number (y, m, d)) = y"
    using d le by (intro year_of_unique) (auto simp: days_before_year_Suc)
  then show ?thesis
    using month_of_day [OF m d] by (simp add: civil_of_day_def Let_def algebra_simps)
qed

lemma civil_of_day_inverse:
  "valid_civil (civil_of_day n) \<and> day_number (civil_of_day n) = n"
proof -
  have "0 \<le> n - days_before_year (year_of n)"
    and "n - days_before_year (year_of n) < (if is_leap (year_of n) then 366 else 365)"
    using year_of_bounds [of n] by (auto simp: days_before_year_Suc)
  from month_of_bounds [OF this] show ?thesis
    by (auto simp: civil_of_day_def Let_def)
qed

section \<open>Instants\<close>

definition ns_per_day :: int where
  "ns_per_day = 86400000000000"

text \<open>\<open>t.Date()\<close> of an instant in UTC, and \<open>time.Date(y, m, d, 0, 0, 0, 0, time.UTC)\<close>.\<close>

definition civil_of :: "gotime \<Rightarrow> civil" where
  "civil_of t = civil_of_day (t div ns_per_day)"

definition midnight :: "civil \<Rightarrow> gotime" where
  "midnight c = day_number c * ns_per_day"

text \<open>\<open>t.AddDate(0, 0, k)\<close>: the day of the month is moved and normalised, the clock is kept.\<close>

definition add_days :: "gotime \<Rightarrow> int \<Rightarrow> gotime" where
  "add_days t k =
     (case civil_of t of (y, m, d) \<Rightarrow> midnight (y, m, d + k) + t mod ns_per_day)"

lemma midnight_civil_of: "midnight (civil_of t) = t div ns_per_day * ns_per_day"
  by (simp add: midnight_def civil_of_def civil_of_day_inverse)

lemma civil_of_midnight: "valid_civil c \<Longrightarrow> civil_of (midnight c) = c"
  by (cases c) (simp add: midnight_def civil_of_def ns_per_day_def civil_of_day_number del: day_number.simps)

lemma add_days_eq: "add_days t k = t + k * ns_per_day"
proof (cases "civil_of t")
  case (fields y m d)
  then have "midnight (y, m, d) = t div ns_per_day * ns_per_day"
    by (metis midnight_civil_of)
  then have "midnight (y, m, d + k) = t div ns_per_day * ns_per_day + k * ns_per_day"
    by (simp add: midnight_def algebra_simps)
  with fields show ?thesis
    by (simp add: add_days_def)
qed

section \<open>The layout 2006-01-02\<close>

definition dateFmt :: string where
  "dateFmt = ''2006-01-02''"

fun num :: "string \<Rightarrow> int" where
  "num ds = int (digits_val ds)"

text \<open>
  \<open>time.Parse\<close> with this layout: a year of four digits, a hyphen, a month of two digits, a hyphen,
  a day of two digits, nothing after it; then the month and the day of that month must exist.
\<close>

definition parse_date :: "string \<Rightarrow> civil option" where
  "parse_date s =
     (let y = take 4 s; mm = take 2 (drop 5 s); dd = drop 8 s
      in if length s \<noteq> 10 \<or> s ! 4 \<noteq> CHR ''-'' \<or> s ! 7 \<noteq> CHR ''-''
            \<or> \<not> list_all is_digit (y @ mm @ dd) then None
         else if valid_civil (num y, num mm, num dd) then Some (num y, num mm, num dd)
         else None)"

definition format_civil :: "civil \<Rightarrow> string" where
  "format_civil = (\<lambda>(y, m, d). append_int y 4 @ ''-'' @ append_int m 2 @ ''-'' @ append_int d 2)"

definition time_parse :: "string \<Rightarrow> gotime option" where
  "time_parse s = map_option midnight (parse_date s)"

definition time_format :: "gotime \<Rightarrow> string" where
  "time_format t = format_civil (civil_of t)"

lemma dec_digits_small: "n < 10 \<Longrightarrow> dec_digits n = [digit_chr n]"
  by (simp add: dec_digits.simps)

lemma dec_digits_step: "10 \<le> n \<Longrightarrow> dec_digits n = dec_digits (n div 10) @ [digit_chr (n mod 10)]"
  by (subst dec_digits.simps) simp

lemma digit_chr_0: "digit_chr 0 = CHR ''0''"
  by code_simp

lemma append_int_2:
  assumes "0 \<le> n" "n < 100"
  shows "append_int n 2 = [digit_chr (nat n div 10), digit_chr (nat n mod 10)]"
proof (cases "nat n < 10")
  case True
  then show ?thesis using assms by (simp add: append_int_def dec_digits_small digit_chr_0)
next
  case False
  then have "nat n div 10 < 10" using assms by auto
  with False show ?thesis using assms
    by (simp add: append_int_def dec_digits_step [of "nat n"] dec_digits_small)
qed

lemma append_int_4:
  assumes "0 \<le> n" "n < 10000"
  shows "append_int n 4 =
    [digit_chr (nat n div 1000), digit_chr (nat n div 100 mod 10),
     digit_chr (nat n div 10 mod 10), digit_chr (nat n mod 10)]"
proof -
  define k where "k = nat n"
  have k: "k < 10000" "nat \<bar>n\<bar> = k" "\<not> n < 0" using assms by (auto simp: k_def)
  have d: "k div 10 div 10 = k div 100" "k div 100 div 10 = k div 1000"
    by (simp_all flip: div_mult2_eq)
  have zeros: "replicate 3 (CHR ''0'') = ''000''" "replicate 2 (CHR ''0'') = ''00''"
    by (simp_all add: numeral_eq_Suc)
  consider "k < 10" | "10 \<le> k" "k < 100" | "100 \<le> k" "k < 1000" | "1000 \<le> k" by linarith
  then have "replicate (4 - length (dec_digits k)) (CHR ''0'') @ dec_digits k =
    [digit_chr (k div 1000), digit_chr (k div 100 mod 10), digit_chr (k div 10 mod 10), digit_chr (k mod 10)]"
  proof cases
    case 1
    then have "dec_digits k = [digit_chr k]" by (rule dec_digits_small)
    with 1 show ?thesis by (simp add: digit_chr_0 zeros)
  next
    case 2
    then have "dec_digits k = [digit_chr (k div 10), digit_chr (k mod 10)]"
      by (subst dec_digits_step) (auto simp: dec_digits_small)
    with 2 show ?thesis by (simp add: digit_chr_0 zeros)
  next
    case 3
    then have "dec_digits k = [digit_chr (k div 100), digit_chr (k div 10 mod 10), digit_chr (k mod 10)]"
      using d by (subst dec_digits_step, simp, subst dec_digits_step) (auto simp: dec_digits_small)
    with 3 show ?thesis by (simp add: digit_chr_0)
  next
    case 4
    then have "dec_digits k = [digit_chr (k div 1000), digit_chr (k div 100 mod 10),
        digit_chr (k div 10 mod 10), digit_chr (k mod 10)]"
      using d k by (subst dec_digits_step, simp, subst dec_digits_step, simp, subst dec_digits_step)
        (auto simp: dec_digits_small)
    then show ?thesis by simp
  qed
  then show ?thesis by (simp add: append_int_def Let_def k k_def [symmetric])
qed

lemma digits_val_2: "digits_val [a, b] = 10 * digit_val a + digit_val b"
  by (simp add: digits_val_def)

lemma digits_val_4:
  "digits_val [a, b, c, d] = 1000 * digit_val a + 100 * digit_val b + 10 * digit_val c + digit_val d"
  by (simp add: digits_val_def)

lemma num_append_int_2: "0 \<le> n \<Longrightarrow> n < 100 \<Longrightarrow> num (append_int n 2) = n"
  by (simp add: append_int_2 digits_val_2)

lemma split_4_digits:
  "1000 * (k div 1000) + 100 * (k div 100 mod 10) + 10 * (k div 10 mod 10) + k mod 10 = (k::nat)"
proof -
  have "k div 100 = 10 * (k div 1000) + k div 100 mod 10"
    using div_mult_mod_eq [of "k div 100" 10] by (simp flip: div_mult2_eq)
  moreover have "k div 10 = 10 * (k div 100) + k div 10 mod 10"
    using div_mult_mod_eq [of "k div 10" 10] by (simp flip: div_mult2_eq)
  moreover have "k = 10 * (k div 10) + k mod 10" by simp
  ultimately show ?thesis by linarith
qed

lemma num_append_int_4:
  assumes "0 \<le> n" "n < 10000"
  shows "num (append_int n 4) = n"
proof -
  have "nat n div 1000 < 10" using assms by auto
  then have "digits_val (append_int n 4) = nat n"
    using split_4_digits [of "nat n"] assms by (simp add: append_int_4 digits_val_4)
  then show ?thesis using assms by simp
qed

lemma last_digit: "d < 10 \<Longrightarrow> (10 * x + d) div 10 = x \<and> (10 * x + d) mod 10 = (d::nat)"
  by auto

lemma append_int_num_2:
  "is_digit a \<Longrightarrow> is_digit b \<Longrightarrow> append_int (num [a, b]) 2 = [a, b]"
  using digit_val_less [of a] digit_val_less [of b]
  by (simp add: append_int_2 digits_val_2 digit_chr_val nat_add_distrib nat_mult_distrib)

lemma append_int_num_4:
  assumes "is_digit a" "is_digit b" "is_digit c" "is_digit d"
  shows "append_int (num [a, b, c, d]) 4 = [a, b, c, d]"
proof -
  let ?k = "digits_val [a, b, c, d]"
  have less: "digit_val a < 10" "digit_val b < 10" "digit_val c < 10" "digit_val d < 10"
    using assms by (simp_all add: digit_val_less)
  have k: "?k = 10 * (10 * (10 * digit_val a + digit_val b) + digit_val c) + digit_val d"
    by (simp add: digits_val_4)
  have "?k div 1000 = ?k div 10 div 10 div 10" "?k div 100 = ?k div 10 div 10"
    by (simp_all flip: div_mult2_eq)
  then have "?k div 1000 = digit_val a" "?k div 100 mod 10 = digit_val b"
    "?k div 10 mod 10 = digit_val c" "?k mod 10 = digit_val d"
    unfolding k by (simp_all only: last_digit less)
  moreover have "?k < 10000"
    using less unfolding digits_val_4 by linarith
  ultimately show ?thesis
    using assms by (simp add: append_int_4 digit_chr_val)
qed

lemma ten_chars:
  assumes "length s = 10"
  obtains a b c d h e f i g j where "s = [a, b, c, d, h, e, f, i, g, j]"
proof -
  have "length s = Suc (Suc (Suc (Suc (Suc (Suc (Suc (Suc (Suc (Suc 0)))))))))"
    using assms by simp
  then show thesis using that unfolding length_Suc_conv by fastforce
qed

lemma valid_civil_bounds:
  assumes "valid_civil (y, m, d)"
  shows "1 \<le> m" "m < 100" "1 \<le> d" "d < 100"
  using assms by (auto simp: days_in_def split: if_splits)

lemma parse_format_civil:
  assumes "valid_civil (y, m, d)" and "0 \<le> y" and "y \<le> 9999"
  shows "parse_date (format_civil (y, m, d)) = Some (y, m, d)"
proof -
  from valid_civil_bounds [OF assms(1)] have b: "0 \<le> m" "m < 100" "0 \<le> d" "d < 100"
    by linarith+
  from assms have y: "0 \<le> y" "y < 10000" by linarith+
  have nums: "num (append_int y 4) = y" "num (append_int m 2) = m" "num (append_int d 2) = d"
    using num_append_int_4 [OF y] num_append_int_2 b by blast+
  have "length (append_int y 4) = 4" "list_all is_digit (append_int y 4)"
    "length (append_int m 2) = 2" "list_all is_digit (append_int m 2)"
    "length (append_int d 2) = 2" "list_all is_digit (append_int d 2)"
    using y b by (simp_all add: append_int_4 append_int_2 less_mult_imp_div_less)
  with nums assms(1) show ?thesis
    by (simp add: parse_date_def format_civil_def Let_def nth_append del: num.simps valid_civil.simps)
qed

lemma format_parse_date:
  assumes "parse_date s = Some c"
  shows "format_civil c = s" and "valid_civil c"
proof -
  have "length s = 10"
    using assms by (auto simp: parse_date_def Let_def split: if_splits)
  then obtain a b c' d h e f i g j where s: "s = [a, b, c', d, h, e, f, i, g, j]"
    by (rule ten_chars)
  from assms have "h = CHR ''-''" "i = CHR ''-''"
    and dig: "is_digit a" "is_digit b" "is_digit c'" "is_digit d" "is_digit e" "is_digit f"
      "is_digit g" "is_digit j"
    and c: "c = (num [a, b, c', d], num [e, f], num [g, j])"
    and v: "valid_civil c"
    by (auto simp: parse_date_def Let_def s numeral_eq_Suc simp del: num.simps valid_civil.simps
        split: if_splits)
  then show "format_civil c = s"
    by (simp add: format_civil_def s append_int_num_4 append_int_num_2 del: num.simps)
  show "valid_civil c" by (rule v)
qed

lemma parse_date_year:
  assumes "parse_date s = Some (y, m, d)"
  shows "0 \<le> y" and "y \<le> 9999"
proof -
  have "length s = 10"
    using assms by (auto simp: parse_date_def Let_def split: if_splits)
  then obtain a b c' d h e f i g j where s: "s = [a, b, c', d, h, e, f, i, g, j]"
    by (rule ten_chars)
  from assms have dig: "is_digit a" "is_digit b" "is_digit c'" "is_digit d"
    and y: "y = num [a, b, c', d]"
    by (auto simp: parse_date_def Let_def s numeral_eq_Suc simp del: num.simps valid_civil.simps
        split: if_splits)
  show "0 \<le> y" "y \<le> 9999"
    using dig [THEN digit_val_less] by (simp_all add: y digits_val_4)
qed

lemma parse_date_length: "parse_date s = Some c \<Longrightarrow> length s = 10"
  by (auto simp: parse_date_def Let_def split: if_splits)

end
