(* ===== verification/Store_Types.thy ===== *)
theory Store_Types
  imports Go_Time
begin

text \<open>
  The data and the interface of package \<open>store\<close> (\<open>server/internal/store/store.go\<close>).

  \<^item> the entities as records, one field per struct field, and their JSON form as the struct tags
    prescribe it;
  \<^item> \<open>store_ops\<close>, the interface \<open>Store\<close>: a record with one function per method. A method takes its
    arguments and the state of the store and returns its result and the new state. A method
    that reads the clock takes the reading as its first argument. \<open>Export\<close> is not a field (its
    writer would be a type argument of the record); each store defines it on its own;
  \<^item> \<open>store_view\<close>, what a client can know of a store, and the contract of the interface as two
    locales: \<open>store_laws\<close>, which any backend can keep (an operation may fail, and a failed
    write may or may not have been applied), and \<open>store_strict\<close>, for a backend that fails only
    once closed.
\<close>

section \<open>JSON values\<close>

text \<open>
  The value that \<open>encoding/json\<close> writes for a Go value (\<open>Go_Json\<close> has the text). \<open>JTime\<close> stands for the
  RFC 3339 string of an instant. A nil slice and an empty slice are not distinguished.
\<close>

datatype json =
    JNull
  | JBool bool
  | JNum int
  | JStr string
  | JTime gotime
  | JArr "json list"
  | JObj "(string \<times> json) list"

definition omit_empty :: "string \<Rightarrow> string \<Rightarrow> (string \<times> json) list" where
  "omit_empty k v = (if v = [] then [] else [(k, JStr v)])"

fun json_keys :: "json \<Rightarrow> string list" where
  "json_keys (JObj kvs) = map fst kvs"
| "json_keys _ = []"

section \<open>Entities\<close>

record auth_claims =
  c_uid :: string
  c_email :: string
  c_name :: string
  c_provider :: string

record user =
  u_uid :: string
  u_email :: string
  u_name :: string
  u_provider :: string
  u_beta :: bool
  u_beta_at :: gotime
  u_created :: gotime
  u_last_seen :: gotime

record puzzle =
  p_date :: string
  p_word :: string
  p_hint :: string
  p_difficulty :: int64

record attempt =
  a_uid :: string
  a_date :: string
  a_guesses :: "string list"
  a_won :: bool
  a_score :: int64
  a_completed :: gotime
  a_in_progress :: bool

record game_match =
  m_id :: string
  m_players :: "string list"
  m_mode :: string
  m_date :: string
  m_state :: string
  m_turns :: int64
  m_winner :: string
  m_created :: gotime
  m_ended :: gotime

datatype rank = Rank (r_uid: string) (r_score: int64)

definition no_claims :: auth_claims where
  "no_claims = \<lparr>c_uid = [], c_email = [], c_name = [], c_provider = []\<rparr>"

definition user_json :: "user \<Rightarrow> json" where
  "user_json u = JObj
     ([(''uid'', JStr (u_uid u))] @ omit_empty ''email'' (u_email u)
      @ omit_empty ''displayName'' (u_name u)
      @ [(''provider'', JStr (u_provider u)), (''isBetaTester'', JBool (u_beta u)),
         (''betaSignupAt'', JTime (u_beta_at u)), (''createdAt'', JTime (u_created u)),
         (''lastSeen'', JTime (u_last_seen u))])"

definition puzzle_json :: "puzzle \<Rightarrow> json" where
  "puzzle_json p = JObj
     ([(''date'', JStr (p_date p)), (''word'', JStr (p_word p))]
      @ omit_empty ''hint'' (p_hint p) @ [(''difficulty'', JNum (sint (p_difficulty p)))])"

text \<open>\<open>omitempty\<close> never omits a struct, so \<open>completedAt\<close> and \<open>endedAt\<close> are always written.\<close>

definition attempt_json :: "attempt \<Rightarrow> json" where
  "attempt_json a = JObj
     [(''uid'', JStr (a_uid a)), (''puzzleDate'', JStr (a_date a)),
      (''guesses'', JArr (map JStr (a_guesses a))), (''won'', JBool (a_won a)),
      (''score'', JNum (sint (a_score a))), (''completedAt'', JTime (a_completed a)),
      (''inProgress'', JBool (a_in_progress a))]"

definition match_json :: "game_match \<Rightarrow> json" where
  "match_json m = JObj
     ([(''id'', JStr (m_id m)), (''players'', JArr (map JStr (m_players m))),
       (''mode'', JStr (m_mode m)), (''puzzleDate'', JStr (m_date m)),
       (''state'', JStr (m_state m)), (''turns'', JNum (sint (m_turns m)))]
      @ omit_empty ''winner'' (m_winner m)
      @ [(''createdAt'', JTime (m_created m)), (''endedAt'', JTime (m_ended m))])"

definition rank_json :: "rank \<Rightarrow> json" where
  "rank_json r = JObj [(''uid'', JStr (r_uid r)), (''score'', JNum (sint (r_score r)))]"

section \<open>The order of leaderboard rows\<close>

text \<open>
  A row comes before another when its score is higher, or the scores are equal and its user id
  is smaller. This is a linear order, so the library's sorting facts apply to rows.
\<close>

instantiation rank :: linorder
begin

definition less_eq_rank :: "rank \<Rightarrow> rank \<Rightarrow> bool" where
  "less_eq_rank a b \<longleftrightarrow>
     sint (r_score b) < sint (r_score a) \<or> r_score a = r_score b \<and> r_uid a \<le> r_uid b"

definition less_rank :: "rank \<Rightarrow> rank \<Rightarrow> bool" where
  "less_rank a b \<longleftrightarrow>
     (if r_score a \<noteq> r_score b then sint (r_score b) < sint (r_score a) else r_uid a < r_uid b)"

instance
proof
  fix a b c :: rank
  have inj: "sint x = sint y \<Longrightarrow> x = y" for x y :: int64
    by (simp add: signed_word_eqI)
  show "a < b \<longleftrightarrow> a \<le> b \<and> \<not> b \<le> a"
    using inj [of "r_score a" "r_score b"] by (auto simp: less_rank_def less_eq_rank_def)
  show "a \<le> a" by (simp add: less_eq_rank_def)
  show "a \<le> b \<Longrightarrow> b \<le> c \<Longrightarrow> a \<le> c" by (auto simp: less_eq_rank_def)
  show "a \<le> b \<Longrightarrow> b \<le> a \<Longrightarrow> a = b"
    by (cases a; cases b) (auto simp: less_eq_rank_def)
  show "a \<le> b \<or> b \<le> a"
    using inj [of "r_score a" "r_score b"] by (auto simp: less_eq_rank_def)
qed

end

section \<open>The interface\<close>

record 's store_ops =
  st_UpsertUserOnFirstAuth :: "gotime \<Rightarrow> auth_claims \<Rightarrow> 's \<Rightarrow> user res \<times> 's"
  st_GetUser :: "string \<Rightarrow> 's \<Rightarrow> user res \<times> 's"
  st_TouchLastSeen :: "string \<Rightarrow> gotime \<Rightarrow> 's \<Rightarrow> unit res \<times> 's"
  st_GetPuzzle :: "string \<Rightarrow> 's \<Rightarrow> puzzle res \<times> 's"
  st_PutPuzzle :: "puzzle \<Rightarrow> 's \<Rightarrow> unit res \<times> 's"
  st_GetAttempt :: "string \<Rightarrow> string \<Rightarrow> 's \<Rightarrow> attempt res \<times> 's"
  st_UpsertAttempt :: "attempt \<Rightarrow> 's \<Rightarrow> unit res \<times> 's"
  st_GetMatch :: "string \<Rightarrow> 's \<Rightarrow> game_match res \<times> 's"
  st_UpsertMatch :: "game_match \<Rightarrow> 's \<Rightarrow> unit res \<times> 's"
  st_ListUserMatches :: "string \<Rightarrow> int \<Rightarrow> 's \<Rightarrow> game_match list res \<times> 's"
  st_SubmitScore :: "string \<Rightarrow> string \<Rightarrow> int64 \<Rightarrow> 's \<Rightarrow> unit res \<times> 's"
  st_TopN :: "string \<Rightarrow> int \<Rightarrow> 's \<Rightarrow> rank list res \<times> 's"
  st_MarkOnline :: "gotime \<Rightarrow> string \<Rightarrow> duration \<Rightarrow> 's \<Rightarrow> unit res \<times> 's"
  st_IsOnline :: "gotime \<Rightarrow> string \<Rightarrow> 's \<Rightarrow> bool res \<times> 's"
  st_CacheGet :: "gotime \<Rightarrow> string \<Rightarrow> 's \<Rightarrow> (bytes \<times> bool) res \<times> 's"
  st_CacheSet :: "gotime \<Rightarrow> string \<Rightarrow> bytes \<Rightarrow> duration \<Rightarrow> 's \<Rightarrow> unit res \<times> 's"
  st_Ping :: "'s \<Rightarrow> unit res \<times> 's"
  st_Close :: "'s \<Rightarrow> unit res \<times> 's"

section \<open>What a client can know of a store\<close>

record store_view =
  v_users :: "string \<Rightarrow> user option"
  v_puzzles :: "string \<Rightarrow> puzzle option"
  v_attempts :: "string \<Rightarrow> string \<Rightarrow> attempt option"
  v_matches :: "string \<Rightarrow> game_match option"
  v_boards :: "string \<Rightarrow> string \<Rightarrow> int64 option"

text \<open>
  The intended effect of the writes. A re-authentication refreshes the profile and keeps the
  beta provenance; a score replaces a board entry only when it is higher.
\<close>

definition user_after_auth :: "gotime \<Rightarrow> auth_claims \<Rightarrow> user option \<Rightarrow> user" where
  "user_after_auth now c old =
     (case old of
        Some u \<Rightarrow> u\<lparr>u_email := c_email c, u_name := c_name c, u_provider := c_provider c,
                    u_last_seen := now\<rparr>
      | None \<Rightarrow> \<lparr>u_uid = c_uid c, u_email = c_email c, u_name = c_name c,
                 u_provider = c_provider c, u_beta = True, u_beta_at = now,
                 u_created = now, u_last_seen = now\<rparr>)"

definition best_score :: "int64 \<Rightarrow> int64 option \<Rightarrow> int64" where
  "best_score new old =
     (case old of None \<Rightarrow> new | Some cur \<Rightarrow> if sint cur \<ge> sint new then cur else new)"

definition view_auth :: "gotime \<Rightarrow> auth_claims \<Rightarrow> store_view \<Rightarrow> store_view" where
  "view_auth now c v =
     v\<lparr>v_users := (v_users v)(c_uid c \<mapsto> user_after_auth now c (v_users v (c_uid c)))\<rparr>"

definition view_put_puzzle :: "puzzle \<Rightarrow> store_view \<Rightarrow> store_view" where
  "view_put_puzzle p v = v\<lparr>v_puzzles := (v_puzzles v)(p_date p \<mapsto> p)\<rparr>"

definition view_put_attempt :: "attempt \<Rightarrow> store_view \<Rightarrow> store_view" where
  "view_put_attempt a v =
     v\<lparr>v_attempts := (v_attempts v)(a_uid a := (v_attempts v (a_uid a))(a_date a \<mapsto> a))\<rparr>"

definition view_put_match :: "game_match \<Rightarrow> store_view \<Rightarrow> store_view" where
  "view_put_match m v = v\<lparr>v_matches := (v_matches v)(m_id m \<mapsto> m)\<rparr>"

definition view_submit :: "string \<Rightarrow> string \<Rightarrow> int64 \<Rightarrow> store_view \<Rightarrow> store_view" where
  "view_submit b u sc v =
     v\<lparr>v_boards := (v_boards v)(b := (v_boards v b)(u \<mapsto> best_score sc (v_boards v b u)))\<rparr>"

text \<open>The first \<open>n\<close> rows of a board: highest scores first, nobody left out who scores higher.\<close>

definition is_top_n :: "(string \<Rightarrow> int64 option) \<Rightarrow> int \<Rightarrow> rank list \<Rightarrow> bool" where
  "is_top_n b n rows \<longleftrightarrow>
     sorted_wrt (\<lambda>r r'. sint (r_score r') \<le> sint (r_score r)) rows \<and>
     distinct (map r_uid rows) \<and>
     (\<forall>r \<in> set rows. b (r_uid r) = Some (r_score r)) \<and>
     length rows = min (nat n) (card (dom b)) \<and>
     (\<forall>u sc. b u = Some sc \<longrightarrow>
        u \<in> r_uid ` set rows \<or> (\<forall>r \<in> set rows. sint sc \<le> sint (r_score r)))"

text \<open>It is enough to sort all rows of the board.\<close>

lemma is_top_n_take:
  assumes sorted: "sorted_wrt (\<lambda>r r'. sint (r_score r') \<le> sint (r_score r)) rows"
    and uids: "distinct (map r_uid rows)"
    and rows: "\<And>u sc. b u = Some sc \<longleftrightarrow> Rank u sc \<in> set rows"
    and "0 < n"
  shows "is_top_n b n (take (nat n) rows)"
proof -
  have "dom b = r_uid ` set rows"
  proof (intro set_eqI iffI)
    fix u assume "u \<in> r_uid ` set rows"
    then obtain r where "r \<in> set rows" "u = r_uid r" by blast
    then show "u \<in> dom b" using rows [of u "r_score r"] by (cases r) auto
  qed (force simp: dom_def rows)
  then have card: "card (dom b) = length rows"
    using distinct_card [OF uids] by simp
  have "r_uid r \<in> r_uid ` set (take (nat n) rows) \<or>
      (\<forall>r' \<in> set (take (nat n) rows). sint (r_score r) \<le> sint (r_score r'))" if "r \<in> set rows" for r
    using that sorted_take_drop [OF sorted, of _ "nat n" r]
    by (metis append_take_drop_id Un_iff image_eqI set_append)
  then have "u \<in> r_uid ` set (take (nat n) rows) \<or>
      (\<forall>r \<in> set (take (nat n) rows). sint sc \<le> sint (r_score r))" if "b u = Some sc" for u sc
    using that rows [of u sc] by fastforce
  moreover have "b (r_uid r) = Some (r_score r)" if "r \<in> set (take (nat n) rows)" for r
    using in_set_takeD [OF that] by (simp add: rows)
  moreover have "distinct (map r_uid (take (nat n) rows))"
    using uids by (simp add: take_map [symmetric])
  ultimately show ?thesis
    using take_sorted_wrt [OF sorted, of "nat n"] by (auto simp: is_top_n_def card)
qed

section \<open>The contract\<close>

definition read_op :: "('s \<Rightarrow> store_view) \<Rightarrow> ('s \<Rightarrow> bool) \<Rightarrow> ('s \<Rightarrow> 'a res \<times> 's) \<Rightarrow> bool" where
  "read_op view ok f \<longleftrightarrow> (\<forall>s. ok s \<longrightarrow> ok (snd (f s)) \<and> view (snd (f s)) = view s)"

definition write_op ::
  "('s \<Rightarrow> store_view) \<Rightarrow> ('s \<Rightarrow> bool) \<Rightarrow> (store_view \<Rightarrow> store_view) \<Rightarrow> ('s \<Rightarrow> 'a res \<times> 's) \<Rightarrow> bool"
where
  "write_op view ok g f \<longleftrightarrow>
     (\<forall>s. ok s \<longrightarrow> ok (snd (f s)) \<and>
        (case fst (f s) of
           Inr _ \<Rightarrow> view (snd (f s)) = g (view s)
         | Inl _ \<Rightarrow> view (snd (f s)) = view s \<or> view (snd (f s)) = g (view s)))"

definition lookup_op ::
  "('s \<Rightarrow> store_view) \<Rightarrow> ('s \<Rightarrow> bool) \<Rightarrow> (store_view \<Rightarrow> 'a option) \<Rightarrow> ('s \<Rightarrow> 'a res \<times> 's) \<Rightarrow> bool"
where
  "lookup_op view ok look f \<longleftrightarrow>
     read_op view ok f \<and>
     (\<forall>s. ok s \<longrightarrow>
        (case fst (f s) of
           Inr x \<Rightarrow> look (view s) = Some x
         | Inl e \<Rightarrow> errors_is e ErrNotFound \<longrightarrow> look (view s) = None))"

lemma read_opD:
  "read_op view ok f \<Longrightarrow> ok s \<Longrightarrow> ok (snd (f s))"
  "read_op view ok f \<Longrightarrow> ok s \<Longrightarrow> view (snd (f s)) = view s"
  by (auto simp: read_op_def)

lemma write_opD:
  assumes "write_op view ok g f" and "ok s"
  shows "ok (snd (f s))"
    and "view (snd (f s)) = view s \<or> view (snd (f s)) = g (view s)"
    and "fst (f s) = Inr x \<Longrightarrow> view (snd (f s)) = g (view s)"
  using assms by (cases "fst (f s)"; fastforce simp: write_op_def)+

lemma lookup_opD:
  "lookup_op view ok look f \<Longrightarrow> ok s \<Longrightarrow> ok (snd (f s))"
  "lookup_op view ok look f \<Longrightarrow> ok s \<Longrightarrow> view (snd (f s)) = view s"
  "lookup_op view ok look f \<Longrightarrow> ok s \<Longrightarrow> fst (f s) = Inr x \<Longrightarrow> look (view s) = Some x"
  "lookup_op view ok look f \<Longrightarrow> ok s \<Longrightarrow> fst (f s) = Inl e \<Longrightarrow> errors_is e ErrNotFound
     \<Longrightarrow> look (view s) = None"
  by (auto simp: lookup_op_def read_op_def)

text \<open>
  An attempt is only promised to be found again when its date is ten bytes long, as every
  date that passed the server's validation is: a backend may build one key out of user and date.
  A backend may keep instants with less precision than the caller has: it stores \<open>tm t\<close> for \<open>t\<close>.
\<close>

definition timed_attempt :: "(gotime \<Rightarrow> gotime) \<Rightarrow> attempt \<Rightarrow> attempt" where
  "timed_attempt tm a = a\<lparr>a_completed := tm (a_completed a)\<rparr>"

definition timed_match :: "(gotime \<Rightarrow> gotime) \<Rightarrow> game_match \<Rightarrow> game_match" where
  "timed_match tm m = m\<lparr>m_created := tm (m_created m), m_ended := tm (m_ended m)\<rparr>"

lemma timed_simps [simp]:
  "a_uid (timed_attempt tm a) = a_uid a" "a_date (timed_attempt tm a) = a_date a"
  "a_guesses (timed_attempt tm a) = a_guesses a" "a_won (timed_attempt tm a) = a_won a"
  "a_score (timed_attempt tm a) = a_score a" "timed_attempt (\<lambda>t. t) a = a"
  "m_id (timed_match tm m) = m_id m" "m_players (timed_match tm m) = m_players m"
  "timed_match (\<lambda>t. t) m = m"
  by (simp_all add: timed_attempt_def timed_match_def)

locale store_laws =
  fixes ops :: "'s store_ops"
    and view :: "'s \<Rightarrow> store_view"
    and ok :: "'s \<Rightarrow> bool"
    and tm :: "gotime \<Rightarrow> gotime"
  assumes auth_law: "write_op view ok (view_auth (tm now) c) (st_UpsertUserOnFirstAuth ops now c)"
    and user_law: "lookup_op view ok (\<lambda>v. v_users v u) (st_GetUser ops u)"
    and puzzle_law: "lookup_op view ok (\<lambda>v. v_puzzles v d) (st_GetPuzzle ops d)"
    and put_puzzle_law: "write_op view ok (view_put_puzzle p) (st_PutPuzzle ops p)"
    and attempt_law:
      "length d = 10 \<Longrightarrow> lookup_op view ok (\<lambda>v. v_attempts v u d) (st_GetAttempt ops u d)"
    and put_attempt_law:
      "length (a_date a) = 10 \<Longrightarrow> write_op view ok (view_put_attempt (timed_attempt tm a)) (st_UpsertAttempt ops a)"
    and match_law: "lookup_op view ok (\<lambda>v. v_matches v i) (st_GetMatch ops i)"
    and put_match_law: "write_op view ok (view_put_match (timed_match tm m)) (st_UpsertMatch ops m)"
    and submit_law: "write_op view ok (view_submit b u sc) (st_SubmitScore ops b u sc)"
    and top_read: "read_op view ok (st_TopN ops b n)"
    and top_law:
      "ok s \<Longrightarrow> 0 < n \<Longrightarrow> fst (st_TopN ops b n s) = Inr rows \<Longrightarrow> is_top_n (v_boards (view s) b) n rows"
    and ping_law: "read_op view ok (st_Ping ops)"
begin

lemmas ok_ops =
  write_opD(1) [OF auth_law] lookup_opD(1) [OF user_law] lookup_opD(1) [OF puzzle_law]
  write_opD(1) [OF put_puzzle_law] lookup_opD(1) [OF attempt_law] write_opD(1) [OF put_attempt_law]
  lookup_opD(1) [OF match_law] write_opD(1) [OF put_match_law] write_opD(1) [OF submit_law]
  read_opD(1) [OF top_read] read_opD(1) [OF ping_law]

lemmas view_reads =
  lookup_opD(2) [OF user_law] lookup_opD(2) [OF puzzle_law] lookup_opD(2) [OF attempt_law]
  lookup_opD(2) [OF match_law] read_opD(2) [OF top_read] read_opD(2) [OF ping_law]

end

text \<open>
  A backend that keeps instants exactly, fails only with \<open>ErrNotFound\<close> while it is open, and
  always once it is closed.
\<close>

locale store_strict = store_laws ops view ok "\<lambda>t. t"
  for ops :: "'s store_ops" and view and ok +
  fixes opened :: "'s \<Rightarrow> bool"
  assumes auth_opened: "opened s \<Longrightarrow> \<exists>x. fst (st_UpsertUserOnFirstAuth ops now c s) = Inr x"
    and puzzle_opened: "opened s \<Longrightarrow> fst (st_GetPuzzle ops d s) =
          (case v_puzzles (view s) d of Some p \<Rightarrow> Inr p | None \<Rightarrow> Inl ErrNotFound)"
    and attempt_opened: "opened s \<Longrightarrow> length d = 10 \<Longrightarrow> fst (st_GetAttempt ops u d s) =
          (case v_attempts (view s) u d of Some a \<Rightarrow> Inr a | None \<Rightarrow> Inl ErrNotFound)"
    and match_opened: "opened s \<Longrightarrow> fst (st_GetMatch ops i s) =
          (case v_matches (view s) i of Some m \<Rightarrow> Inr m | None \<Rightarrow> Inl ErrNotFound)"
    and put_attempt_opened: "opened s \<Longrightarrow> fst (st_UpsertAttempt ops a s) = Inr ()"
    and put_match_opened: "opened s \<Longrightarrow> fst (st_UpsertMatch ops m s) = Inr ()"
    and submit_opened: "opened s \<Longrightarrow> fst (st_SubmitScore ops b u sc s) = Inr ()"
    and top_opened: "opened s \<Longrightarrow> \<exists>rows. fst (st_TopN ops b n s) = Inr rows"
    and stays_opened:
      "opened (snd (st_UpsertUserOnFirstAuth ops now c s)) = opened s"
      "opened (snd (st_GetPuzzle ops d s)) = opened s"
      "opened (snd (st_GetAttempt ops u d s)) = opened s"
      "opened (snd (st_UpsertAttempt ops a s)) = opened s"
      "opened (snd (st_GetMatch ops i s)) = opened s"
      "opened (snd (st_UpsertMatch ops m s)) = opened s"
      "opened (snd (st_SubmitScore ops b u sc s)) = opened s"
      "opened (snd (st_TopN ops b n s)) = opened s"
      "opened (snd (st_Ping ops s)) = opened s"
      "opened (snd (st_GetUser ops u s)) = opened s"
      "opened (snd (st_PutPuzzle ops p s)) = opened s"
begin


lemma submit_view:
  "ok s \<Longrightarrow> opened s \<Longrightarrow> view (snd (st_SubmitScore ops b u sc s)) = view_submit b u sc (view s)"
  by (rule write_opD(3) [OF submit_law]) (simp_all add: submit_opened)

lemma put_attempt_view:
  "ok s \<Longrightarrow> opened s \<Longrightarrow> length (a_date a) = 10
     \<Longrightarrow> view (snd (st_UpsertAttempt ops a s)) = view_put_attempt a (view s)"
  using write_opD(3) [OF put_attempt_law] by (simp add: put_attempt_opened)

lemma put_match_view:
  "ok s \<Longrightarrow> opened s \<Longrightarrow> view (snd (st_UpsertMatch ops m s)) = view_put_match m (view s)"
  using write_opD(3) [OF put_match_law] by (simp add: put_match_opened)

end

text \<open>
  The open states of such a backend keep the laws too: this is the contract with the invariant
  "well-formed and open".
\<close>

lemma write_op_conj:
  "write_op view ok g f \<Longrightarrow> (\<And>s. opened (snd (f s)) = opened s) \<Longrightarrow> write_op view (\<lambda>s. ok s \<and> opened s) g f"
  by (simp add: write_op_def)

lemma lookup_op_conj:
  "lookup_op view ok l f \<Longrightarrow> (\<And>s. opened (snd (f s)) = opened s) \<Longrightarrow> lookup_op view (\<lambda>s. ok s \<and> opened s) l f"
  by (simp add: lookup_op_def read_op_def)

lemma read_op_conj:
  "read_op view ok f \<Longrightarrow> (\<And>s. opened (snd (f s)) = opened s) \<Longrightarrow> read_op view (\<lambda>s. ok s \<and> opened s) f"
  by (simp add: read_op_def)

sublocale store_strict \<subseteq> live: store_laws ops view "\<lambda>s. ok s \<and> opened s" "\<lambda>t. t"
  by unfold_locales
    (auto intro!: write_op_conj lookup_op_conj read_op_conj auth_law user_law puzzle_law put_puzzle_law
      attempt_law put_attempt_law [simplified] match_law put_match_law [simplified] submit_law top_read ping_law
      simp: stays_opened top_law)

text \<open>How the intended effects show in a view.\<close>

lemma best_score_ge: "sint new \<le> sint (best_score new old)"
  by (auto simp: best_score_def split: option.split)

lemma best_score_old: "old = Some cur \<Longrightarrow> sint cur \<le> sint (best_score new old)"
  by (auto simp: best_score_def)

lemma view_submit_simps [simp]:
  "v_users (view_submit b u sc v) = v_users v"
  "v_puzzles (view_submit b u sc v) = v_puzzles v"
  "v_attempts (view_submit b u sc v) = v_attempts v"
  "v_matches (view_submit b u sc v) = v_matches v"
  "v_boards (view_submit b u sc v) b' u' =
     (if b' = b \<and> u' = u then Some (best_score sc (v_boards v b u)) else v_boards v b' u')"
  by (simp_all add: view_submit_def)

lemma view_put_attempt_simps [simp]:
  "v_users (view_put_attempt a v) = v_users v"
  "v_puzzles (view_put_attempt a v) = v_puzzles v"
  "v_matches (view_put_attempt a v) = v_matches v"
  "v_boards (view_put_attempt a v) = v_boards v"
  "v_attempts (view_put_attempt a v) u d =
     (if u = a_uid a \<and> d = a_date a then Some a else v_attempts v u d)"
  by (simp_all add: view_put_attempt_def)

lemma view_put_match_simps [simp]:
  "v_users (view_put_match m v) = v_users v"
  "v_puzzles (view_put_match m v) = v_puzzles v"
  "v_attempts (view_put_match m v) = v_attempts v"
  "v_boards (view_put_match m v) = v_boards v"
  "v_matches (view_put_match m v) i = (if i = m_id m then Some m else v_matches v i)"
  by (simp_all add: view_put_match_def)

lemma view_auth_simps [simp]:
  "v_puzzles (view_auth now c v) = v_puzzles v"
  "v_attempts (view_auth now c v) = v_attempts v"
  "v_matches (view_auth now c v) = v_matches v"
  "v_boards (view_auth now c v) = v_boards v"
  by (simp_all add: view_auth_def)

end
