(* ===== verification/Mongo_Driver.thy ===== *)
theory Mongo_Driver
  imports Store_Types
begin

text \<open>
  The MongoDB driver (\<open>go.mongodb.org/mongo-driver/v2\<close>) as the package \<open>mongodb\<close> uses it. The
  driver is not part of the repository: the record \<open>driver\<close> holds one function per call the code
  makes, over a state \<open>'d\<close> of the database, and \<open>bson_codec\<close> holds the marshalling of structs.

  The locale \<open>mongo_driver\<close> states the documented behaviour the code relies on:

  \<^item> a single-document operation is atomic; \<open>UpdateOne\<close>, \<open>FindOneAndUpdate\<close> and \<open>ReplaceOne\<close> change one
    matching document or, as an upsert, insert one when none matches; after an error the write
    may or may not have been applied;
  \<^item> the meaning of the queries and update operators that the code uses;
  \<^item> BSON dates have millisecond precision;
  \<^item> structs are read and written by the names in their \<open>bson\<close> tags; a field with
    \<open>omitempty\<close> may be missing when it has its zero value (for \<open>time.Time\<close> too);
  \<^item> documents of the collections with a TTL index may disappear at any time, no others do;
  \<^item> the driver's errors are its own: none of them is \<open>store.ErrNotFound\<close> or \<open>store.ErrClosed\<close>.

  BSON's two integer widths are not distinguished: they compare by value and are read into
  either Go type. The range of dates (292 million years) is not modelled.
\<close>

section \<open>BSON\<close>

datatype bson =
    BNull
  | BBool bool
  | BInt int64
  | BStr string
  | BTime gotime
  | BBin bytes
  | BArr "bson list"
  | BDoc "(string \<times> bson) list"

type_synonym doc = "(string \<times> bson) list"

section \<open>The calls\<close>

record find_opts =
  fo_sort :: doc
  fo_limit :: int
  fo_projection :: doc

record index_model =
  ix_keys :: doc
  ix_unique :: bool
  ix_ttl :: "int option"
  ix_name :: string

record 'd driver =
  dr_ErrNoDocuments :: go_error
  dr_FindOne :: "string \<Rightarrow> doc \<Rightarrow> 'd \<Rightarrow> doc res \<times> 'd"
  dr_FindOneAndUpdate :: "string \<Rightarrow> doc \<Rightarrow> doc \<Rightarrow> 'd \<Rightarrow> doc res \<times> 'd"
  dr_UpdateOne :: "string \<Rightarrow> doc \<Rightarrow> doc \<Rightarrow> bool \<Rightarrow> 'd \<Rightarrow> int64 res \<times> 'd"
  dr_ReplaceOne :: "string \<Rightarrow> doc \<Rightarrow> doc \<Rightarrow> bool \<Rightarrow> 'd \<Rightarrow> unit res \<times> 'd"
  dr_CountDocuments :: "string \<Rightarrow> doc \<Rightarrow> 'd \<Rightarrow> int64 res \<times> 'd"
  dr_Find :: "string \<Rightarrow> doc \<Rightarrow> find_opts \<Rightarrow> 'd \<Rightarrow> (doc list \<times> go_error option \<times> go_error option) res \<times> 'd"
  dr_CreateOne :: "string \<Rightarrow> index_model \<Rightarrow> 'd \<Rightarrow> unit res \<times> 'd"
  dr_Ping :: "'d \<Rightarrow> unit res \<times> 'd"
  dr_Disconnect :: "'d \<Rightarrow> unit res \<times> 'd"

text \<open>
  \<open>dr_FindOneAndUpdate\<close> has the options the code sets: upsert, and the document after the update
  is returned. \<open>dr_UpdateOne\<close> returns \<open>MatchedCount\<close>; the flags are the upsert options.
  \<open>dr_Find\<close> returns what the cursor delivers: the documents, the error that ended it (\<open>cur.Err\<close>)
  and the error of closing it (\<open>cur.Close\<close>).
\<close>

record bson_codec =
  bs_puzzle :: "puzzle \<Rightarrow> doc"
  bs_attempt :: "attempt \<Rightarrow> doc"
  bs_match :: "game_match \<Rightarrow> doc"
  of_user :: "doc \<Rightarrow> user res"
  of_puzzle :: "doc \<Rightarrow> puzzle res"
  of_attempt :: "doc \<Rightarrow> attempt res"
  of_match :: "doc \<Rightarrow> game_match res"
  of_rank :: "doc \<Rightarrow> rank res"
  of_cache :: "doc \<Rightarrow> bytes res"

section \<open>The structs as documents\<close>

text \<open>What the tags of each struct prescribe: the document \<open>d\<close> has these fields for the value.\<close>

definition has_str :: "doc \<Rightarrow> string \<Rightarrow> string \<Rightarrow> bool" where
  "has_str d k s \<longleftrightarrow> gm_get d k = Some (BStr s)"

definition may_str :: "doc \<Rightarrow> string \<Rightarrow> string \<Rightarrow> bool" where
  "may_str d k s \<longleftrightarrow> gm_get d k = Some (BStr s) \<or> s = [] \<and> gm_get d k = None"

definition has_time :: "doc \<Rightarrow> string \<Rightarrow> gotime \<Rightarrow> bool" where
  "has_time d k t \<longleftrightarrow> gm_get d k = Some (BTime t)"

definition may_time :: "doc \<Rightarrow> string \<Rightarrow> gotime \<Rightarrow> bool" where
  "may_time d k t \<longleftrightarrow> gm_get d k = Some (BTime t) \<or> t = 0 \<and> gm_get d k = None"

text \<open>A nil slice is marshalled as null, an empty one as an empty array.\<close>

definition has_strs :: "doc \<Rightarrow> string \<Rightarrow> string list \<Rightarrow> bool" where
  "has_strs d k xs \<longleftrightarrow> gm_get d k = Some (BArr (map BStr xs)) \<or> xs = [] \<and> gm_get d k = Some BNull"

definition user_doc :: "doc \<Rightarrow> user \<Rightarrow> bool" where
  "user_doc d u \<longleftrightarrow>
     has_str d ''uid'' (u_uid u) \<and> may_str d ''email'' (u_email u) \<and> may_str d ''displayName'' (u_name u) \<and>
     has_str d ''provider'' (u_provider u) \<and> gm_get d ''isBetaTester'' = Some (BBool (u_beta u)) \<and>
     has_time d ''betaSignupAt'' (u_beta_at u) \<and> has_time d ''createdAt'' (u_created u) \<and>
     has_time d ''lastSeen'' (u_last_seen u)"

definition puzzle_doc :: "doc \<Rightarrow> puzzle \<Rightarrow> bool" where
  "puzzle_doc d p \<longleftrightarrow>
     has_str d ''_id'' (p_date p) \<and> has_str d ''word'' (p_word p) \<and> may_str d ''hint'' (p_hint p) \<and>
     gm_get d ''difficulty'' = Some (BInt (p_difficulty p))"

definition attempt_doc :: "doc \<Rightarrow> attempt \<Rightarrow> bool" where
  "attempt_doc d a \<longleftrightarrow>
     has_str d ''uid'' (a_uid a) \<and> has_str d ''puzzleDate'' (a_date a) \<and>
     has_strs d ''guesses'' (a_guesses a) \<and>
     gm_get d ''won'' = Some (BBool (a_won a)) \<and> gm_get d ''score'' = Some (BInt (a_score a)) \<and>
     may_time d ''completedAt'' (a_completed a) \<and> gm_get d ''inProgress'' = Some (BBool (a_in_progress a))"

definition match_doc :: "doc \<Rightarrow> game_match \<Rightarrow> bool" where
  "match_doc d m \<longleftrightarrow>
     has_str d ''_id'' (m_id m) \<and> has_strs d ''players'' (m_players m) \<and>
     has_str d ''mode'' (m_mode m) \<and> has_str d ''puzzleDate'' (m_date m) \<and> has_str d ''state'' (m_state m) \<and>
     gm_get d ''turns'' = Some (BInt (m_turns m)) \<and> may_str d ''winner'' (m_winner m) \<and>
     has_time d ''createdAt'' (m_created m) \<and> may_time d ''endedAt'' (m_ended m)"

definition rank_doc :: "doc \<Rightarrow> rank \<Rightarrow> bool" where
  "rank_doc d r \<longleftrightarrow> has_str d ''uid'' (r_uid r) \<and> gm_get d ''score'' = Some (BInt (r_score r))"

lemmas struct_docs = user_doc_def puzzle_doc_def attempt_doc_def match_doc_def rank_doc_def

section \<open>The documented meaning of queries and updates\<close>

text \<open>Instants are marshalled to milliseconds.\<close>

definition floor_ms :: "gotime \<Rightarrow> gotime" where
  "floor_ms t = t div 1000000 * 1000000"

primrec marsh :: "bson \<Rightarrow> bson" where
  "marsh BNull = BNull"
| "marsh (BBool b) = BBool b"
| "marsh (BInt n) = BInt n"
| "marsh (BStr s) = BStr s"
| "marsh (BTime t) = BTime (floor_ms t)"
| "marsh (BBin bs) = BBin bs"
| "marsh (BArr xs) = BArr (map marsh xs)"
| "marsh (BDoc kvs) = BDoc (map (map_prod id marsh) kvs)"

definition marsh_doc :: "doc \<Rightarrow> doc" where
  "marsh_doc d = map (map_prod id marsh) d"

text \<open>A condition on one field: equality (for an array, containment), \<open>$gt\<close> on dates, \<open>$exists\<close>.\<close>

fun cond_holds :: "bson \<Rightarrow> bson option \<Rightarrow> bool" where
  "cond_holds (BDoc [(op, arg)]) x =
     (if op = ''$gt'' then (case (arg, x) of (BTime t, Some (BTime t')) \<Rightarrow> t < t' | _ \<Rightarrow> False)
      else if op = ''$exists'' then arg = BBool (x \<noteq> None)
      else x = Some (BDoc [(op, arg)]))"
| "cond_holds v x = (x = Some v \<or> (case x of Some (BArr vs) \<Rightarrow> v \<in> set vs | _ \<Rightarrow> False))"

definition field_holds :: "doc \<Rightarrow> string \<times> bson \<Rightarrow> bool" where
  "field_holds d kv = cond_holds (snd kv) (gm_get d (fst kv))"

definition matches :: "doc \<Rightarrow> doc \<Rightarrow> bool" where
  "matches f d \<longleftrightarrow>
     (\<forall>kv \<in> set f.
        if fst kv = ''$or'' then
          (case snd kv of
             BArr alts \<Rightarrow> \<exists>alt \<in> set alts. (case alt of BDoc g \<Rightarrow> list_all (field_holds d) g | _ \<Rightarrow> False)
           | _ \<Rightarrow> False)
        else field_holds d kv)"

fun max_field :: "string \<times> bson \<Rightarrow> doc \<Rightarrow> doc" where
  "max_field (k, v) d =
     (case (gm_get d k, v) of
        (Some (BInt cur), BInt new) \<Rightarrow> if sint cur < sint new then gm_put k v d else d
      | (None, _) \<Rightarrow> gm_put k v d
      | _ \<Rightarrow> d)"

fun apply_op :: "bool \<Rightarrow> string \<times> bson \<Rightarrow> doc \<Rightarrow> doc" where
  "apply_op ins (op, BDoc kvs) d =
     (if op = ''$set'' \<or> op = ''$setOnInsert'' \<and> ins then fold (\<lambda>(k, v). gm_put k v) kvs d
      else if op = ''$unset'' then fold (\<lambda>(k, v). gm_del k) kvs d
      else if op = ''$max'' then fold max_field kvs d
      else d)"
| "apply_op ins (op, _) d = d"

definition apply_update :: "bool \<Rightarrow> doc \<Rightarrow> doc \<Rightarrow> doc" where
  "apply_update ins u d = fold (apply_op ins) u d"

text \<open>An upsert starts from the equality conditions of the filter; an \<open>_id\<close> is made up if need be.\<close>

definition seed :: "doc \<Rightarrow> doc" where
  "seed f = filter (\<lambda>(k, v). k \<noteq> ''$or'' \<and> (case v of BDoc _ \<Rightarrow> False | _ \<Rightarrow> True)) f"

definition insert_doc :: "bson \<Rightarrow> doc \<Rightarrow> doc" where
  "insert_doc i d = (if gm_get d ''_id'' = None then gm_put ''_id'' i d else d)"

definition updates :: "doc \<Rightarrow> doc \<Rightarrow> bool \<Rightarrow> doc list \<Rightarrow> nat \<Rightarrow> doc \<Rightarrow> doc list \<Rightarrow> bool" where
  "updates f u ups ds n d ds' \<longleftrightarrow>
     (\<exists>xs old ys. ds = xs @ old # ys \<and> matches f old \<and> n = 1
        \<and> d = apply_update False u old \<and> ds' = xs @ d # ys) \<or>
     (\<forall>x \<in> set ds. \<not> matches f x) \<and> n = 0 \<and>
       (if ups then (\<exists>i. d = insert_doc i (apply_update True u (seed f))) \<and> ds' = ds @ [d]
        else ds' = ds)"

definition replacement :: "doc \<Rightarrow> doc \<Rightarrow> doc" where
  "replacement old new =
     (case gm_get old ''_id'' of
        None \<Rightarrow> new
      | Some i \<Rightarrow> if gm_get new ''_id'' = None then gm_put ''_id'' i new else new)"

definition replaces :: "doc \<Rightarrow> doc \<Rightarrow> bool \<Rightarrow> doc list \<Rightarrow> doc list \<Rightarrow> bool" where
  "replaces f new ups ds ds' \<longleftrightarrow>
     (\<exists>xs old ys. ds = xs @ old # ys \<and> matches f old \<and> ds' = xs @ replacement old new # ys) \<or>
     (\<forall>x \<in> set ds. \<not> matches f x) \<and>
       (if ups then \<exists>i. ds' = ds @ [insert_doc i (replacement (seed f) new)] else ds' = ds)"

text \<open>
  Sorting by one field, descending, of documents that all have it as a number or as a date; a
  limit of 0 is none; an empty projection keeps all fields.
\<close>

fun sort_value :: "bson option \<Rightarrow> int" where
  "sort_value (Some (BInt n)) = sint n"
| "sort_value (Some (BTime t)) = t"
| "sort_value _ = 0"

definition same_typed :: "string \<Rightarrow> doc list \<Rightarrow> bool" where
  "same_typed k ds \<longleftrightarrow>
     (\<forall>d \<in> set ds. \<exists>n. gm_get d k = Some (BInt n)) \<or> (\<forall>d \<in> set ds. \<exists>t. gm_get d k = Some (BTime t))"

definition sorted_docs :: "doc \<Rightarrow> doc list \<Rightarrow> bool" where
  "sorted_docs srt ds \<longleftrightarrow>
     (\<forall>k. srt = [(k, BInt (-1))] \<longrightarrow> same_typed k ds \<longrightarrow>
        sorted_wrt (\<lambda>d d'. sort_value (gm_get d' k) \<le> sort_value (gm_get d k)) ds)"

definition project :: "doc \<Rightarrow> doc \<Rightarrow> doc" where
  "project p d = (if p = [] then d else filter (\<lambda>(k, v). gm_get p k = Some (BInt 1)) d)"

definition find_result :: "doc \<Rightarrow> find_opts \<Rightarrow> doc list \<Rightarrow> doc list \<Rightarrow> bool" where
  "find_result f opts ds out \<longleftrightarrow>
     (\<exists>found. mset found = mset (filter (matches f) ds) \<and> sorted_docs (fo_sort opts) found \<and>
        out = map (project (fo_projection opts))
                (if fo_limit opts = 0 then found else take (nat (fo_limit opts)) found))"

section \<open>The documented behaviour of the driver\<close>

definition ttl_collections :: "string set" where
  "ttl_collections = {''presence'', ''cache''}"

text \<open>What may become of the documents of a collection while nobody writes to it.\<close>

definition settles :: "string \<Rightarrow> doc list \<Rightarrow> doc list \<Rightarrow> bool" where
  "settles c ds ds' \<longleftrightarrow> (if c \<in> ttl_collections then set ds' \<subseteq> set ds else ds' = ds)"

definition quiet :: "('d \<Rightarrow> string \<Rightarrow> doc list) \<Rightarrow> 'd \<Rightarrow> 'd \<Rightarrow> bool" where
  "quiet docs s s' \<longleftrightarrow> (\<forall>c. settles c (docs s c) (docs s' c))"

definition writes :: "('d \<Rightarrow> string \<Rightarrow> doc list) \<Rightarrow> string \<Rightarrow> (doc list \<Rightarrow> bool) \<Rightarrow> 'd \<Rightarrow> 'd \<Rightarrow> bool" where
  "writes docs c P s s' \<longleftrightarrow>
     (\<exists>ds'. P ds' \<and> settles c ds' (docs s' c)) \<and> (\<forall>c'. c' \<noteq> c \<longrightarrow> settles c' (docs s c') (docs s' c'))"

definition driver_error :: "go_error \<Rightarrow> bool" where
  "driver_error e \<longleftrightarrow> \<not> errors_is e ErrNotFound \<and> \<not> errors_is e ErrClosed"

locale mongo_driver =
  fixes dr :: "'d driver" and bc :: bson_codec and docs :: "'d \<Rightarrow> string \<Rightarrow> doc list"
  assumes find_one_law: "dr_FindOne dr c f s = (r, s') \<Longrightarrow>
        quiet docs s s' \<and>
        (case r of
           Inr d \<Rightarrow> d \<in> set (docs s c) \<and> matches (marsh_doc f) d
         | Inl e \<Rightarrow> driver_error e \<and>
             (errors_is e (dr_ErrNoDocuments dr) \<longrightarrow> (\<forall>d \<in> set (docs s' c). \<not> matches (marsh_doc f) d)))"
    and find_update_law: "dr_FindOneAndUpdate dr c f upd s = (ru, s') \<Longrightarrow>
        (case ru of
           Inr d \<Rightarrow> writes docs c (\<lambda>ds. \<exists>n. updates (marsh_doc f) (marsh_doc upd) True (docs s c) n d ds) s s'
         | Inl e \<Rightarrow> driver_error e \<and>
             (quiet docs s s' \<or>
              writes docs c (\<lambda>ds. \<exists>n d. updates (marsh_doc f) (marsh_doc upd) True (docs s c) n d ds) s s'))"
    and update_law: "dr_UpdateOne dr c f upd ups s = (rn, s') \<Longrightarrow>
        (case rn of
           Inr n \<Rightarrow> writes docs c (\<lambda>ds. \<exists>d. updates (marsh_doc f) (marsh_doc upd) ups (docs s c) (unat n) d ds) s s'
         | Inl e \<Rightarrow> driver_error e \<and>
             (quiet docs s s' \<or>
              writes docs c (\<lambda>ds. \<exists>n d. updates (marsh_doc f) (marsh_doc upd) ups (docs s c) n d ds) s s'))"
    and replace_law: "dr_ReplaceOne dr c f new ups s = (rr, s') \<Longrightarrow>
        (case rr of
           Inr _ \<Rightarrow> writes docs c (replaces (marsh_doc f) new ups (docs s c)) s s'
         | Inl e \<Rightarrow> driver_error e \<and>
             (quiet docs s s' \<or> writes docs c (replaces (marsh_doc f) new ups (docs s c)) s s'))"
    and count_law: "dr_CountDocuments dr c f s = (rc, s') \<Longrightarrow>
        quiet docs s s' \<and>
        (case rc of
           Inr n \<Rightarrow> \<exists>ds. settles c (docs s c) ds \<and> settles c ds (docs s' c)
                      \<and> sint n = int (length (filter (matches (marsh_doc f)) ds))
         | Inl e \<Rightarrow> driver_error e)"
    and find_law: "dr_Find dr c f opts s = (rf, s') \<Longrightarrow>
        quiet docs s s' \<and>
        (case rf of
           Inr (out, None, _) \<Rightarrow> \<exists>ds. settles c (docs s c) ds \<and> find_result (marsh_doc f) opts ds out
         | Inr (out, Some e, _) \<Rightarrow> driver_error e
         | Inl e \<Rightarrow> driver_error e)"
    and ping_law: "dr_Ping dr s = (rp, s') \<Longrightarrow> quiet docs s s'"
    and create_law: "dr_CreateOne dr c ix s = (rp, s') \<Longrightarrow> quiet docs s s'"
    and disconnect_law: "dr_Disconnect dr s = (rp, s') \<Longrightarrow> quiet docs s s'"
    and puzzle_enc: "puzzle_doc (bs_puzzle bc p) p"
    and attempt_enc: "attempt_doc (bs_attempt bc a) (timed_attempt floor_ms a)"
    and match_enc: "match_doc (bs_match bc m) (timed_match floor_ms m)"
    and user_dec: "user_doc d u \<Longrightarrow> of_user bc d = Inr u"
    and puzzle_dec: "puzzle_doc d p \<Longrightarrow> of_puzzle bc d = Inr p"
    and attempt_dec: "attempt_doc d a \<Longrightarrow> of_attempt bc d = Inr a"
    and match_dec: "match_doc d m \<Longrightarrow> of_match bc d = Inr m"
    and rank_dec: "rank_doc d rk \<Longrightarrow> of_rank bc d = Inr rk"
    and cache_dec: "gm_get d ''val'' = Some (BBin v)
        \<Longrightarrow> gm_get d ''expireAt'' = None \<or> (\<exists>t. gm_get d ''expireAt'' = Some (BTime t))
        \<Longrightarrow> of_cache bc d = Inr v"

end
