(* ===== verification/Mongo_Store.thy ===== *)
theory Mongo_Store
  imports Mongo_Driver
begin

text \<open>
  The MongoDB store (package \<open>mongodb\<close>, \<open>server/internal/store/mongodb/*.go\<close>), one definition
  per method of \<open>*Client\<close>, over the driver and the marshalling of structs as arguments.

  A \<open>*Client\<close> is its two driver handles, which \<open>Close\<close> sets to nil together, and the state of the
  database behind them. A method that reads the clock takes the reading as its first argument.
  Deadlines (\<open>withTimeout\<close>) are not part of the model: an expired one is an error of the driver.
\<close>

section \<open>Collections and indexes\<close>

definition collUsers :: string where "collUsers = ''users''"
definition collPuzzles :: string where "collPuzzles = ''puzzles''"
definition collAttempts :: string where "collAttempts = ''attempts''"
definition collMatches :: string where "collMatches = ''matches''"
definition collLeaderboards :: string where "collLeaderboards = ''leaderboards''"
definition collPresence :: string where "collPresence = ''presence''"
definition collCache :: string where "collCache = ''cache''"

lemmas coll_defs =
  collUsers_def collPuzzles_def collAttempts_def collMatches_def collLeaderboards_def collPresence_def
  collCache_def

definition mongo_indexes :: "(string \<times> index_model) list" where
  "mongo_indexes =
     [(collUsers, \<lparr>ix_keys = [(''uid'', BInt 1)], ix_unique = True, ix_ttl = None, ix_name = ''uid_unique''\<rparr>),
      (collAttempts, \<lparr>ix_keys = [(''uid'', BInt 1), (''puzzleDate'', BInt 1)], ix_unique = True, ix_ttl = None,
                      ix_name = ''uid_puzzleDate_unique''\<rparr>),
      (collMatches, \<lparr>ix_keys = [(''players'', BInt 1), (''createdAt'', BInt (-1))], ix_unique = False,
                     ix_ttl = None, ix_name = ''players_createdAt''\<rparr>),
      (collLeaderboards, \<lparr>ix_keys = [(''board'', BInt 1), (''score'', BInt (-1))], ix_unique = False,
                          ix_ttl = None, ix_name = ''board_score_desc''\<rparr>),
      (collLeaderboards, \<lparr>ix_keys = [(''board'', BInt 1), (''uid'', BInt 1)], ix_unique = True, ix_ttl = None,
                          ix_name = ''board_uid_unique''\<rparr>),
      (collPresence, \<lparr>ix_keys = [(''expireAt'', BInt 1)], ix_unique = False, ix_ttl = Some 0,
                      ix_name = ''expireAt_ttl''\<rparr>),
      (collCache, \<lparr>ix_keys = [(''expireAt'', BInt 1)], ix_unique = False, ix_ttl = Some 0,
                   ix_name = ''expireAt_ttl''\<rparr>)]"

fun create_all :: "'d driver \<Rightarrow> (string \<times> index_model) list \<Rightarrow> 'd \<Rightarrow> unit res \<times> 'd" where
  "create_all dr [] s = (Inr (), s)"
| "create_all dr ((c, m) # specs) s =
     (case dr_CreateOne dr c m s of
        (Inl err, s) \<Rightarrow> (Inl (ErrWrap ''mongodb: create index on %s'' err), s)
      | (Inr _, s) \<Rightarrow> create_all dr specs s)"

definition ensureIndexes :: "'d driver \<Rightarrow> 'd \<Rightarrow> unit res \<times> 'd" where
  "ensureIndexes dr s = create_all dr mongo_indexes s"

text \<open>The collections whose documents may disappear are those that get a TTL index here.\<close>

lemma ttl_by_index: "ttl_collections = set (map fst (filter (\<lambda>(c, m). ix_ttl m \<noteq> None) mongo_indexes))"
  by (simp add: mongo_indexes_def ttl_collections_def coll_defs)

section \<open>The client\<close>

record 'd mclient =
  mc_open :: bool
  mc_db :: 'd

text \<open>
  \<open>New\<close>: \<open>connect\<close> is \<open>mongo.Connect\<close> for the URI and the database name. The result comes with the
  driver's state that the call leaves behind, once there is a connection: on the error paths it
  disconnects, and ignores how that went.
\<close>

definition mongo_New ::
  "'d driver \<Rightarrow> (string \<Rightarrow> string \<Rightarrow> 'd res) \<Rightarrow> string \<Rightarrow> string \<Rightarrow> 'd mclient res \<times> 'd option"
where
  "mongo_New dr connect uri database =
     (if uri = [] \<or> database = [] then (Inl (ErrText ''mongodb: URI and Database are required''), None)
      else
     (case connect uri database of
        Inl err \<Rightarrow> (Inl (ErrWrap ''mongodb: connect'' err), None)
      | Inr s \<Rightarrow>
     (case dr_Ping dr s of
        (Inl err, s) \<Rightarrow> (Inl (ErrWrap ''mongodb: ping'' err), Some (snd (dr_Disconnect dr s)))
      | (Inr _, s) \<Rightarrow>
     (case ensureIndexes dr s of
        (Inl err, s) \<Rightarrow> (Inl (ErrWrap ''mongodb: ensure indexes'' err), Some (snd (dr_Disconnect dr s)))
      | (Inr _, s) \<Rightarrow> (Inr \<lparr>mc_open = True, mc_db = s\<rparr>, Some s)))))"

text \<open>A call of the driver on the client's database.\<close>

definition on_db :: "('d \<Rightarrow> 'a \<times> 'd) \<Rightarrow> 'd mclient \<Rightarrow> 'a \<times> 'd mclient" where
  "on_db f c = (case f (mc_db c) of (x, s) \<Rightarrow> (x, c\<lparr>mc_db := s\<rparr>))"

definition mongo_Ping :: "'d driver \<Rightarrow> 'd mclient \<Rightarrow> unit res \<times> 'd mclient" where
  "mongo_Ping dr c = (if \<not> mc_open c then (Inl ErrClosed, c) else on_db (dr_Ping dr) c)"

definition mongo_Close :: "'d driver \<Rightarrow> 'd mclient \<Rightarrow> unit res \<times> 'd mclient" where
  "mongo_Close dr c = (if \<not> mc_open c then (Inr (), c) else on_db (dr_Disconnect dr) (c\<lparr>mc_open := False\<rparr>))"

section \<open>Users\<close>

definition mongo_UpsertUserOnFirstAuth ::
  "'d driver \<Rightarrow> bson_codec \<Rightarrow> gotime \<Rightarrow> auth_claims \<Rightarrow> 'd mclient \<Rightarrow> user res \<times> 'd mclient"
where
  "mongo_UpsertUserOnFirstAuth dr bc now claims c =
     (if \<not> mc_open c then (Inl ErrClosed, c)
      else
        (let filt = [(''uid'', BStr (c_uid claims))];
             upd =
               [(''$setOnInsert'', BDoc
                  [(''uid'', BStr (c_uid claims)), (''isBetaTester'', BBool True),
                   (''betaSignupAt'', BTime now), (''createdAt'', BTime now)]),
                (''$set'', BDoc
                  [(''email'', BStr (c_email claims)), (''displayName'', BStr (c_name claims)),
                   (''provider'', BStr (c_provider claims)), (''lastSeen'', BTime now)])]
         in case on_db (dr_FindOneAndUpdate dr collUsers filt upd) c of
              (Inl err, c) \<Rightarrow> (Inl (ErrWrap ''mongodb: user upsert'' err), c)
            | (Inr d, c) \<Rightarrow>
                (case of_user bc d of
                   Inl err \<Rightarrow> (Inl (ErrWrap ''mongodb: user upsert'' err), c)
                 | Inr u \<Rightarrow> (Inr u, c))))"

text \<open>
  \<open>FindOne(filter).Decode(&x)\<close> with its two error checks, as \<open>GetUser\<close>, \<open>GetPuzzle\<close>, \<open>GetAttempt\<close> and
  \<open>GetMatch\<close> have it.
\<close>

definition find_one ::
  "'d driver \<Rightarrow> (doc \<Rightarrow> 'a res) \<Rightarrow> string \<Rightarrow> string \<Rightarrow> doc \<Rightarrow> 'd mclient \<Rightarrow> 'a res \<times> 'd mclient"
where
  "find_one dr decode msg coll filt c =
     (if \<not> mc_open c then (Inl ErrClosed, c)
      else
        (case on_db (dr_FindOne dr coll filt) c of
           (Inl err, c) \<Rightarrow>
             (Inl (if errors_is err (dr_ErrNoDocuments dr) then ErrNotFound else ErrWrap msg err), c)
         | (Inr d, c) \<Rightarrow>
             (case decode d of
                Inl err \<Rightarrow>
                  (Inl (if errors_is err (dr_ErrNoDocuments dr) then ErrNotFound else ErrWrap msg err), c)
              | Inr x \<Rightarrow> (Inr x, c))))"

definition mongo_GetUser :: "'d driver \<Rightarrow> bson_codec \<Rightarrow> string \<Rightarrow> 'd mclient \<Rightarrow> user res \<times> 'd mclient" where
  "mongo_GetUser dr bc uid =
     find_one dr (of_user bc) ''mongodb: user get'' collUsers [(''uid'', BStr uid)]"

definition mongo_TouchLastSeen ::
  "'d driver \<Rightarrow> string \<Rightarrow> gotime \<Rightarrow> 'd mclient \<Rightarrow> unit res \<times> 'd mclient"
where
  "mongo_TouchLastSeen dr uid t c =
     (if \<not> mc_open c then (Inl ErrClosed, c)
      else
        (case on_db (dr_UpdateOne dr collUsers [(''uid'', BStr uid)]
                       [(''$set'', BDoc [(''lastSeen'', BTime t)])] False) c of
           (Inl err, c) \<Rightarrow> (Inl (ErrWrap ''mongodb: touch last seen'' err), c)
         | (Inr matched, c) \<Rightarrow> if matched = 0 then (Inl ErrNotFound, c) else (Inr (), c)))"

section \<open>Puzzles, attempts, matches\<close>

text \<open>\<open>ReplaceOne(filter, x, upsert)\<close>, as \<open>PutPuzzle\<close>, \<open>UpsertAttempt\<close> and \<open>UpsertMatch\<close> have it.\<close>

definition replace_one ::
  "'d driver \<Rightarrow> string \<Rightarrow> string \<Rightarrow> doc \<Rightarrow> doc \<Rightarrow> 'd mclient \<Rightarrow> unit res \<times> 'd mclient"
where
  "replace_one dr msg coll filt new c =
     (if \<not> mc_open c then (Inl ErrClosed, c)
      else
        (case on_db (dr_ReplaceOne dr coll filt new True) c of
           (Inl err, c) \<Rightarrow> (Inl (ErrWrap msg err), c)
         | (Inr _, c) \<Rightarrow> (Inr (), c)))"

definition mongo_GetPuzzle :: "'d driver \<Rightarrow> bson_codec \<Rightarrow> string \<Rightarrow> 'd mclient \<Rightarrow> puzzle res \<times> 'd mclient" where
  "mongo_GetPuzzle dr bc date =
     find_one dr (of_puzzle bc) ''mongodb: puzzle get'' collPuzzles [(''_id'', BStr date)]"

definition mongo_PutPuzzle :: "'d driver \<Rightarrow> bson_codec \<Rightarrow> puzzle \<Rightarrow> 'd mclient \<Rightarrow> unit res \<times> 'd mclient" where
  "mongo_PutPuzzle dr bc p =
     replace_one dr ''mongodb: puzzle upsert'' collPuzzles [(''_id'', BStr (p_date p))] (bs_puzzle bc p)"

definition mongo_GetAttempt ::
  "'d driver \<Rightarrow> bson_codec \<Rightarrow> string \<Rightarrow> string \<Rightarrow> 'd mclient \<Rightarrow> attempt res \<times> 'd mclient"
where
  "mongo_GetAttempt dr bc uid date =
     find_one dr (of_attempt bc) ''mongodb: attempt get'' collAttempts
       [(''uid'', BStr uid), (''puzzleDate'', BStr date)]"

definition mongo_UpsertAttempt :: "'d driver \<Rightarrow> bson_codec \<Rightarrow> attempt \<Rightarrow> 'd mclient \<Rightarrow> unit res \<times> 'd mclient" where
  "mongo_UpsertAttempt dr bc a =
     replace_one dr ''mongodb: attempt upsert'' collAttempts
       [(''uid'', BStr (a_uid a)), (''puzzleDate'', BStr (a_date a))] (bs_attempt bc a)"

definition mongo_GetMatch :: "'d driver \<Rightarrow> bson_codec \<Rightarrow> string \<Rightarrow> 'd mclient \<Rightarrow> game_match res \<times> 'd mclient" where
  "mongo_GetMatch dr bc matchID =
     find_one dr (of_match bc) ''mongodb: match get'' collMatches [(''_id'', BStr matchID)]"

definition mongo_UpsertMatch :: "'d driver \<Rightarrow> bson_codec \<Rightarrow> game_match \<Rightarrow> 'd mclient \<Rightarrow> unit res \<times> 'd mclient" where
  "mongo_UpsertMatch dr bc m =
     replace_one dr ''mongodb: match upsert'' collMatches [(''_id'', BStr (m_id m))] (bs_match bc m)"

text \<open>The loop over a cursor: decode every document, then look at the cursor's error.\<close>

fun collect :: "(doc \<Rightarrow> 'a res) \<Rightarrow> string \<Rightarrow> string \<Rightarrow> doc list \<Rightarrow> go_error option \<Rightarrow> 'a list \<Rightarrow> 'a list res" where
  "collect decode msg_decode msg_cursor [] err out =
     (case err of Some e \<Rightarrow> Inl (ErrWrap msg_cursor e) | None \<Rightarrow> Inr out)"
| "collect decode msg_decode msg_cursor (d # ds) err out =
     (case decode d of
        Inl e \<Rightarrow> Inl (ErrWrap msg_decode e)
      | Inr x \<Rightarrow> collect decode msg_decode msg_cursor ds err (out @ [x]))"

definition mongo_ListUserMatches ::
  "'d driver \<Rightarrow> bson_codec \<Rightarrow> string \<Rightarrow> int \<Rightarrow> 'd mclient \<Rightarrow> game_match list res \<times> 'd mclient"
where
  "mongo_ListUserMatches dr bc uid n c =
     (if \<not> mc_open c then (Inl ErrClosed, c)
      else if n \<le> 0 then (Inr [], c)
      else
        (case on_db (dr_Find dr collMatches [(''players'', BStr uid)]
                       \<lparr>fo_sort = [(''createdAt'', BInt (-1))], fo_limit = n, fo_projection = []\<rparr>) c of
           (Inl err, c) \<Rightarrow> (Inl (ErrWrap ''mongodb: list user matches'' err), c)
         | (Inr (ds, err, _), c) \<Rightarrow>
             (collect (of_match bc) ''mongodb: list user matches decode''
                ''mongodb: list user matches cursor'' ds err [], c)))"

section \<open>Leaderboards\<close>

definition mongo_SubmitScore ::
  "'d driver \<Rightarrow> string \<Rightarrow> string \<Rightarrow> int64 \<Rightarrow> 'd mclient \<Rightarrow> unit res \<times> 'd mclient"
where
  "mongo_SubmitScore dr board uid score c =
     (if \<not> mc_open c then (Inl ErrClosed, c)
      else
        (case on_db (dr_UpdateOne dr collLeaderboards [(''board'', BStr board), (''uid'', BStr uid)]
                       [(''$max'', BDoc [(''score'', BInt score)])] True) c of
           (Inl err, c) \<Rightarrow> (Inl (ErrWrap ''mongodb: submit score'' err), c)
         | (Inr _, c) \<Rightarrow> (Inr (), c)))"

definition mongo_TopN ::
  "'d driver \<Rightarrow> bson_codec \<Rightarrow> string \<Rightarrow> int \<Rightarrow> 'd mclient \<Rightarrow> rank list res \<times> 'd mclient"
where
  "mongo_TopN dr bc board n c =
     (if \<not> mc_open c then (Inl ErrClosed, c)
      else if n \<le> 0 then (Inr [], c)
      else
        (case on_db (dr_Find dr collLeaderboards [(''board'', BStr board)]
                       \<lparr>fo_sort = [(''score'', BInt (-1))], fo_limit = n,
                        fo_projection = [(''uid'', BInt 1), (''score'', BInt 1), (''_id'', BInt 0)]\<rparr>) c of
           (Inl err, c) \<Rightarrow> (Inl (ErrWrap ''mongodb: top N find'' err), c)
         | (Inr (ds, err, _), c) \<Rightarrow>
             (collect (of_rank bc) ''mongodb: top N decode'' ''mongodb: top N cursor'' ds err [], c)))"

section \<open>Presence and cache\<close>

definition mongo_MarkOnline ::
  "'d driver \<Rightarrow> gotime \<Rightarrow> string \<Rightarrow> duration \<Rightarrow> 'd mclient \<Rightarrow> unit res \<times> 'd mclient"
where
  "mongo_MarkOnline dr now uid ttl c =
     (if \<not> mc_open c then (Inl ErrClosed, c)
      else
        (case on_db (dr_UpdateOne dr collPresence [(''_id'', BStr uid)]
                       [(''$set'', BDoc [(''expireAt'', BTime (time_add now ttl))])] True) c of
           (Inl err, c) \<Rightarrow> (Inl (ErrWrap ''mongodb: mark online'' err), c)
         | (Inr _, c) \<Rightarrow> (Inr (), c)))"

definition mongo_IsOnline :: "'d driver \<Rightarrow> gotime \<Rightarrow> string \<Rightarrow> 'd mclient \<Rightarrow> bool res \<times> 'd mclient" where
  "mongo_IsOnline dr now uid c =
     (if \<not> mc_open c then (Inl ErrClosed, c)
      else
        (case on_db (dr_CountDocuments dr collPresence
                       [(''_id'', BStr uid), (''expireAt'', BDoc [(''$gt'', BTime now)])]) c of
           (Inl err, c) \<Rightarrow> (Inl (ErrWrap ''mongodb: is online'' err), c)
         | (Inr n, c) \<Rightarrow> (Inr (0 < sint n), c)))"

definition mongo_CacheGet ::
  "'d driver \<Rightarrow> bson_codec \<Rightarrow> gotime \<Rightarrow> string \<Rightarrow> 'd mclient \<Rightarrow> (bytes \<times> bool) res \<times> 'd mclient"
where
  "mongo_CacheGet dr bc now key c =
     (if \<not> mc_open c then (Inl ErrClosed, c)
      else
        (let filt =
           [(''_id'', BStr key),
            (''$or'', BArr
               [BDoc [(''expireAt'', BDoc [(''$gt'', BTime now)])],
                BDoc [(''expireAt'', BDoc [(''$exists'', BBool False)])]])];
             miss = (\<lambda>err. if errors_is err (dr_ErrNoDocuments dr) then Inr ([], False)
                           else Inl (ErrWrap ''mongodb: cache get'' err))
         in case on_db (dr_FindOne dr collCache filt) c of
              (Inl err, c) \<Rightarrow> (miss err, c)
            | (Inr d, c) \<Rightarrow>
                (case of_cache bc d of Inl err \<Rightarrow> (miss err, c) | Inr v \<Rightarrow> (Inr (v, True), c))))"

definition mongo_CacheSet ::
  "'d driver \<Rightarrow> gotime \<Rightarrow> string \<Rightarrow> bytes \<Rightarrow> duration \<Rightarrow> 'd mclient \<Rightarrow> unit res \<times> 'd mclient"
where
  "mongo_CacheSet dr now key val ttl c =
     (if \<not> mc_open c then (Inl ErrClosed, c)
      else
        (let upd =
           (if sint ttl \<le> 0 then
              [(''$set'', BDoc [(''val'', BBin val)]), (''$unset'', BDoc [(''expireAt'', BStr [])])]
            else [(''$set'', BDoc [(''val'', BBin val), (''expireAt'', BTime (time_add now ttl))])])
         in case on_db (dr_UpdateOne dr collCache [(''_id'', BStr key)] upd True) c of
              (Inl err, c) \<Rightarrow> (Inl (ErrWrap ''mongodb: cache set'' err), c)
            | (Inr _, c) \<Rightarrow> (Inr (), c)))"

section \<open>Export\<close>

text \<open>The decode functions of the four collections give the JSON form of the struct they decode.\<close>

fun export_docs ::
  "(json \<Rightarrow> 'w \<Rightarrow> unit res \<times> 'w) \<Rightarrow> (doc \<Rightarrow> json res) \<Rightarrow> string \<Rightarrow> doc list \<Rightarrow> go_error option \<Rightarrow> 'w
     \<Rightarrow> unit res \<times> 'w"
where
  "export_docs enc decode coll [] err w =
     (case err of Some e \<Rightarrow> (Inl (ErrWrap ''mongodb: export cursor %s'' e), w) | None \<Rightarrow> (Inr (), w))"
| "export_docs enc decode coll (d # ds) err w =
     (case decode d of
        Inl e \<Rightarrow> (Inl (ErrWrap ''mongodb: export decode %s'' e), w)
      | Inr j \<Rightarrow>
          (case enc (JObj [(''collection'', JStr coll), (''doc'', j)]) w of
             (Inl e, w) \<Rightarrow> (Inl (ErrWrap ''mongodb: export encode %s'' e), w)
           | (Inr _, w) \<Rightarrow> export_docs enc decode coll ds err w))"

fun export_all ::
  "'d driver \<Rightarrow> (json \<Rightarrow> 'w \<Rightarrow> unit res \<times> 'w) \<Rightarrow> (string \<times> (doc \<Rightarrow> json res)) list \<Rightarrow> 'd mclient \<Rightarrow> 'w
     \<Rightarrow> (unit res \<times> 'w) \<times> 'd mclient"
where
  "export_all dr enc [] c w = ((Inr (), w), c)"
| "export_all dr enc ((coll, decode) # pairs) c w =
     (case on_db (dr_Find dr coll [] \<lparr>fo_sort = [], fo_limit = 0, fo_projection = []\<rparr>) c of
        (Inl err, c) \<Rightarrow> ((Inl (ErrWrap ''mongodb: export find %s'' err), w), c)
      | (Inr (ds, err, close_err), c) \<Rightarrow>
          (case export_docs enc decode coll ds err w of
             (Inl e, w) \<Rightarrow> ((Inl e, w), c)
           | (Inr _, w) \<Rightarrow>
               (case close_err of
                  Some e \<Rightarrow> ((Inl (ErrWrap ''mongodb: export close %s'' e), w), c)
                | None \<Rightarrow> export_all dr enc pairs c w)))"

definition mongo_Export ::
  "'d driver \<Rightarrow> bson_codec \<Rightarrow> (json \<Rightarrow> 'w \<Rightarrow> unit res \<times> 'w) \<Rightarrow> 'd mclient \<Rightarrow> 'w
     \<Rightarrow> (unit res \<times> 'w) \<times> 'd mclient"
where
  "mongo_Export dr bc enc c w =
     (if \<not> mc_open c then ((Inl ErrClosed, w), c)
      else export_all dr enc
        [(collUsers, \<lambda>d. map_sum id user_json (of_user bc d)),
         (collPuzzles, \<lambda>d. map_sum id puzzle_json (of_puzzle bc d)),
         (collAttempts, \<lambda>d. map_sum id attempt_json (of_attempt bc d)),
         (collMatches, \<lambda>d. map_sum id match_json (of_match bc d))] c w)"

section \<open>The interface value\<close>

definition mongo_ops :: "'d driver \<Rightarrow> bson_codec \<Rightarrow> 'd mclient store_ops" where
  "mongo_ops dr bc =
     \<lparr>st_UpsertUserOnFirstAuth = mongo_UpsertUserOnFirstAuth dr bc, st_GetUser = mongo_GetUser dr bc,
      st_TouchLastSeen = mongo_TouchLastSeen dr, st_GetPuzzle = mongo_GetPuzzle dr bc,
      st_PutPuzzle = mongo_PutPuzzle dr bc, st_GetAttempt = mongo_GetAttempt dr bc,
      st_UpsertAttempt = mongo_UpsertAttempt dr bc, st_GetMatch = mongo_GetMatch dr bc,
      st_UpsertMatch = mongo_UpsertMatch dr bc, st_ListUserMatches = mongo_ListUserMatches dr bc,
      st_SubmitScore = mongo_SubmitScore dr, st_TopN = mongo_TopN dr bc,
      st_MarkOnline = mongo_MarkOnline dr, st_IsOnline = mongo_IsOnline dr,
      st_CacheGet = mongo_CacheGet dr bc, st_CacheSet = mongo_CacheSet dr,
      st_Ping = mongo_Ping dr, st_Close = mongo_Close dr\<rparr>"

lemma mongo_ops_simps [simp]:
  "st_UpsertUserOnFirstAuth (mongo_ops dr bc) = mongo_UpsertUserOnFirstAuth dr bc"
  "st_GetUser (mongo_ops dr bc) = mongo_GetUser dr bc"
  "st_GetPuzzle (mongo_ops dr bc) = mongo_GetPuzzle dr bc"
  "st_PutPuzzle (mongo_ops dr bc) = mongo_PutPuzzle dr bc"
  "st_GetAttempt (mongo_ops dr bc) = mongo_GetAttempt dr bc"
  "st_UpsertAttempt (mongo_ops dr bc) = mongo_UpsertAttempt dr bc"
  "st_GetMatch (mongo_ops dr bc) = mongo_GetMatch dr bc"
  "st_UpsertMatch (mongo_ops dr bc) = mongo_UpsertMatch dr bc"
  "st_SubmitScore (mongo_ops dr bc) = mongo_SubmitScore dr"
  "st_TopN (mongo_ops dr bc) = mongo_TopN dr bc"
  "st_Ping (mongo_ops dr bc) = mongo_Ping dr"
  by (simp_all add: mongo_ops_def)

end
