(* ===== verification/Mongo_Laws.thy ===== *)
theory Mongo_Laws
  imports Mongo_Store
begin

text \<open>
  The MongoDB store keeps the contract of the interface, on every driver that behaves as
  documented: its well-formedness is that each document of a collection has the fields of the
  collection's struct and no two have the same natural key, and its view reads the documents.
  Instants are kept to the millisecond.
\<close>

section \<open>Collections with a key\<close>

definition look :: "(doc \<Rightarrow> 'k) \<Rightarrow> doc list \<Rightarrow> 'k \<Rightarrow> doc option" where
  "look key ds = map_of (map (\<lambda>d. (key d, d)) ds)"

definition kdocs :: "(doc \<Rightarrow> 'k) \<Rightarrow> (doc \<Rightarrow> bool) \<Rightarrow> doc list \<Rightarrow> bool" where
  "kdocs key good ds \<longleftrightarrow> distinct (map key ds) \<and> (\<forall>d \<in> set ds. good d)"

lemma look_Some: "kdocs key good ds \<Longrightarrow> look key ds k = Some d \<longleftrightarrow> d \<in> set ds \<and> key d = k"
proof -
  assume "kdocs key good ds"
  then have "distinct (map fst (map (\<lambda>d. (key d, d)) ds))" by (simp add: kdocs_def comp_def)
  from map_of_eq_Some_iff [OF this, of k d] show ?thesis by (auto simp: look_def)
qed

lemma look_None: "look key ds k = None \<longleftrightarrow> k \<notin> key ` set ds"
  by (auto simp: look_def map_of_eq_None_iff image_image)

lemma look_good: "kdocs key good ds \<Longrightarrow> look key ds k = Some d \<Longrightarrow> good d \<and> key d = k"
  by (auto simp: look_Some kdocs_def)

lemma kdocs_replace:
  assumes "kdocs key good (xs @ old # ys)" and "key d = key old" and "good d"
  shows "kdocs key good (xs @ d # ys)"
    and "look key (xs @ d # ys) = (look key (xs @ old # ys))(key old \<mapsto> d)"
proof -
  show "kdocs key good (xs @ d # ys)" using assms by (auto simp: kdocs_def)
  have "key old \<notin> key ` set ys" using assms(1) by (auto simp: kdocs_def)
  have "key old \<notin> key ` set xs" using assms(1) by (auto simp: kdocs_def)
  then have "map_of (map (\<lambda>d. (key d, d)) xs) (key old) = None"
    by (auto simp: map_of_eq_None_iff image_image)
  then show "look key (xs @ d # ys) = (look key (xs @ old # ys))(key old \<mapsto> d)"
    by (auto simp: look_def assms(2) map_add_def fun_eq_iff split: option.split)
qed

lemma kdocs_append:
  assumes "kdocs key good ds" and "key d \<notin> key ` set ds" and "good d"
  shows "kdocs key good (ds @ [d])" and "look key (ds @ [d]) = (look key ds)(key d \<mapsto> d)"
proof -
  show "kdocs key good (ds @ [d])" using assms by (auto simp: kdocs_def)
  show "look key (ds @ [d]) = (look key ds)(key d \<mapsto> d)"
    using assms(2) look_None [of key ds "key d"]
    by (auto simp: look_def map_add_def fun_eq_iff split: option.split)
qed

text \<open>A filter that selects by the key.\<close>

definition selects :: "(doc \<Rightarrow> 'k) \<Rightarrow> (doc \<Rightarrow> bool) \<Rightarrow> doc \<Rightarrow> 'k \<Rightarrow> bool" where
  "selects key good f k \<longleftrightarrow> (\<forall>d. good d \<longrightarrow> matches f d = (key d = k))"

text \<open>An upsert changes exactly the entry of its key.\<close>

lemma updates_keyed:
  assumes docs: "kdocs key good ds" and sel: "selects key good f k" and upd: "updates f u True ds n d ds'"
    and old: "\<And>x. good x \<Longrightarrow> key x = k \<Longrightarrow> good (apply_update False u x) \<and> key (apply_update False u x) = k"
    and new: "\<And>i. good (insert_doc i (apply_update True u (seed f)))
                  \<and> key (insert_doc i (apply_update True u (seed f))) = k"
  shows "kdocs key good ds' \<and> look key ds' = (look key ds)(k \<mapsto> d) \<and>
    (case look key ds k of
       Some x \<Rightarrow> d = apply_update False u x
     | None \<Rightarrow> \<exists>i. d = insert_doc i (apply_update True u (seed f)))"
  using upd unfolding updates_def
proof (elim disjE exE conjE)
  fix xs x ys
  assume u: "ds = xs @ x # ys" "matches f x" "d = apply_update False u x" "ds' = xs @ d # ys"
  have x: "good x" "key x = k" using docs sel u by (auto simp: kdocs_def selects_def)
  then have "look key ds k = Some x" using docs u by (simp add: look_Some)
  then show ?thesis
    using kdocs_replace [of key good xs x ys d] docs u old [OF x] x by simp
next
  assume u: "\<forall>x \<in> set ds. \<not> matches f x"
    "if True then (\<exists>i. d = insert_doc i (apply_update True u (seed f))) \<and> ds' = ds @ [d] else ds' = ds"
  then obtain i where i: "d = insert_doc i (apply_update True u (seed f))" "ds' = ds @ [d]" by auto
  have "k \<notin> key ` set ds" using docs sel u by (auto simp: kdocs_def selects_def)
  then show ?thesis
    using kdocs_append [OF docs, of d] new [of i] i look_None [of key ds k] by auto
qed

text \<open>The same for a replacement. The new document may have got an \<open>_id\<close> it did not have.\<close>

definition agrees :: "doc \<Rightarrow> doc \<Rightarrow> bool" where
  "agrees d new \<longleftrightarrow> (\<forall>j. j \<noteq> ''_id'' \<or> gm_get new j \<noteq> None \<longrightarrow> gm_get d j = gm_get new j)"

lemma agrees_docs: "agrees (replacement x new) new" "agrees (insert_doc i (replacement x new)) new"
  by (auto simp: agrees_def replacement_def insert_doc_def split: option.split)

lemma replaces_keyed:
  assumes docs: "kdocs key good ds" and sel: "selects key good f k" and repl: "replaces f new True ds ds'"
    and good: "\<And>d. agrees d new \<Longrightarrow> good d \<and> key d = k"
  shows "\<exists>d. kdocs key good ds' \<and> look key ds' = (look key ds)(k \<mapsto> d) \<and> agrees d new"
  using repl unfolding replaces_def
proof (elim disjE exE conjE)
  fix xs x ys
  assume u: "ds = xs @ x # ys" "matches f x" "ds' = xs @ replacement x new # ys"
  have x: "good x" "key x = k" using docs sel u by (auto simp: kdocs_def selects_def)
  with u docs good [OF agrees_docs(1)] kdocs_replace [of key good xs x ys "replacement x new"]
  show ?thesis by (intro exI [of _ "replacement x new"]) (simp add: agrees_docs)
next
  assume u: "\<forall>x \<in> set ds. \<not> matches f x"
    "if True then \<exists>i. ds' = ds @ [insert_doc i (replacement (seed f) new)] else ds' = ds"
  then obtain i where i: "ds' = ds @ [insert_doc i (replacement (seed f) new)]" by auto
  have "k \<notin> key ` set ds" using docs sel u by (auto simp: kdocs_def selects_def)
  with i docs good [OF agrees_docs(2)] kdocs_append [OF docs, of "insert_doc i (replacement (seed f) new)"]
  show ?thesis by (intro exI [of _ "insert_doc i (replacement (seed f) new)"]) (simp add: agrees_docs)
qed

section \<open>The view of the database\<close>

definition uid_key :: "doc \<Rightarrow> bson option" where "uid_key d = gm_get d ''uid''"
definition id_key :: "doc \<Rightarrow> bson option" where "id_key d = gm_get d ''_id''"
definition attempt_key :: "doc \<Rightarrow> bson option \<times> bson option" where
  "attempt_key d = (gm_get d ''uid'', gm_get d ''puzzleDate'')"
definition entry_key :: "doc \<Rightarrow> bson option \<times> bson option" where
  "entry_key d = (gm_get d ''board'', gm_get d ''uid'')"

lemmas key_defs = uid_key_def id_key_def attempt_key_def entry_key_def

definition entry_doc :: "doc \<Rightarrow> bool" where
  "entry_doc d \<longleftrightarrow> (\<exists>b r. has_str d ''board'' b \<and> rank_doc d r)"

definition decoded :: "(doc \<Rightarrow> 'a res) \<Rightarrow> doc \<Rightarrow> 'a option" where
  "decoded f d = (case f d of Inl _ \<Rightarrow> None | Inr x \<Rightarrow> Some x)"

definition docs_wf :: "(string \<Rightarrow> doc list) \<Rightarrow> bool" where
  "docs_wf D \<longleftrightarrow>
     kdocs uid_key (\<lambda>d. \<exists>u. user_doc d u) (D collUsers) \<and>
     kdocs id_key (\<lambda>d. \<exists>p. puzzle_doc d p) (D collPuzzles) \<and>
     kdocs attempt_key (\<lambda>d. \<exists>a. attempt_doc d a) (D collAttempts) \<and>
     kdocs id_key (\<lambda>d. \<exists>m. match_doc d m) (D collMatches) \<and>
     kdocs entry_key entry_doc (D collLeaderboards)"

definition docs_view :: "bson_codec \<Rightarrow> (string \<Rightarrow> doc list) \<Rightarrow> store_view" where
  "docs_view bc D =
     \<lparr>v_users = (\<lambda>u. Option.bind (look uid_key (D collUsers) (Some (BStr u))) (decoded (of_user bc))),
      v_puzzles = (\<lambda>d. Option.bind (look id_key (D collPuzzles) (Some (BStr d))) (decoded (of_puzzle bc))),
      v_attempts = (\<lambda>u d. Option.bind (look attempt_key (D collAttempts) (Some (BStr u), Some (BStr d)))
                          (decoded (of_attempt bc))),
      v_matches = (\<lambda>i. Option.bind (look id_key (D collMatches) (Some (BStr i))) (decoded (of_match bc))),
      v_boards = (\<lambda>b u. map_option r_score
                   (Option.bind (look entry_key (D collLeaderboards) (Some (BStr b), Some (BStr u)))
                     (decoded (of_rank bc))))\<rparr>"

text \<open>Both depend only on the collections without a TTL index.\<close>

definition agree :: "(string \<Rightarrow> doc list) \<Rightarrow> (string \<Rightarrow> doc list) \<Rightarrow> bool" where
  "agree D D' \<longleftrightarrow> (\<forall>c. c \<notin> ttl_collections \<longrightarrow> D' c = D c)"

lemma agree_same: "agree D D' \<Longrightarrow> docs_wf D' = docs_wf D \<and> docs_view bc D' = docs_view bc D"
  by (simp add: agree_def docs_wf_def docs_view_def ttl_collections_def coll_defs)

lemma agree_quiet: "quiet docs s s' \<Longrightarrow> agree (docs s) (docs s')"
  by (auto simp: quiet_def settles_def agree_def)

lemma agree_writes:
  "writes docs c P s s' \<Longrightarrow> c \<notin> ttl_collections \<Longrightarrow> \<exists>ds. P ds \<and> agree ((docs s)(c := ds)) (docs s')"
  by (auto simp: writes_def settles_def agree_def)

definition mongo_view :: "bson_codec \<Rightarrow> ('d \<Rightarrow> string \<Rightarrow> doc list) \<Rightarrow> 'd mclient \<Rightarrow> store_view" where
  "mongo_view bc docs c = docs_view bc (docs (mc_db c))"

definition mongo_wf :: "('d \<Rightarrow> string \<Rightarrow> doc list) \<Rightarrow> 'd mclient \<Rightarrow> bool" where
  "mongo_wf docs c \<longleftrightarrow> docs_wf (docs (mc_db c))"

lemma collection_simps [simp]:
  "collUsers \<notin> ttl_collections" "collPuzzles \<notin> ttl_collections" "collAttempts \<notin> ttl_collections"
  "collMatches \<notin> ttl_collections" "collLeaderboards \<notin> ttl_collections"
  by (simp_all add: coll_defs ttl_collections_def)

lemma coll_distinct [simp]:
  "distinct [collUsers, collPuzzles, collAttempts, collMatches, collLeaderboards]"
  by (simp add: coll_defs)

section \<open>What the filters select\<close>

lemma marsh_simps [simp]:
  "marsh_doc [] = []" "marsh_doc ((k, v) # d) = (k, marsh v) # marsh_doc d"
  by (simp_all add: marsh_doc_def)

lemma insert_doc_get [simp]:
  "gm_get (insert_doc i d) k = (if k = ''_id'' \<and> gm_get d ''_id'' = None then Some i else gm_get d k)"
  by (simp add: insert_doc_def)

lemma selects_uid: "selects uid_key (\<lambda>d. \<exists>u. user_doc d u) [(''uid'', BStr x)] (Some (BStr x))"
  by (auto simp: selects_def matches_def field_holds_def uid_key_def user_doc_def has_str_def)

lemma selects_puzzle: "selects id_key (\<lambda>d. \<exists>p. puzzle_doc d p) [(''_id'', BStr x)] (Some (BStr x))"
  by (auto simp: selects_def matches_def field_holds_def id_key_def puzzle_doc_def has_str_def)

lemma selects_match: "selects id_key (\<lambda>d. \<exists>m. match_doc d m) [(''_id'', BStr x)] (Some (BStr x))"
  by (auto simp: selects_def matches_def field_holds_def id_key_def match_doc_def has_str_def)

lemma selects_attempt:
  "selects attempt_key (\<lambda>d. \<exists>a. attempt_doc d a) [(''uid'', BStr x), (''puzzleDate'', BStr y)]
     (Some (BStr x), Some (BStr y))"
  by (auto simp: selects_def matches_def field_holds_def attempt_key_def attempt_doc_def has_str_def)

lemma selects_entry:
  "selects entry_key entry_doc [(''board'', BStr x), (''uid'', BStr y)] (Some (BStr x), Some (BStr y))"
  by (auto simp: selects_def matches_def field_holds_def entry_key_def entry_doc_def rank_doc_def has_str_def)

section \<open>Operations against the contract\<close>

lemma on_db_simps:
  "on_db f c = (r, c') \<Longrightarrow> f (mc_db c) = (r, mc_db c') \<and> c' = c\<lparr>mc_db := mc_db c'\<rparr>"
  by (auto simp: on_db_def split: prod.splits)

lemma on_dbE:
  obtains r s where "f (mc_db c) = (r, s)" "on_db f c = (r, c\<lparr>mc_db := s\<rparr>)"
  by (cases "f (mc_db c)") (simp add: on_db_def)

text \<open>Enough for an operation that writes to be a write of the contract.\<close>

lemma write_opI:
  assumes "\<And>s. ok s \<Longrightarrow> ok (snd (f s)) \<and>
      (view (snd (f s)) = g (view s) \<or> view (snd (f s)) = view s \<and> (\<exists>e. fst (f s) = Inl e))"
  shows "write_op view ok g f"
  unfolding write_op_def using assms by (fastforce split: sum.split)

definition row_of :: "doc \<Rightarrow> rank" where
  "row_of d = (case (gm_get d ''uid'', gm_get d ''score'') of
     (Some (BStr u), Some (BInt sc)) \<Rightarrow> Rank u sc | _ \<Rightarrow> Rank [] 0)"

lemma entry_row: "entry_doc d \<Longrightarrow> rank_doc d (row_of d)"
  by (auto simp: entry_doc_def rank_doc_def has_str_def row_of_def)

lemma rank_doc_row: "rank_doc d r \<Longrightarrow> row_of d = r"
  by (cases r) (auto simp: rank_doc_def has_str_def row_of_def)

lemma found_rows:
  assumes k: "kdocs entry_key entry_doc ds"
    and found: "mset found = mset (filter (matches [(''board'', BStr b)]) ds)"
    and sorted: "sorted_docs [(''score'', BInt (-1))] found"
  shows "sorted_wrt (\<lambda>r r'. sint (r_score r') \<le> sint (r_score r)) (map row_of found)"
    and "distinct (map r_uid (map row_of found))"
    and "Rank u sc \<in> set (map row_of found) \<longleftrightarrow>
      (\<exists>d. look entry_key ds (Some (BStr b), Some (BStr u)) = Some d \<and> row_of d = Rank u sc)"
proof -
  have set: "d \<in> set found \<longleftrightarrow> d \<in> set ds \<and> gm_get d ''board'' = Some (BStr b)" for d
  proof -
    have "set found = set (filter (matches [(''board'', BStr b)]) ds)" by (rule mset_eq_setD [OF found])
    moreover have "entry_doc d \<Longrightarrow> matches [(''board'', BStr b)] d \<longleftrightarrow> gm_get d ''board'' = Some (BStr b)" for d
      by (auto simp: matches_def field_holds_def entry_doc_def has_str_def)
    ultimately show ?thesis using k by (auto simp: kdocs_def)
  qed
  have rank: "rank_doc d (row_of d)" if "d \<in> set found" for d
    using that set k entry_row by (auto simp: kdocs_def)
  have "same_typed ''score'' found"
    using rank unfolding same_typed_def rank_doc_def by blast
  with sorted have "sorted_wrt (\<lambda>d d'. sort_value (gm_get d' ''score'') \<le> sort_value (gm_get d ''score'')) found"
    by (simp add: sorted_docs_def)
  moreover have "sort_value (gm_get d ''score'') = sint (r_score (row_of d))" if "d \<in> set found" for d
    using rank [OF that] by (simp add: rank_doc_def)
  ultimately show "sorted_wrt (\<lambda>r r'. sint (r_score r') \<le> sint (r_score r)) (map row_of found)"
    by (simp add: sorted_wrt_map) (erule sorted_wrt_mono_rel [rotated], simp)
  have key: "entry_key d = (Some (BStr b), Some (BStr (r_uid (row_of d))))" if "d \<in> set found" for d
    using rank [OF that] that by (simp add: entry_key_def set rank_doc_def has_str_def)
  have "distinct (map entry_key (filter (matches [(''board'', BStr b)]) ds))"
    using k distinct_map_filter by (auto simp: kdocs_def)
  then have "distinct (map entry_key found)"
    using found by (metis mset_eq_imp_distinct_iff mset_map)
  moreover have "map entry_key found = map (\<lambda>u. (Some (BStr b), Some (BStr u))) (map r_uid (map row_of found))"
    using key by simp
  ultimately show "distinct (map r_uid (map row_of found))"
    using distinct_map by metis
  have "look entry_key ds (Some (BStr b), Some (BStr u)) = Some d \<and> row_of d = Rank u sc
      \<longleftrightarrow> d \<in> set found \<and> row_of d = Rank u sc" for d
    using key [of d] by (auto simp: look_Some [OF k] set entry_key_def)
  then show "Rank u sc \<in> set (map row_of found) \<longleftrightarrow>
      (\<exists>d. look entry_key ds (Some (BStr b), Some (BStr u)) = Some d \<and> row_of d = Rank u sc)"
    by (simp add: image_iff Bex_def eq_commute)
qed

context mongo_driver
begin

abbreviation view :: "'d mclient \<Rightarrow> store_view" where "view \<equiv> mongo_view bc docs"
abbreviation wf :: "'d mclient \<Rightarrow> bool" where "wf \<equiv> mongo_wf docs"

lemma quiet_keeps:
  "quiet docs (mc_db c) s \<Longrightarrow> wf c \<Longrightarrow> wf (c\<lparr>mc_db := s\<rparr>) \<and> view (c\<lparr>mc_db := s\<rparr>) = view c"
  using agree_same [OF agree_quiet, of docs "mc_db c" s bc] by (simp add: mongo_wf_def mongo_view_def)

text \<open>A write keeps well-formedness and has the effect \<open>g\<close> on the view, if every possible outcome does.\<close>

lemma writes_keeps:
  assumes "writes docs coll P (mc_db c) s" and "coll \<notin> ttl_collections" and "wf c"
    and "\<And>ds. P ds \<Longrightarrow> docs_wf ((docs (mc_db c))(coll := ds))
             \<and> docs_view bc ((docs (mc_db c))(coll := ds)) = g (view c)"
  shows "wf (c\<lparr>mc_db := s\<rparr>) \<and> view (c\<lparr>mc_db := s\<rparr>) = g (view c)"
proof -
  obtain ds where "P ds" "agree ((docs (mc_db c))(coll := ds)) (docs s)"
    using agree_writes [OF assms(1,2)] by blast
  with assms(4) agree_same [of "(docs (mc_db c))(coll := ds)" "docs s" bc] show ?thesis
    by (simp add: mongo_wf_def mongo_view_def)
qed

text \<open>Replacements.\<close>

lemma replace_one_write:
  assumes "coll \<notin> ttl_collections"
    and "\<And>c ds. wf c \<Longrightarrow> replaces (marsh_doc filt) new True (docs (mc_db c) coll) ds \<Longrightarrow>
        docs_wf ((docs (mc_db c))(coll := ds)) \<and> docs_view bc ((docs (mc_db c))(coll := ds)) = g (view c)"
  shows "write_op view wf g (replace_one dr msg coll filt new)"
proof (rule write_opI)
  fix c assume wf: "wf c"
  show "wf (snd (replace_one dr msg coll filt new c)) \<and>
      (view (snd (replace_one dr msg coll filt new c)) = g (view c) \<or>
       view (snd (replace_one dr msg coll filt new c)) = view c
         \<and> (\<exists>e. fst (replace_one dr msg coll filt new c) = Inl e))"
  proof (cases "mc_open c")
    case True
    obtain r s where call: "dr_ReplaceOne dr coll filt new True (mc_db c) = (r, s)"
      "on_db (dr_ReplaceOne dr coll filt new True) c = (r, c\<lparr>mc_db := s\<rparr>)" by (rule on_dbE)
    have w: "writes docs coll (replaces (marsh_doc filt) new True (docs (mc_db c) coll)) (mc_db c) s \<Longrightarrow>
        wf (c\<lparr>mc_db := s\<rparr>) \<and> view (c\<lparr>mc_db := s\<rparr>) = g (view c)"
      by (erule writes_keeps [where g = g]) (rule assms(1), rule wf, erule assms(2) [OF wf])
    have q: "quiet docs (mc_db c) s \<Longrightarrow> wf (c\<lparr>mc_db := s\<rparr>) \<and> view (c\<lparr>mc_db := s\<rparr>) = view c"
      by (rule quiet_keeps [OF _ wf])
    show ?thesis
      using replace_law [OF call(1)] w q True by (cases r) (auto simp: replace_one_def call(2))
  qed (use wf in \<open>simp add: replace_one_def\<close>)
qed

lemma put_puzzle_write: "write_op view wf (view_put_puzzle p) (mongo_PutPuzzle dr bc p)"
  unfolding mongo_PutPuzzle_def
proof (rule replace_one_write)
  fix c ds
  assume wf: "wf c"
    and repl: "replaces (marsh_doc [(''_id'', BStr (p_date p))]) (bs_puzzle bc p) True (docs (mc_db c) collPuzzles) ds"
  have good: "puzzle_doc d p \<and> id_key d = Some (BStr (p_date p))" if "agrees d (bs_puzzle bc p)" for d
    using that puzzle_enc [of p]
    by (auto simp: agrees_def puzzle_doc_def has_str_def may_str_def id_key_def)
  have k: "kdocs id_key (\<lambda>d. \<exists>p. puzzle_doc d p) (docs (mc_db c) collPuzzles)"
    using wf by (simp add: mongo_wf_def docs_wf_def)
  obtain d where d: "kdocs id_key (\<lambda>d. \<exists>p. puzzle_doc d p) ds" "agrees d (bs_puzzle bc p)"
    "look id_key ds = (look id_key (docs (mc_db c) collPuzzles))(Some (BStr (p_date p)) \<mapsto> d)"
    using replaces_keyed [OF k selects_puzzle, of "p_date p" "bs_puzzle bc p" ds] repl good by auto
  have "decoded (of_puzzle bc) d = Some p"
    using puzzle_dec [OF good [OF d(2), THEN conjunct1]] by (simp add: decoded_def)
  with wf d show "docs_wf ((docs (mc_db c))(collPuzzles := ds)) \<and>
      docs_view bc ((docs (mc_db c))(collPuzzles := ds)) = view_put_puzzle p (view c)"
    by (auto simp: mongo_wf_def docs_wf_def mongo_view_def docs_view_def view_put_puzzle_def coll_defs fun_eq_iff)
qed simp

lemma put_match_write:
  "write_op view wf (view_put_match (timed_match floor_ms m)) (mongo_UpsertMatch dr bc m)"
  unfolding mongo_UpsertMatch_def
proof (rule replace_one_write)
  fix c ds
  let ?m = "timed_match floor_ms m"
  assume wf: "wf c"
    and repl: "replaces (marsh_doc [(''_id'', BStr (m_id m))]) (bs_match bc m) True (docs (mc_db c) collMatches) ds"
  have good: "match_doc d ?m \<and> id_key d = Some (BStr (m_id m))" if "agrees d (bs_match bc m)" for d
    using that match_enc [of m]
    by (auto simp: agrees_def match_doc_def has_str_def may_str_def has_strs_def has_time_def may_time_def id_key_def)
  have k: "kdocs id_key (\<lambda>d. \<exists>m. match_doc d m) (docs (mc_db c) collMatches)"
    using wf by (simp add: mongo_wf_def docs_wf_def)
  obtain d where d: "kdocs id_key (\<lambda>d. \<exists>m. match_doc d m) ds" "agrees d (bs_match bc m)"
    "look id_key ds = (look id_key (docs (mc_db c) collMatches))(Some (BStr (m_id m)) \<mapsto> d)"
    using replaces_keyed [OF k selects_match, of "m_id m" "bs_match bc m" ds] repl good by auto
  have "decoded (of_match bc) d = Some ?m"
    using match_dec [OF good [OF d(2), THEN conjunct1]] by (simp add: decoded_def)
  with wf d show "docs_wf ((docs (mc_db c))(collMatches := ds)) \<and>
      docs_view bc ((docs (mc_db c))(collMatches := ds)) = view_put_match ?m (view c)"
    by (auto simp: mongo_wf_def docs_wf_def mongo_view_def docs_view_def view_put_match_def coll_defs fun_eq_iff)
qed simp

lemma put_attempt_write:
  "write_op view wf (view_put_attempt (timed_attempt floor_ms a)) (mongo_UpsertAttempt dr bc a)"
  unfolding mongo_UpsertAttempt_def
proof (rule replace_one_write)
  fix c ds
  let ?a = "timed_attempt floor_ms a" and ?k = "(Some (BStr (a_uid a)), Some (BStr (a_date a)))"
  assume wf: "wf c"
    and repl: "replaces (marsh_doc [(''uid'', BStr (a_uid a)), (''puzzleDate'', BStr (a_date a))]) (bs_attempt bc a)
                 True (docs (mc_db c) collAttempts) ds"
  have good: "attempt_doc d ?a \<and> attempt_key d = ?k" if "agrees d (bs_attempt bc a)" for d
    using that attempt_enc [of a]
    by (auto simp: agrees_def attempt_doc_def has_str_def has_strs_def may_time_def attempt_key_def)
  have k: "kdocs attempt_key (\<lambda>d. \<exists>a. attempt_doc d a) (docs (mc_db c) collAttempts)"
    using wf by (simp add: mongo_wf_def docs_wf_def)
  obtain d where d: "kdocs attempt_key (\<lambda>d. \<exists>a. attempt_doc d a) ds" "agrees d (bs_attempt bc a)"
    "look attempt_key ds = (look attempt_key (docs (mc_db c) collAttempts))(?k \<mapsto> d)"
    using replaces_keyed [OF k selects_attempt, of "a_uid a" "a_date a" "bs_attempt bc a" ds] repl good by auto
  have "decoded (of_attempt bc) d = Some ?a"
    using attempt_dec [OF good [OF d(2), THEN conjunct1]] by (simp add: decoded_def)
  with wf d show "docs_wf ((docs (mc_db c))(collAttempts := ds)) \<and>
      docs_view bc ((docs (mc_db c))(collAttempts := ds)) = view_put_attempt ?a (view c)"
    by (auto simp: mongo_wf_def docs_wf_def mongo_view_def docs_view_def view_put_attempt_def coll_defs fun_eq_iff)
qed simp

text \<open>The upsert of a user.\<close>

lemma auth_docs:
  fixes a :: auth_claims and now :: gotime
  defines "F \<equiv> marsh_doc [(''uid'', BStr (c_uid a))]"
    and "U \<equiv> marsh_doc
               [(''$setOnInsert'', BDoc
                  [(''uid'', BStr (c_uid a)), (''isBetaTester'', BBool True),
                   (''betaSignupAt'', BTime now), (''createdAt'', BTime now)]),
                (''$set'', BDoc
                  [(''email'', BStr (c_email a)), (''displayName'', BStr (c_name a)),
                   (''provider'', BStr (c_provider a)), (''lastSeen'', BTime now)])]"
  assumes wf: "wf c" and upd: "updates F U True (docs (mc_db c) collUsers) n d ds"
  shows "docs_wf ((docs (mc_db c))(collUsers := ds)) \<and>
      docs_view bc ((docs (mc_db c))(collUsers := ds)) = view_auth (floor_ms now) a (view c) \<and> (\<exists>u. user_doc d u)"
proof -
  let ?k = "Some (BStr (c_uid a))" and ?good = "\<lambda>d. \<exists>u. user_doc d u"
  have old: "user_doc (apply_update False U x) (user_after_auth (floor_ms now) a (Some u))" if "user_doc x u" for x u
    using that
    by (auto simp: U_def apply_update_def user_doc_def has_str_def may_str_def has_time_def user_after_auth_def)
  have new: "user_doc (insert_doc i (apply_update True U (seed F))) (user_after_auth (floor_ms now) a None)" for i
    by (simp add: U_def F_def seed_def apply_update_def user_doc_def has_str_def may_str_def has_time_def
        user_after_auth_def)
  have key: "uid_key x = Some (BStr (u_uid u))" if "user_doc x u" for x u
    using that by (simp add: user_doc_def has_str_def uid_key_def)
  have uid: "u_uid (user_after_auth t a None) = c_uid a" "u_uid (user_after_auth t a (Some u)) = u_uid u" for t u
    by (simp_all add: user_after_auth_def)
  have k: "kdocs uid_key ?good (docs (mc_db c) collUsers)"
    using wf by (simp add: mongo_wf_def docs_wf_def)
  have sel: "selects uid_key ?good F ?k" unfolding F_def by (simp add: selects_uid)
  have "kdocs uid_key ?good ds \<and> look uid_key ds = (look uid_key (docs (mc_db c) collUsers))(?k \<mapsto> d) \<and>
    (case look uid_key (docs (mc_db c) collUsers) ?k of
       Some x \<Rightarrow> d = apply_update False U x
     | None \<Rightarrow> \<exists>i. d = insert_doc i (apply_update True U (seed F)))"
  proof (rule updates_keyed [OF k sel upd])
    fix x assume "\<exists>u. user_doc x u" "uid_key x = ?k"
    then show "(\<exists>u. user_doc (apply_update False U x) u) \<and> uid_key (apply_update False U x) = ?k"
      using old key uid(2) by metis
  next
    fix i show "(\<exists>u. user_doc (insert_doc i (apply_update True U (seed F))) u)
        \<and> uid_key (insert_doc i (apply_update True U (seed F))) = ?k"
      using new key uid(1) by metis
  qed
  then have ds: "kdocs uid_key ?good ds" "look uid_key ds = (look uid_key (docs (mc_db c) collUsers))(?k \<mapsto> d)"
    and d: "case look uid_key (docs (mc_db c) collUsers) ?k of
       Some x \<Rightarrow> d = apply_update False U x
     | None \<Rightarrow> \<exists>i. d = insert_doc i (apply_update True U (seed F))"
    by blast+
  have d': "user_doc d (user_after_auth (floor_ms now) a (v_users (view c) (c_uid a)))"
  proof (cases "look uid_key (docs (mc_db c) collUsers) ?k")
    case None
    with d new show ?thesis by (auto simp: mongo_view_def docs_view_def)
  next
    case (Some x)
    then obtain u where u: "user_doc x u" using look_good [OF k] by blast
    then have "v_users (view c) (c_uid a) = Some u"
      using Some user_dec [OF u] by (simp add: mongo_view_def docs_view_def decoded_def)
    with d Some old [OF u] show ?thesis by simp
  qed
  then have "decoded (of_user bc) d = Some (user_after_auth (floor_ms now) a (v_users (view c) (c_uid a)))"
    using user_dec [OF d'] by (simp add: decoded_def)
  with wf ds d' show ?thesis
    by (auto simp: mongo_wf_def docs_wf_def mongo_view_def docs_view_def view_auth_def coll_defs fun_eq_iff)
qed

lemma auth_write:
  "write_op view wf (view_auth (floor_ms now) a) (mongo_UpsertUserOnFirstAuth dr bc now a)"
proof (rule write_opI)
  fix c assume wf: "wf c"
  let ?f = "[(''uid'', BStr (c_uid a))]"
  let ?u = "[(''$setOnInsert'', BDoc
                  [(''uid'', BStr (c_uid a)), (''isBetaTester'', BBool True),
                   (''betaSignupAt'', BTime now), (''createdAt'', BTime now)]),
                (''$set'', BDoc
                  [(''email'', BStr (c_email a)), (''displayName'', BStr (c_name a)),
                   (''provider'', BStr (c_provider a)), (''lastSeen'', BTime now)])]"
  let ?r = "mongo_UpsertUserOnFirstAuth dr bc now a c"
  show "wf (snd ?r) \<and> (view (snd ?r) = view_auth (floor_ms now) a (view c) \<or>
      view (snd ?r) = view c \<and> (\<exists>e. fst ?r = Inl e))"
  proof (cases "mc_open c")
    case True
    obtain r s where call: "dr_FindOneAndUpdate dr collUsers ?f ?u (mc_db c) = (r, s)"
      "on_db (dr_FindOneAndUpdate dr collUsers ?f ?u) c = (r, c\<lparr>mc_db := s\<rparr>)" by (rule on_dbE)
    have snd: "snd ?r = c\<lparr>mc_db := s\<rparr>" and fst: "\<And>e. r = Inl e \<Longrightarrow> \<exists>e. fst ?r = Inl e"
      using True call(2) by (auto simp: mongo_UpsertUserOnFirstAuth_def Let_def split: sum.split)
    have w: "writes docs collUsers (\<lambda>ds. \<exists>n d. updates (marsh_doc ?f) (marsh_doc ?u) True (docs (mc_db c) collUsers) n d ds)
          (mc_db c) s \<Longrightarrow> wf (c\<lparr>mc_db := s\<rparr>) \<and> view (c\<lparr>mc_db := s\<rparr>) = view_auth (floor_ms now) a (view c)"
      by (erule writes_keeps [where g = "view_auth (floor_ms now) a"]) (simp, rule wf, use auth_docs [OF wf] in blast)
    have q: "quiet docs (mc_db c) s \<Longrightarrow> wf (c\<lparr>mc_db := s\<rparr>) \<and> view (c\<lparr>mc_db := s\<rparr>) = view c"
      by (rule quiet_keeps [OF _ wf])
    show ?thesis
    proof (cases r)
      case (Inl e)
      then show ?thesis using find_update_law [OF call(1)] w q fst by (auto simp: snd)
    next
      case (Inr d)
      then have "writes docs collUsers (\<lambda>ds. \<exists>n d. updates (marsh_doc ?f) (marsh_doc ?u) True (docs (mc_db c) collUsers) n d ds)
          (mc_db c) s"
        using find_update_law [OF call(1)] unfolding writes_def by auto
      with w show ?thesis by (simp add: snd)
    qed
  qed (use wf in \<open>simp add: mongo_UpsertUserOnFirstAuth_def\<close>)
qed

text \<open>Scores.\<close>

lemma score_docs:
  fixes b u :: string and sc :: int64
  defines "F \<equiv> marsh_doc [(''board'', BStr b), (''uid'', BStr u)]"
    and "U \<equiv> marsh_doc [(''$max'', BDoc [(''score'', BInt sc)])]"
  assumes wf: "wf c" and upd: "updates F U True (docs (mc_db c) collLeaderboards) n d ds"
  shows "docs_wf ((docs (mc_db c))(collLeaderboards := ds)) \<and>
      docs_view bc ((docs (mc_db c))(collLeaderboards := ds)) = view_submit b u sc (view c)"
proof -
  let ?k = "(Some (BStr b), Some (BStr u))" and ?ds = "docs (mc_db c) collLeaderboards"
  have entry: "entry_doc x \<longleftrightarrow> (\<exists>b u sc. gm_get x ''board'' = Some (BStr b) \<and> gm_get x ''uid'' = Some (BStr u)
      \<and> gm_get x ''score'' = Some (BInt sc))" for x
    by (auto simp: entry_doc_def rank_doc_def has_str_def intro: rank.sel exI [of _ "Rank _ _"])
  have old: "gm_get (apply_update False U x) j =
      (if j = ''score'' then Some (BInt (best_score sc (Some cur))) else gm_get x j)"
    if "gm_get x ''score'' = Some (BInt cur)" for x j cur
    using that by (auto simp: U_def apply_update_def best_score_def)
  have new: "gm_get (insert_doc i (apply_update True U (seed F))) j =
      (if j = ''score'' then Some (BInt sc) else if j = ''board'' then Some (BStr b)
       else if j = ''uid'' then Some (BStr u) else if j = ''_id'' then Some i else None)" for i j
    by (simp add: U_def F_def seed_def apply_update_def)
  have k: "kdocs entry_key entry_doc ?ds"
    using wf by (simp add: mongo_wf_def docs_wf_def)
  have sel: "selects entry_key entry_doc F ?k" unfolding F_def by (simp add: selects_entry)
  have "kdocs entry_key entry_doc ds \<and> look entry_key ds = (look entry_key ?ds)(?k \<mapsto> d) \<and>
    (case look entry_key ?ds ?k of
       Some x \<Rightarrow> d = apply_update False U x
     | None \<Rightarrow> \<exists>i. d = insert_doc i (apply_update True U (seed F)))"
  proof (rule updates_keyed [OF k sel upd])
    fix x assume "entry_doc x" "entry_key x = ?k"
    then show "entry_doc (apply_update False U x) \<and> entry_key (apply_update False U x) = ?k"
      by (auto simp: entry entry_key_def old)
  next
    fix i show "entry_doc (insert_doc i (apply_update True U (seed F)))
        \<and> entry_key (insert_doc i (apply_update True U (seed F))) = ?k"
      by (simp add: entry entry_key_def new del: insert_doc_get)
  qed
  then have ds: "kdocs entry_key entry_doc ds" "look entry_key ds = (look entry_key ?ds)(?k \<mapsto> d)"
    and d: "case look entry_key ?ds ?k of
       Some x \<Rightarrow> d = apply_update False U x
     | None \<Rightarrow> \<exists>i. d = insert_doc i (apply_update True U (seed F))"
    by blast+
  have rank: "decoded (of_rank bc) x = Some (Rank v s)"
    if "gm_get x ''uid'' = Some (BStr v)" "gm_get x ''score'' = Some (BInt s)" for x v s
    using rank_dec [of x "Rank v s"] that by (simp add: decoded_def rank_doc_def has_str_def)
  have "map_option r_score (decoded (of_rank bc) d) = Some (best_score sc (v_boards (view c) b u))"
  proof (cases "look entry_key ?ds ?k")
    case None
    with d obtain i where "d = insert_doc i (apply_update True U (seed F))" by auto
    then have "gm_get d ''uid'' = Some (BStr u)" "gm_get d ''score'' = Some (BInt sc)"
      using new [of i "''uid''"] new [of i "''score''"] by (simp_all del: insert_doc_get)
    from rank [OF this] None show ?thesis by (simp add: mongo_view_def docs_view_def best_score_def)
  next
    case (Some x)
    then have "entry_doc x" "entry_key x = ?k" using look_good [OF k] by blast+
    then obtain cur where cur: "gm_get x ''score'' = Some (BInt cur)" "gm_get x ''uid'' = Some (BStr u)"
      by (auto simp: entry entry_key_def)
    then have "v_boards (view c) b u = Some cur"
      using Some rank [OF cur(2,1)] by (simp add: mongo_view_def docs_view_def)
    with d Some old [OF cur(1)] cur show ?thesis
      using rank [of d u "best_score sc (Some cur)"] by simp
  qed
  with wf ds show ?thesis
    by (auto simp: mongo_wf_def docs_wf_def mongo_view_def docs_view_def view_submit_def coll_defs fun_eq_iff)
qed

lemma submit_write: "write_op view wf (view_submit b u sc) (mongo_SubmitScore dr b u sc)"
proof (rule write_opI)
  fix c assume wf: "wf c"
  let ?f = "[(''board'', BStr b), (''uid'', BStr u)]" and ?u = "[(''$max'', BDoc [(''score'', BInt sc)])]"
  let ?r = "mongo_SubmitScore dr b u sc c"
  show "wf (snd ?r) \<and> (view (snd ?r) = view_submit b u sc (view c) \<or>
      view (snd ?r) = view c \<and> (\<exists>e. fst ?r = Inl e))"
  proof (cases "mc_open c")
    case True
    obtain r s where call: "dr_UpdateOne dr collLeaderboards ?f ?u True (mc_db c) = (r, s)"
      "on_db (dr_UpdateOne dr collLeaderboards ?f ?u True) c = (r, c\<lparr>mc_db := s\<rparr>)" by (rule on_dbE)
    have w: "writes docs collLeaderboards
          (\<lambda>ds. \<exists>n d. updates (marsh_doc ?f) (marsh_doc ?u) True (docs (mc_db c) collLeaderboards) n d ds)
          (mc_db c) s \<Longrightarrow> wf (c\<lparr>mc_db := s\<rparr>) \<and> view (c\<lparr>mc_db := s\<rparr>) = view_submit b u sc (view c)"
      by (erule writes_keeps [where g = "view_submit b u sc"]) (simp, rule wf, use score_docs [OF wf] in blast)
    have q: "quiet docs (mc_db c) s \<Longrightarrow> wf (c\<lparr>mc_db := s\<rparr>) \<and> view (c\<lparr>mc_db := s\<rparr>) = view c"
      by (rule quiet_keeps [OF _ wf])
    have ok: "r = Inr n \<Longrightarrow> writes docs collLeaderboards
          (\<lambda>ds. \<exists>n d. updates (marsh_doc ?f) (marsh_doc ?u) True (docs (mc_db c) collLeaderboards) n d ds) (mc_db c) s" for n
      using update_law [OF call(1)] unfolding writes_def by auto
    show ?thesis
      using update_law [OF call(1)] w q ok True
      by (cases r) (auto simp: mongo_SubmitScore_def call(2))
  qed (use wf in \<open>simp add: mongo_SubmitScore_def\<close>)
qed

text \<open>Lookups.\<close>

lemma find_one_lookup:
  assumes coll: "coll \<notin> ttl_collections"
    and docs: "\<And>c. wf c \<Longrightarrow> kdocs key good (docs (mc_db c) coll)"
    and sel: "selects key good (marsh_doc filt) k"
    and look: "\<And>c. look_v (view c) = Option.bind (look key (docs (mc_db c) coll) k) (decoded dec)"
    and dec: "\<And>d. good d \<Longrightarrow> \<exists>x. dec d = Inr x"
  shows "lookup_op view wf look_v (find_one dr dec msg coll filt)"
proof -
  have "wf (snd (find_one dr dec msg coll filt c)) \<and> view (snd (find_one dr dec msg coll filt c)) = view c \<and>
      (case fst (find_one dr dec msg coll filt c) of
         Inr x \<Rightarrow> look_v (view c) = Some x
       | Inl e \<Rightarrow> errors_is e ErrNotFound \<longrightarrow> look_v (view c) = None)" if wf: "wf c" for c
  proof (cases "mc_open c")
    case True
    obtain r s where call: "dr_FindOne dr coll filt (mc_db c) = (r, s)"
      "on_db (dr_FindOne dr coll filt) c = (r, c\<lparr>mc_db := s\<rparr>)" by (rule on_dbE)
    note law = find_one_law [OF call(1)]
    have keep: "wf (c\<lparr>mc_db := s\<rparr>) \<and> view (c\<lparr>mc_db := s\<rparr>) = view c"
      using quiet_keeps [OF _ wf] law by blast
    have same: "docs s coll = docs (mc_db c) coll"
      using law coll by (auto simp: quiet_def settles_def)
    note k = docs [OF wf]
    show ?thesis
    proof (cases r)
      case (Inl e)
      have "look_v (view c) = None" if "errors_is e (dr_ErrNoDocuments dr)"
      proof -
        have "\<forall>d \<in> set (docs (mc_db c) coll). key d \<noteq> k"
          using law Inl that same sel k by (auto simp: selects_def kdocs_def)
        then have "look key (docs (mc_db c) coll) k = None" by (auto simp: look_None)
        then show ?thesis by (simp add: look)
      qed
      with Inl law keep show ?thesis
        using True by (auto simp: find_one_def call(2) driver_error_def)
    next
      case (Inr d)
      then have d: "d \<in> set (docs (mc_db c) coll)" "good d" "key d = k"
        using law sel k by (auto simp: selects_def kdocs_def)
      then obtain x where x: "dec d = Inr x" using dec by blast
      have "look key (docs (mc_db c) coll) k = Some d" using d k by (simp add: look_Some)
      then have "look_v (view c) = Some x" by (simp add: look decoded_def x)
      with keep show ?thesis using True by (simp add: find_one_def call(2) Inr x)
    qed
  qed (use wf in \<open>simp add: find_one_def\<close>)
  then show ?thesis by (simp add: lookup_op_def read_op_def)
qed

lemma user_lookup: "lookup_op view wf (\<lambda>v. v_users v u) (mongo_GetUser dr bc u)"
  unfolding mongo_GetUser_def
  by (rule find_one_lookup [where key = uid_key and good = "\<lambda>d. \<exists>u. user_doc d u" and k = "Some (BStr u)"])
    (use user_dec in \<open>auto simp: mongo_wf_def docs_wf_def mongo_view_def docs_view_def selects_uid\<close>)

lemma puzzle_lookup: "lookup_op view wf (\<lambda>v. v_puzzles v d) (mongo_GetPuzzle dr bc d)"
  unfolding mongo_GetPuzzle_def
  by (rule find_one_lookup [where key = id_key and good = "\<lambda>d. \<exists>p. puzzle_doc d p" and k = "Some (BStr d)"])
    (use puzzle_dec in \<open>auto simp: mongo_wf_def docs_wf_def mongo_view_def docs_view_def selects_puzzle\<close>)

lemma attempt_lookup: "lookup_op view wf (\<lambda>v. v_attempts v u d) (mongo_GetAttempt dr bc u d)"
  unfolding mongo_GetAttempt_def
  by (rule find_one_lookup [where key = attempt_key and good = "\<lambda>d. \<exists>a. attempt_doc d a"
        and k = "(Some (BStr u), Some (BStr d))"])
    (use attempt_dec in \<open>auto simp: mongo_wf_def docs_wf_def mongo_view_def docs_view_def selects_attempt\<close>)

lemma match_lookup: "lookup_op view wf (\<lambda>v. v_matches v i) (mongo_GetMatch dr bc i)"
  unfolding mongo_GetMatch_def
  by (rule find_one_lookup [where key = id_key and good = "\<lambda>d. \<exists>m. match_doc d m" and k = "Some (BStr i)"])
    (use match_dec in \<open>auto simp: mongo_wf_def docs_wf_def mongo_view_def docs_view_def selects_match\<close>)

lemma ping_read: "read_op view wf (mongo_Ping dr)"
proof -
  have "wf (snd (mongo_Ping dr c)) \<and> view (snd (mongo_Ping dr c)) = view c" if wf: "wf c" for c
  proof (cases "mc_open c")
    case True
    obtain r s where "dr_Ping dr (mc_db c) = (r, s)" "on_db (dr_Ping dr) c = (r, c\<lparr>mc_db := s\<rparr>)" by (rule on_dbE)
    then show ?thesis using True quiet_keeps [OF ping_law wf] by (simp add: mongo_Ping_def)
  qed (use wf in \<open>simp add: mongo_Ping_def\<close>)
  then show ?thesis by (simp add: read_op_def)
qed

text \<open>The best rows of a board.\<close>

lemma collect_decoded:
  "(\<And>d. d \<in> set ds \<Longrightarrow> decode (g d) = Inr (f d))
     \<Longrightarrow> collect decode m1 m2 (map g ds) None out = Inr (out @ map f ds)"
  by (induction ds arbitrary: out) simp_all

lemma map_of_project:
  "gm_get (project p d) k = (if p = [] \<or> gm_get p k = Some (BInt 1) then gm_get d k else None)"
  by (induction d) (auto simp: project_def)

lemma top_rows:
  assumes wf: "wf c" and "0 < n"
    and find: "find_result (marsh_doc [(''board'', BStr b)])
          \<lparr>fo_sort = [(''score'', BInt (-1))], fo_limit = n,
           fo_projection = [(''uid'', BInt 1), (''score'', BInt 1), (''_id'', BInt 0)]\<rparr>
          (docs (mc_db c) collLeaderboards) out"
  shows "\<exists>rows. collect (of_rank bc) m1 m2 out None [] = Inr rows \<and> is_top_n (v_boards (view c) b) n rows"
proof -
  let ?ds = "docs (mc_db c) collLeaderboards" and ?p = "[(''uid'', BInt 1), (''score'', BInt 1), (''_id'', BInt 0)]"
  obtain found where found: "mset found = mset (filter (matches [(''board'', BStr b)]) ?ds)"
    "sorted_docs [(''score'', BInt (-1))] found" "out = map (project ?p) (take (nat n) found)"
    using find assms(2) by (auto simp: find_result_def)
  have k: "kdocs entry_key entry_doc ?ds" using wf by (simp add: mongo_wf_def docs_wf_def)
  note rows = found_rows [OF k found(1,2)]
  have rank: "rank_doc d (row_of d)" if "d \<in> set found" for d
  proof -
    have "set found \<subseteq> set ?ds" using mset_eq_setD [OF found(1)] by auto
    then show ?thesis using that k entry_row by (auto simp: kdocs_def)
  qed
  have "of_rank bc (project ?p d) = Inr (row_of d)" if "d \<in> set found" for d
    using rank [OF that] by (intro rank_dec) (simp add: rank_doc_def has_str_def map_of_project)
  then have "collect (of_rank bc) m1 m2 out None [] = Inr (map row_of (take (nat n) found))"
    unfolding found(3)
    using collect_decoded [of "take (nat n) found" "of_rank bc" "project ?p" row_of m1 m2 "[]"]
    by (auto dest: in_set_takeD)
  moreover have "v_boards (view c) b u = Some sc \<longleftrightarrow> Rank u sc \<in> set (map row_of found)" for u sc
  proof -
    have "decoded (of_rank bc) d = Some (row_of d) \<and> r_uid (row_of d) = u"
      if "look entry_key ?ds (Some (BStr b), Some (BStr u)) = Some d" for d
    proof -
      have d: "entry_doc d" "entry_key d = (Some (BStr b), Some (BStr u))" using look_good [OF k that] by blast+
      with entry_row [OF d(1)] show ?thesis
        by (auto simp: decoded_def rank_dec rank_doc_def has_str_def entry_key_def)
    qed
    then show ?thesis
      unfolding rows(3)
      by (cases "look entry_key ?ds (Some (BStr b), Some (BStr u))")
        (auto simp: mongo_view_def docs_view_def rank.expand dest: arg_cong [where f = r_score])
  qed
  ultimately show ?thesis
    using is_top_n_take [OF rows(1,2) _ assms(2), of "v_boards (view c) b"]
    by (simp add: take_map)
qed

lemma topN_law:
  assumes "wf c"
  shows "wf (snd (mongo_TopN dr bc b n c)) \<and> view (snd (mongo_TopN dr bc b n c)) = view c \<and>
    (0 < n \<longrightarrow> fst (mongo_TopN dr bc b n c) = Inr rows \<longrightarrow> is_top_n (v_boards (view c) b) n rows)"
proof (cases "mc_open c \<and> 0 < n")
  case True
  let ?f = "[(''board'', BStr b)]" and ?o = "\<lparr>fo_sort = [(''score'', BInt (-1))], fo_limit = n,
           fo_projection = [(''uid'', BInt 1), (''score'', BInt 1), (''_id'', BInt 0)]\<rparr>"
  obtain r s where call: "dr_Find dr collLeaderboards ?f ?o (mc_db c) = (r, s)"
    "on_db (dr_Find dr collLeaderboards ?f ?o) c = (r, c\<lparr>mc_db := s\<rparr>)" by (rule on_dbE)
  note law = find_law [OF call(1)]
  have keep: "wf (c\<lparr>mc_db := s\<rparr>) \<and> view (c\<lparr>mc_db := s\<rparr>) = view c"
    using quiet_keeps [OF _ assms] law by blast
  show ?thesis
  proof (cases "\<exists>out ce. r = Inr (out, None, ce)")
    case True
    then obtain out ce where r: "r = Inr (out, None, ce)" by blast
    with law have "find_result (marsh_doc ?f) ?o (docs (mc_db c) collLeaderboards) out"
      by (auto simp: settles_def)
    from top_rows [OF assms _ this, of "''mongodb: top N decode''" "''mongodb: top N cursor''"]
    show ?thesis
      using \<open>mc_open c \<and> 0 < n\<close> keep r by (auto simp: mongo_TopN_def call(2))
  next
    case False
    have err: "collect f m1 m2 ds (Some e) out \<noteq> Inr rows" for f m1 m2 ds e out and rows :: "rank list"
      by (induction ds arbitrary: out) (auto split: sum.split)
    from False show ?thesis
      using \<open>mc_open c \<and> 0 < n\<close> keep err
      by (cases r) (auto simp: mongo_TopN_def call(2) split: prod.splits option.splits)
  qed
qed (use assms in \<open>auto simp: mongo_TopN_def\<close>)

text \<open>All laws of the contract.\<close>

lemma store_contract: "store_laws (mongo_ops dr bc) view wf floor_ms"
proof
  fix s b n rows
  assume "wf s" "0 < n" "fst (st_TopN (mongo_ops dr bc) b n s) = Inr rows"
  then show "is_top_n (v_boards (view s) b) n rows" using topN_law [of s b n rows] by simp
next
  fix b n show "read_op view wf (st_TopN (mongo_ops dr bc) b n)"
    using topN_law by (simp add: read_op_def)
qed (simp_all add: auth_write put_puzzle_write put_attempt_write put_match_write submit_write
    user_lookup puzzle_lookup attempt_lookup match_lookup ping_read)

end

end
