(* ===== verification/Mongo_Ref.thy ===== *)
theory Mongo_Ref
  imports Mongo_Laws
begin

text \<open>
  A concrete driver: a database in memory, a list of documents per collection, with the struct
  tags read literally. It shows that the documented behaviour that \<open>mongo_driver\<close> states can be
  had, and it is the database of the concrete runs. It is not a model of MongoDB.
\<close>

section \<open>The database\<close>

type_synonym mem_db = "string \<Rightarrow> doc list"

definition no_documents :: go_error where
  "no_documents = ErrText ''mongo: no documents in result''"

fun change_first :: "(doc \<Rightarrow> bool) \<Rightarrow> (doc \<Rightarrow> doc) \<Rightarrow> doc list \<Rightarrow> (doc \<times> doc list) option" where
  "change_first P g [] = None"
| "change_first P g (d # ds) =
     (if P d then Some (g d, g d # ds) else map_option (map_prod id (Cons d)) (change_first P g ds))"

lemma change_first_Some:
  "change_first P g ds = Some (r, ds') \<Longrightarrow> \<exists>xs old ys. ds = xs @ old # ys \<and> P old \<and> r = g old \<and> ds' = xs @ r # ys"
proof (induction ds arbitrary: r ds')
  case (Cons d ds)
  show ?case
  proof (cases "P d")
    case True
    with Cons.prems show ?thesis by (intro exI [of _ "[]"] exI [of _ d] exI [of _ ds]) auto
  next
    case False
    with Cons.prems obtain ds1 where "change_first P g ds = Some (r, ds1)" "ds' = d # ds1" by auto
    with Cons.IH obtain xs old ys where "ds = xs @ old # ys" "P old" "r = g old" "ds1 = xs @ r # ys" by blast
    with \<open>ds' = d # ds1\<close> show ?thesis by (intro exI [of _ "d # xs"] exI [of _ old] exI [of _ ys]) simp
  qed
qed simp

lemma change_first_None: "change_first P g ds = None \<longleftrightarrow> (\<forall>d \<in> set ds. \<not> P d)"
  by (induction ds) auto

definition fresh_id :: bson where "fresh_id = BStr ''new''"

definition ref_update :: "string \<Rightarrow> doc \<Rightarrow> doc \<Rightarrow> bool \<Rightarrow> mem_db \<Rightarrow> (nat \<times> doc) \<times> mem_db" where
  "ref_update c f upd ups s =
     (let f = marsh_doc f; upd = marsh_doc upd
      in case change_first (matches f) (apply_update False upd) (s c) of
           Some (d, ds) \<Rightarrow> ((1, d), s(c := ds))
         | None \<Rightarrow>
             (let d = insert_doc fresh_id (apply_update True upd (seed f))
              in ((0, d), if ups then s(c := s c @ [d]) else s)))"

lemma ref_update_updates:
  "ref_update c f upd ups s = ((n, d), s') \<Longrightarrow> updates (marsh_doc f) (marsh_doc upd) ups (s c) n d (s' c)
     \<and> (\<forall>c'. c' \<noteq> c \<longrightarrow> s' c' = s c')"
proof -
  assume R: "ref_update c f upd ups s = ((n, d), s')"
  show ?thesis
  proof (cases "change_first (matches (marsh_doc f)) (apply_update False (marsh_doc upd)) (s c)")
    case None
    then have "\<forall>x \<in> set (s c). \<not> matches (marsh_doc f) x" by (simp add: change_first_None)
    with R None show ?thesis by (auto simp: ref_update_def Let_def updates_def split: if_splits)
  next
    case (Some p)
    obtain r ds' where p: "p = (r, ds')" by (cases p)
    from change_first_Some [OF Some [unfolded p]] obtain xs old ys
      where "s c = xs @ old # ys" "matches (marsh_doc f) old" "r = apply_update False (marsh_doc upd) old"
        "ds' = xs @ r # ys" by blast
    moreover from R Some p have "n = 1" "d = r" "s' = s(c := ds')"
      by (auto simp: ref_update_def Let_def)
    ultimately show ?thesis unfolding updates_def by fastforce
  qed
qed

lemma ref_update_matched: "ref_update c f upd ups s = ((n, d), s') \<Longrightarrow> n \<le> 1"
  by (auto simp: ref_update_def Let_def split: option.splits)

definition ref_find :: "string \<Rightarrow> doc \<Rightarrow> find_opts \<Rightarrow> mem_db \<Rightarrow> doc list" where
  "ref_find c f opts s =
     (let ds = filter (matches (marsh_doc f)) (s c);
          ds = (case fo_sort opts of
                  [(k, _)] \<Rightarrow> sort_key (\<lambda>d. - sort_value (gm_get d k)) ds
                | _ \<Rightarrow> ds)
      in map (project (fo_projection opts)) (if fo_limit opts = 0 then ds else take (nat (fo_limit opts)) ds))"

lemma ref_find_result: "find_result (marsh_doc f) opts (s c) (ref_find c f opts s)"
proof -
  let ?ds = "filter (matches (marsh_doc f)) (s c)"
  define found where "found = (case fo_sort opts of
                  [(k, _)] \<Rightarrow> sort_key (\<lambda>d. - sort_value (gm_get d k)) ?ds
                | _ \<Rightarrow> ?ds)"
  have "mset found = mset ?ds"
    by (auto simp: found_def split: list.split prod.split)
  moreover have "sorted_docs (fo_sort opts) found"
  proof -
    have "sorted_wrt (\<lambda>d d'. sort_value (gm_get d' k) \<le> sort_value (gm_get d k))
        (sort_key (\<lambda>d. - sort_value (gm_get d k)) ?ds)" for k
    proof -
      have "sorted (map (\<lambda>d. - sort_value (gm_get d k)) (sort_key (\<lambda>d. - sort_value (gm_get d k)) ?ds))" by simp
      then show ?thesis by (simp add: sorted_wrt_map)
    qed
    then show ?thesis by (auto simp: sorted_docs_def found_def)
  qed
  moreover have "ref_find c f opts s =
      map (project (fo_projection opts)) (if fo_limit opts = 0 then found else take (nat (fo_limit opts)) found)"
    by (simp add: ref_find_def found_def Let_def)
  ultimately show ?thesis unfolding find_result_def by blast
qed

definition ref_driver :: "mem_db driver" where
  "ref_driver =
     \<lparr>dr_ErrNoDocuments = no_documents,
      dr_FindOne = (\<lambda>c f s. (case find (matches (marsh_doc f)) (s c) of Some d \<Rightarrow> Inr d | None \<Rightarrow> Inl no_documents, s)),
      dr_FindOneAndUpdate = (\<lambda>c f upd s. (case ref_update c f upd True s of ((n, d), s) \<Rightarrow> (Inr d, s))),
      dr_UpdateOne = (\<lambda>c f upd ups s. (case ref_update c f upd ups s of ((n, d), s) \<Rightarrow> (Inr (of_nat n), s))),
      dr_ReplaceOne = (\<lambda>c f new ups s.
        (case change_first (matches (marsh_doc f)) (\<lambda>old. replacement old new) (s c) of
           Some (d, ds) \<Rightarrow> (Inr (), s(c := ds))
         | None \<Rightarrow> (Inr (), if ups then s(c := s c @ [insert_doc fresh_id (replacement (seed (marsh_doc f)) new)])
                            else s))),
      dr_CountDocuments = (\<lambda>c f s.
        (let n = length (filter (matches (marsh_doc f)) (s c))
         in if int n < 2 ^ 63 then Inr (word_of_int (int n)) else Inl (ErrText ''too many''), s)),
      dr_Find = (\<lambda>c f opts s. (Inr (ref_find c f opts s, None, None), s)),
      dr_CreateOne = (\<lambda>c ix s. (Inr (), s)),
      dr_Ping = (\<lambda>s. (Inr (), s)),
      dr_Disconnect = (\<lambda>s. (Inr (), s))\<rparr>"

section \<open>Structs\<close>

fun the_str :: "bson option \<Rightarrow> string" where "the_str (Some (BStr s)) = s" | "the_str _ = []"
fun the_int :: "bson option \<Rightarrow> int64" where "the_int (Some (BInt n)) = n" | "the_int _ = 0"
fun the_bool :: "bson option \<Rightarrow> bool" where "the_bool (Some (BBool b)) = b" | "the_bool _ = False"
fun the_time :: "bson option \<Rightarrow> gotime" where "the_time (Some (BTime t)) = t" | "the_time _ = 0"
fun the_bin :: "bson option \<Rightarrow> bytes" where "the_bin (Some (BBin bs)) = bs" | "the_bin _ = []"
fun the_strs :: "bson option \<Rightarrow> string list" where
  "the_strs (Some (BArr vs)) = map (\<lambda>v. the_str (Some v)) vs" | "the_strs _ = []"

definition ref_codec :: bson_codec where
  "ref_codec =
     \<lparr>bs_puzzle = (\<lambda>p. [(''_id'', BStr (p_date p)), (''word'', BStr (p_word p)), (''hint'', BStr (p_hint p)),
                       (''difficulty'', BInt (p_difficulty p))]),
      bs_attempt = (\<lambda>a. [(''uid'', BStr (a_uid a)), (''puzzleDate'', BStr (a_date a)),
                        (''guesses'', BArr (map BStr (a_guesses a))), (''won'', BBool (a_won a)),
                        (''score'', BInt (a_score a)), (''completedAt'', BTime (floor_ms (a_completed a))),
                        (''inProgress'', BBool (a_in_progress a))]),
      bs_match = (\<lambda>m. [(''_id'', BStr (m_id m)), (''players'', BArr (map BStr (m_players m))),
                      (''mode'', BStr (m_mode m)), (''puzzleDate'', BStr (m_date m)), (''state'', BStr (m_state m)),
                      (''turns'', BInt (m_turns m)), (''winner'', BStr (m_winner m)),
                      (''createdAt'', BTime (floor_ms (m_created m))), (''endedAt'', BTime (floor_ms (m_ended m)))]),
      of_user = (\<lambda>d. Inr \<lparr>u_uid = the_str (gm_get d ''uid''), u_email = the_str (gm_get d ''email''),
                     u_name = the_str (gm_get d ''displayName''), u_provider = the_str (gm_get d ''provider''),
                     u_beta = the_bool (gm_get d ''isBetaTester''), u_beta_at = the_time (gm_get d ''betaSignupAt''),
                     u_created = the_time (gm_get d ''createdAt''), u_last_seen = the_time (gm_get d ''lastSeen'')\<rparr>),
      of_puzzle = (\<lambda>d. Inr \<lparr>p_date = the_str (gm_get d ''_id''), p_word = the_str (gm_get d ''word''),
                     p_hint = the_str (gm_get d ''hint''), p_difficulty = the_int (gm_get d ''difficulty'')\<rparr>),
      of_attempt = (\<lambda>d. Inr \<lparr>a_uid = the_str (gm_get d ''uid''), a_date = the_str (gm_get d ''puzzleDate''),
                     a_guesses = the_strs (gm_get d ''guesses''), a_won = the_bool (gm_get d ''won''),
                     a_score = the_int (gm_get d ''score''), a_completed = the_time (gm_get d ''completedAt''),
                     a_in_progress = the_bool (gm_get d ''inProgress'')\<rparr>),
      of_match = (\<lambda>d. Inr \<lparr>m_id = the_str (gm_get d ''_id''), m_players = the_strs (gm_get d ''players''),
                     m_mode = the_str (gm_get d ''mode''), m_date = the_str (gm_get d ''puzzleDate''),
                     m_state = the_str (gm_get d ''state''), m_turns = the_int (gm_get d ''turns''),
                     m_winner = the_str (gm_get d ''winner''), m_created = the_time (gm_get d ''createdAt''),
                     m_ended = the_time (gm_get d ''endedAt'')\<rparr>),
      of_rank = (\<lambda>d. Inr (Rank (the_str (gm_get d ''uid'')) (the_int (gm_get d ''score'')))),
      of_cache = (\<lambda>d. Inr (the_bin (gm_get d ''val'')))\<rparr>"

lemma strs_read [simp]: "(\<lambda>v. the_str (Some v)) \<circ> BStr = id"
  by (simp add: fun_eq_iff)

lemma the_strs_read: "has_strs d k xs \<Longrightarrow> the_strs (gm_get d k) = xs"
  by (auto simp: has_strs_def)

lemma the_opts:
  "has_str d k s \<Longrightarrow> the_str (gm_get d k) = s" "may_str d k s \<Longrightarrow> the_str (gm_get d k) = s"
  "has_time d k t \<Longrightarrow> the_time (gm_get d k) = t" "may_time d k t \<Longrightarrow> the_time (gm_get d k) = t"
  by (auto simp: has_str_def may_str_def has_time_def may_time_def)

lemma quiet_refl: "quiet (\<lambda>s. s) s s"
  by (simp add: quiet_def settles_def)

lemma writes_refl: "P (s' c) \<Longrightarrow> (\<And>c'. c' \<noteq> c \<Longrightarrow> s' c' = s c') \<Longrightarrow> writes (\<lambda>s. s) c P s s'"
  by (auto simp: writes_def settles_def)

lemma ref_writes:
  "ref_update c f upd ups s = ((n, d), s') \<Longrightarrow>
     writes (\<lambda>s. s) c (\<lambda>ds. updates (marsh_doc f) (marsh_doc upd) ups (s c) n d ds) s s'"
  by (drule ref_update_updates) (rule writes_refl; simp)

lemma ref_replaces:
  assumes "dr_ReplaceOne ref_driver c f new ups s = (rr, s')"
  shows "(\<exists>u. rr = Inr u) \<and> writes (\<lambda>s. s) c (replaces (marsh_doc f) new ups (s c)) s s'"
proof (cases "change_first (matches (marsh_doc f)) (\<lambda>old. replacement old new) (s c)")
  case None
  then have "\<forall>x \<in> set (s c). \<not> matches (marsh_doc f) x" by (simp add: change_first_None)
  with assms None show ?thesis
    by (auto simp: ref_driver_def replaces_def intro!: writes_refl split: if_splits)
next
  case (Some p)
  obtain r ds' where p: "p = (r, ds')" by (cases p)
  from change_first_Some [OF Some [unfolded p]] obtain xs old ys
    where "s c = xs @ old # ys" "matches (marsh_doc f) old" "r = replacement old new" "ds' = xs @ r # ys" by blast
  moreover from assms Some p have "s' = s(c := ds')" "rr = Inr ()" by (auto simp: ref_driver_def)
  ultimately have "replaces (marsh_doc f) new ups (s c) (s' c)" "\<And>c'. c' \<noteq> c \<Longrightarrow> s' c' = s c'"
    unfolding replaces_def by fastforce+
  with \<open>rr = Inr ()\<close> show ?thesis by (simp add: writes_refl)
qed

lemma driver_texts: "driver_error no_documents" "driver_error (ErrText s)"
  by (auto simp: driver_error_def no_documents_def)

section \<open>The laws hold\<close>

interpretation ref: mongo_driver ref_driver ref_codec "\<lambda>s. s"
proof
  fix c f s and r :: "doc res" and s'
  assume "dr_FindOne ref_driver c f s = (r, s')"
  then show "quiet (\<lambda>s. s) s s' \<and>
        (case r of
           Inr d \<Rightarrow> d \<in> set (s c) \<and> matches (marsh_doc f) d
         | Inl e \<Rightarrow> driver_error e \<and>
             (errors_is e (dr_ErrNoDocuments ref_driver) \<longrightarrow> (\<forall>d \<in> set (s' c). \<not> matches (marsh_doc f) d)))"
    by (auto simp: ref_driver_def quiet_refl driver_texts find_None_iff find_Some_iff split: option.splits)
next
  fix c f upd s and ru :: "doc res" and s'
  assume "dr_FindOneAndUpdate ref_driver c f upd s = (ru, s')"
  then obtain n d where "ref_update c f upd True s = ((n, d), s')" "ru = Inr d"
    by (auto simp: ref_driver_def split: prod.splits)
  then show "case ru of
           Inr d \<Rightarrow> writes (\<lambda>s. s) c (\<lambda>ds. \<exists>n. updates (marsh_doc f) (marsh_doc upd) True (s c) n d ds) s s'
         | Inl e \<Rightarrow> driver_error e \<and>
             (quiet (\<lambda>s. s) s s' \<or>
              writes (\<lambda>s. s) c (\<lambda>ds. \<exists>n d. updates (marsh_doc f) (marsh_doc upd) True (s c) n d ds) s s')"
    by (auto simp: writes_def dest!: ref_writes) blast+
next
  fix c f upd ups s and rn :: "int64 res" and s'
  assume "dr_UpdateOne ref_driver c f upd ups s = (rn, s')"
  then obtain n d where R: "ref_update c f upd ups s = ((n, d), s')" and "rn = Inr (of_nat n)"
    by (auto simp: ref_driver_def split: prod.splits)
  moreover have "unat (of_nat n :: int64) = n"
    using ref_update_matched [OF R] by (cases n) auto
  ultimately show "case rn of
           Inr n \<Rightarrow> writes (\<lambda>s. s) c (\<lambda>ds. \<exists>d. updates (marsh_doc f) (marsh_doc upd) ups (s c) (unat n) d ds) s s'
         | Inl e \<Rightarrow> driver_error e \<and>
             (quiet (\<lambda>s. s) s s' \<or>
              writes (\<lambda>s. s) c (\<lambda>ds. \<exists>n d. updates (marsh_doc f) (marsh_doc upd) ups (s c) n d ds) s s')"
    by (auto simp: writes_def dest!: ref_writes) blast+
next
  fix c f new ups s and rr :: "unit res" and s'
  assume "dr_ReplaceOne ref_driver c f new ups s = (rr, s')"
  then show "case rr of
           Inr _ \<Rightarrow> writes (\<lambda>s. s) c (replaces (marsh_doc f) new ups (s c)) s s'
         | Inl e \<Rightarrow> driver_error e \<and>
             (quiet (\<lambda>s. s) s s' \<or> writes (\<lambda>s. s) c (replaces (marsh_doc f) new ups (s c)) s s')"
    by (auto dest!: ref_replaces)
next
  fix c :: string and f and s :: mem_db and rc :: "int64 res" and s'
  let ?n = "length (filter (matches (marsh_doc f)) (s c))"
  assume C: "dr_CountDocuments ref_driver c f s = (rc, s')"
  have "sint (word_of_int (int ?n) :: int64) = int ?n" if "int ?n < 2 ^ 63"
    using that unfolding int_word_sint by (simp del: of_int_of_nat_eq)
  with C show "quiet (\<lambda>s. s) s s' \<and>
        (case rc of
           Inr n \<Rightarrow> \<exists>ds. settles c (s c) ds \<and> settles c ds (s' c)
                      \<and> sint n = int (length (filter (matches (marsh_doc f)) ds))
         | Inl e \<Rightarrow> driver_error e)"
    by (auto simp: ref_driver_def quiet_refl driver_texts Let_def settles_def split: if_splits)
next
  fix c f opts s and rf :: "(doc list \<times> go_error option \<times> go_error option) res" and s'
  assume "dr_Find ref_driver c f opts s = (rf, s')"
  then have "rf = Inr (ref_find c f opts s, None, None)" "s' = s" by (auto simp: ref_driver_def)
  then show "quiet (\<lambda>s. s) s s' \<and>
        (case rf of
           Inr (out, None, _) \<Rightarrow> \<exists>ds. settles c (s c) ds \<and> find_result (marsh_doc f) opts ds out
         | Inr (out, Some e, _) \<Rightarrow> driver_error e
         | Inl e \<Rightarrow> driver_error e)"
    using ref_find_result [of f opts s c] by (auto simp: quiet_refl settles_def)
qed (auto simp: ref_driver_def ref_codec_def quiet_refl struct_docs the_opts the_strs_read has_str_def may_str_def
    has_strs_def has_time_def may_time_def timed_attempt_def timed_match_def)

end
