(* ===== verification/Mem_Store.thy ===== *)
theory Mem_Store
  imports Store_Types
begin

text \<open>
  The in-memory store, package \<open>memstore\<close> (\<open>server/internal/store/memstore/memstore.go\<close>): one
  definition per method of \<open>*Store\<close>. The mutex makes every method atomic, so a method is a
  function on the state. The clock \<open>s.now\<close> is not a field: each method reads it at most once
  and takes the reading as its argument. A method that ranges over a map takes the order in
  which the map is visited (\<open>ord\<close>).

  After the operations: the invariant that ties every map key to its document, that every
  operation keeps it, and the interpretation of the store contract on these definitions.
\<close>

section \<open>State and operations\<close>

record cache_entry =
  ce_val :: bytes
  ce_expiry :: gotime

record mem_store =
  ms_users :: "user gomap"
  ms_puzzles :: "puzzle gomap"
  ms_attempts :: "attempt gomap"
  ms_matches :: "game_match gomap"
  ms_leaderboards :: "int64 gomap gomap"
  ms_presence :: "gotime gomap"
  ms_cache :: "cache_entry gomap"
  ms_closed :: bool

definition mem_New :: mem_store where
  "mem_New = \<lparr>ms_users = [], ms_puzzles = [], ms_attempts = [], ms_matches = [],
     ms_leaderboards = [], ms_presence = [], ms_cache = [], ms_closed = False\<rparr>"

definition attemptKey :: "string \<Rightarrow> string \<Rightarrow> string" where
  "attemptKey uid date = uid @ ''::'' @ date"

definition mem_UpsertUserOnFirstAuth ::
  "gotime \<Rightarrow> auth_claims \<Rightarrow> mem_store \<Rightarrow> user res \<times> mem_store"
where [store_op_defs]:
  "mem_UpsertUserOnFirstAuth now claims s =
     (if ms_closed s then (Inl ErrClosed, s)
      else (case gm_get (ms_users s) (c_uid claims) of
              Some u \<Rightarrow>
                let u' = u\<lparr>u_email := c_email claims, u_name := c_name claims,
                           u_provider := c_provider claims, u_last_seen := now\<rparr>
                in (Inr u', s\<lparr>ms_users := gm_put (c_uid claims) u' (ms_users s)\<rparr>)
            | None \<Rightarrow>
                let u' = \<lparr>u_uid = c_uid claims, u_email = c_email claims, u_name = c_name claims,
                          u_provider = c_provider claims, u_beta = True, u_beta_at = now,
                          u_created = now, u_last_seen = now\<rparr>
                in (Inr u', s\<lparr>ms_users := gm_put (c_uid claims) u' (ms_users s)\<rparr>)))"

definition mem_GetUser :: "string \<Rightarrow> mem_store \<Rightarrow> user res \<times> mem_store"
where [store_op_defs]:
  "mem_GetUser uid s =
     (if ms_closed s then (Inl ErrClosed, s)
      else (case gm_get (ms_users s) uid of
              None \<Rightarrow> (Inl ErrNotFound, s)
            | Some u \<Rightarrow> (Inr u, s)))"

definition mem_TouchLastSeen :: "string \<Rightarrow> gotime \<Rightarrow> mem_store \<Rightarrow> unit res \<times> mem_store"
where [store_op_defs]:
  "mem_TouchLastSeen uid at s =
     (if ms_closed s then (Inl ErrClosed, s)
      else (case gm_get (ms_users s) uid of
              None \<Rightarrow> (Inl ErrNotFound, s)
            | Some u \<Rightarrow>
                (Inr (), s\<lparr>ms_users := gm_put uid (u\<lparr>u_last_seen := at\<rparr>) (ms_users s)\<rparr>)))"

definition mem_GetPuzzle :: "string \<Rightarrow> mem_store \<Rightarrow> puzzle res \<times> mem_store"
where [store_op_defs]:
  "mem_GetPuzzle date s =
     (if ms_closed s then (Inl ErrClosed, s)
      else (case gm_get (ms_puzzles s) date of
              None \<Rightarrow> (Inl ErrNotFound, s)
            | Some p \<Rightarrow> (Inr p, s)))"

definition mem_PutPuzzle :: "puzzle \<Rightarrow> mem_store \<Rightarrow> unit res \<times> mem_store"
where [store_op_defs]:
  "mem_PutPuzzle p s =
     (if ms_closed s then (Inl ErrClosed, s)
      else (Inr (), s\<lparr>ms_puzzles := gm_put (p_date p) p (ms_puzzles s)\<rparr>))"

definition mem_GetAttempt :: "string \<Rightarrow> string \<Rightarrow> mem_store \<Rightarrow> attempt res \<times> mem_store"
where [store_op_defs]:
  "mem_GetAttempt uid date s =
     (if ms_closed s then (Inl ErrClosed, s)
      else (case gm_get (ms_attempts s) (attemptKey uid date) of
              None \<Rightarrow> (Inl ErrNotFound, s)
            | Some a \<Rightarrow> (Inr a, s)))"

definition mem_UpsertAttempt :: "attempt \<Rightarrow> mem_store \<Rightarrow> unit res \<times> mem_store"
where [store_op_defs]:
  "mem_UpsertAttempt a s =
     (if ms_closed s then (Inl ErrClosed, s)
      else (Inr (), s\<lparr>ms_attempts := gm_put (attemptKey (a_uid a) (a_date a)) a (ms_attempts s)\<rparr>))"

definition mem_GetMatch :: "string \<Rightarrow> mem_store \<Rightarrow> game_match res \<times> mem_store"
where [store_op_defs]:
  "mem_GetMatch matchID s =
     (if ms_closed s then (Inl ErrClosed, s)
      else (case gm_get (ms_matches s) matchID of
              None \<Rightarrow> (Inl ErrNotFound, s)
            | Some m \<Rightarrow> (Inr m, s)))"

definition mem_UpsertMatch :: "game_match \<Rightarrow> mem_store \<Rightarrow> unit res \<times> mem_store"
where [store_op_defs]:
  "mem_UpsertMatch m s =
     (if ms_closed s then (Inl ErrClosed, s)
      else (Inr (), s\<lparr>ms_matches := gm_put (m_id m) m (ms_matches s)\<rparr>))"

text \<open>\<open>if n > 0 && len(out) > n { out = out[:n] }\<close>\<close>

definition truncate_rows :: "int \<Rightarrow> 'a list \<Rightarrow> 'a list" where
  "truncate_rows n out = (if 0 < n \<and> n < int (length out) then take (nat n) out else out)"

definition mem_ListUserMatches ::
  "((string \<times> game_match) list \<Rightarrow> (string \<times> game_match) list)
     \<Rightarrow> string \<Rightarrow> int \<Rightarrow> mem_store \<Rightarrow> game_match list res \<times> mem_store"
where [store_op_defs]:
  "mem_ListUserMatches ord uid n s =
     (if ms_closed s then (Inl ErrClosed, s)
      else (let out = filter (\<lambda>m. uid \<in> set (m_players m)) (map snd (ord (ms_matches s)));
                out = sort_key (\<lambda>m. - m_created m) out
            in (Inr (truncate_rows n out), s)))"

definition mem_SubmitScore :: "string \<Rightarrow> string \<Rightarrow> int64 \<Rightarrow> mem_store \<Rightarrow> unit res \<times> mem_store"
where [store_op_defs]:
  "mem_SubmitScore board uid score s =
     (if ms_closed s then (Inl ErrClosed, s)
      else (let b = (case gm_get (ms_leaderboards s) board of None \<Rightarrow> [] | Some b \<Rightarrow> b);
                s' = s\<lparr>ms_leaderboards := gm_put board b (ms_leaderboards s)\<rparr>
            in case gm_get b uid of
                 Some cur \<Rightarrow>
                   if sint cur \<ge> sint score then (Inr (), s')
                   else (Inr (), s\<lparr>ms_leaderboards := gm_put board (gm_put uid score b) (ms_leaderboards s)\<rparr>)
               | None \<Rightarrow>
                   (Inr (), s\<lparr>ms_leaderboards := gm_put board (gm_put uid score b) (ms_leaderboards s)\<rparr>)))"

definition mem_TopN ::
  "((string \<times> int64) list \<Rightarrow> (string \<times> int64) list)
     \<Rightarrow> string \<Rightarrow> int \<Rightarrow> mem_store \<Rightarrow> rank list res \<times> mem_store"
where [store_op_defs]:
  "mem_TopN ord board n s =
     (if ms_closed s then (Inl ErrClosed, s)
      else (let b = (case gm_get (ms_leaderboards s) board of None \<Rightarrow> [] | Some b \<Rightarrow> b);
                out = map (\<lambda>(uid, sc). Rank uid sc) (ord b);
                out = sort out
            in (Inr (truncate_rows n out), s)))"

definition mem_MarkOnline :: "gotime \<Rightarrow> string \<Rightarrow> duration \<Rightarrow> mem_store \<Rightarrow> unit res \<times> mem_store"
where [store_op_defs]:
  "mem_MarkOnline now uid ttl s =
     (if ms_closed s then (Inl ErrClosed, s)
      else (Inr (), s\<lparr>ms_presence := gm_put uid (time_add now ttl) (ms_presence s)\<rparr>))"

definition mem_IsOnline :: "gotime \<Rightarrow> string \<Rightarrow> mem_store \<Rightarrow> bool res \<times> mem_store"
where [store_op_defs]:
  "mem_IsOnline now uid s =
     (if ms_closed s then (Inl ErrClosed, s)
      else (case gm_get (ms_presence s) uid of
              None \<Rightarrow> (Inr False, s)
            | Some exp \<Rightarrow>
                if exp < now then (Inr False, s\<lparr>ms_presence := gm_del uid (ms_presence s)\<rparr>)
                else (Inr True, s)))"

definition mem_CacheGet :: "gotime \<Rightarrow> string \<Rightarrow> mem_store \<Rightarrow> (bytes \<times> bool) res \<times> mem_store"
where [store_op_defs]:
  "mem_CacheGet now key s =
     (if ms_closed s then (Inl ErrClosed, s)
      else (case gm_get (ms_cache s) key of
              None \<Rightarrow> (Inr ([], False), s)
            | Some e \<Rightarrow>
                if \<not> time_is_zero (ce_expiry e) \<and> ce_expiry e < now
                then (Inr ([], False), s\<lparr>ms_cache := gm_del key (ms_cache s)\<rparr>)
                else (Inr (ce_val e, True), s)))"

definition mem_CacheSet ::
  "gotime \<Rightarrow> string \<Rightarrow> bytes \<Rightarrow> duration \<Rightarrow> mem_store \<Rightarrow> unit res \<times> mem_store"
where [store_op_defs]:
  "mem_CacheSet now key val ttl s =
     (if ms_closed s then (Inl ErrClosed, s)
      else (let e = \<lparr>ce_val = val, ce_expiry = (if 0 < sint ttl then time_add now ttl else 0)\<rparr>
            in (Inr (), s\<lparr>ms_cache := gm_put key e (ms_cache s)\<rparr>)))"

definition mem_Ping :: "mem_store \<Rightarrow> unit res \<times> mem_store"
where [store_op_defs]:
  "mem_Ping s = (if ms_closed s then (Inl ErrClosed, s) else (Inr (), s))"

definition mem_Close :: "mem_store \<Rightarrow> unit res \<times> mem_store"
where [store_op_defs]:
  "mem_Close s = (Inr (), s\<lparr>ms_closed := True\<rparr>)"

text \<open>
  \<open>Export\<close>: \<open>enc\<close> is \<open>enc.Encode\<close> on the writer, which appends one line and may fail.
\<close>

fun emit_all ::
  "(json \<Rightarrow> 'w \<Rightarrow> unit res \<times> 'w) \<Rightarrow> string \<Rightarrow> ('v \<Rightarrow> json) \<Rightarrow> 'v gomap \<Rightarrow> string list \<Rightarrow> 'w
     \<Rightarrow> unit res \<times> 'w"
where
  "emit_all enc coll doc m [] w = (Inr (), w)"
| "emit_all enc coll doc m (k # ks) w =
     (case gm_get m k of
        None \<Rightarrow> emit_all enc coll doc m ks w
      | Some v \<Rightarrow>
          (case enc (JObj [(''collection'', JStr coll), (''doc'', doc v)]) w of
             (Inl e, w') \<Rightarrow> (Inl e, w')
           | (Inr _, w') \<Rightarrow> emit_all enc coll doc m ks w'))"

definition mem_Export ::
  "(json \<Rightarrow> 'w \<Rightarrow> unit res \<times> 'w) \<Rightarrow> mem_store \<Rightarrow> 'w \<Rightarrow> unit res \<times> 'w"
where
  "mem_Export enc s w =
     (if ms_closed s then (Inl ErrClosed, w)
      else (case emit_all enc ''users'' user_json (ms_users s) (sortedKeys (ms_users s)) w of
        (Inl e, w1) \<Rightarrow> (Inl e, w1)
      | (Inr _, w1) \<Rightarrow>
          (case emit_all enc ''puzzles'' puzzle_json (ms_puzzles s) (sortedKeys (ms_puzzles s)) w1 of
             (Inl e, w2) \<Rightarrow> (Inl e, w2)
           | (Inr _, w2) \<Rightarrow>
               (case emit_all enc ''attempts'' attempt_json (ms_attempts s)
                       (sortedKeys (ms_attempts s)) w2 of
                  (Inl e, w3) \<Rightarrow> (Inl e, w3)
                | (Inr _, w3) \<Rightarrow>
                    emit_all enc ''matches'' match_json (ms_matches s)
                      (sortedKeys (ms_matches s)) w3))))"

text \<open>The interface value: \<open>var _ store.Store = (*Store)(nil)\<close>.\<close>

definition mem_ops ::
  "((string \<times> game_match) list \<Rightarrow> (string \<times> game_match) list)
     \<Rightarrow> ((string \<times> int64) list \<Rightarrow> (string \<times> int64) list) \<Rightarrow> mem_store store_ops"
where
  "mem_ops ordm ordb =
     \<lparr>st_UpsertUserOnFirstAuth = mem_UpsertUserOnFirstAuth, st_GetUser = mem_GetUser,
      st_TouchLastSeen = mem_TouchLastSeen, st_GetPuzzle = mem_GetPuzzle,
      st_PutPuzzle = mem_PutPuzzle, st_GetAttempt = mem_GetAttempt,
      st_UpsertAttempt = mem_UpsertAttempt, st_GetMatch = mem_GetMatch,
      st_UpsertMatch = mem_UpsertMatch, st_ListUserMatches = mem_ListUserMatches ordm,
      st_SubmitScore = mem_SubmitScore, st_TopN = mem_TopN ordb, st_MarkOnline = mem_MarkOnline,
      st_IsOnline = mem_IsOnline, st_CacheGet = mem_CacheGet, st_CacheSet = mem_CacheSet,
      st_Ping = mem_Ping, st_Close = mem_Close\<rparr>"

section \<open>The invariant\<close>

text \<open>
  Every map has distinct keys and every document sits under the key made of its own fields;
  every user is a beta tester, since no other kind of user is ever stored.
\<close>

definition keyed :: "('v \<Rightarrow> string) \<Rightarrow> 'v gomap \<Rightarrow> bool" where
  "keyed key m \<longleftrightarrow> gm_wf m \<and> (\<forall>k v. gm_get m k = Some v \<longrightarrow> key v = k)"

definition mem_wf :: "mem_store \<Rightarrow> bool" where
  "mem_wf s \<longleftrightarrow>
     keyed u_uid (ms_users s) \<and> (\<forall>k u. gm_get (ms_users s) k = Some u \<longrightarrow> u_beta u) \<and>
     keyed p_date (ms_puzzles s) \<and>
     keyed (\<lambda>a. attemptKey (a_uid a) (a_date a)) (ms_attempts s) \<and>
     keyed m_id (ms_matches s) \<and>
     gm_wf (ms_leaderboards s) \<and> (\<forall>k b. gm_get (ms_leaderboards s) k = Some b \<longrightarrow> gm_wf b) \<and>
     gm_wf (ms_presence s) \<and> gm_wf (ms_cache s)"

lemma keyed_Nil [simp, wf_intros]: "keyed key []"
  by (simp add: keyed_def)

lemma keyed_put [wf_intros]: "keyed key m \<Longrightarrow> key v = k \<Longrightarrow> keyed key (gm_put k v m)"
  by (auto simp: keyed_def gm_wf_put)

lemma keyed_wf: "keyed key m \<Longrightarrow> gm_wf m"
  by (simp add: keyed_def)

lemma keyedD: "keyed key m \<Longrightarrow> gm_get m k = Some v \<Longrightarrow> key v = k"
  by (simp add: keyed_def)

lemma mem_wf_New [simp]: "mem_wf mem_New"
  by (simp add: mem_wf_def mem_New_def)

lemma mem_wf_UpsertUser: "mem_wf s \<Longrightarrow> mem_wf (snd (mem_UpsertUserOnFirstAuth now c s))"
  by (auto simp: mem_wf_def mem_UpsertUserOnFirstAuth_def Let_def keyedD
      intro!: keyed_put split: option.split)

lemma mem_wf_Touch: "mem_wf s \<Longrightarrow> mem_wf (snd (mem_TouchLastSeen uid at s))"
  by (auto simp: mem_wf_def mem_TouchLastSeen_def keyedD intro!: keyed_put split: option.split)

lemma mem_wf_PutPuzzle: "mem_wf s \<Longrightarrow> mem_wf (snd (mem_PutPuzzle p s))"
  by (auto simp: mem_wf_def mem_PutPuzzle_def intro!: keyed_put)

lemma mem_wf_UpsertAttempt: "mem_wf s \<Longrightarrow> mem_wf (snd (mem_UpsertAttempt a s))"
  by (auto simp: mem_wf_def mem_UpsertAttempt_def intro!: keyed_put)

lemma mem_wf_UpsertMatch: "mem_wf s \<Longrightarrow> mem_wf (snd (mem_UpsertMatch m s))"
  by (auto simp: mem_wf_def mem_UpsertMatch_def intro!: keyed_put)

lemma mem_wf_SubmitScore: "mem_wf s \<Longrightarrow> mem_wf (snd (mem_SubmitScore b u sc s))"
  by (auto simp: mem_wf_def mem_SubmitScore_def Let_def intro!: gm_wf_put
      split: option.split if_splits)

lemma mem_wf_MarkOnline: "mem_wf s \<Longrightarrow> mem_wf (snd (mem_MarkOnline now u ttl s))"
  by (auto simp: mem_wf_def mem_MarkOnline_def intro!: gm_wf_put)

lemma mem_wf_IsOnline: "mem_wf s \<Longrightarrow> mem_wf (snd (mem_IsOnline now u s))"
  by (auto simp: mem_wf_def mem_IsOnline_def intro!: gm_wf_del split: option.split)

lemma mem_wf_CacheGet: "mem_wf s \<Longrightarrow> mem_wf (snd (mem_CacheGet now k s))"
  by (auto simp: mem_wf_def mem_CacheGet_def intro!: gm_wf_del split: option.split)

lemma mem_wf_CacheSet: "mem_wf s \<Longrightarrow> mem_wf (snd (mem_CacheSet now k v ttl s))"
  by (auto simp: mem_wf_def mem_CacheSet_def Let_def intro!: gm_wf_put)

lemma mem_wf_Close: "mem_wf s \<Longrightarrow> mem_wf (snd (mem_Close s))"
  by (simp add: mem_wf_def mem_Close_def)

text \<open>The reads leave the state as it is.\<close>

lemma mem_reads [simp]:
  "snd (mem_GetUser u s) = s" "snd (mem_GetPuzzle d s) = s" "snd (mem_GetAttempt u d s) = s"
  "snd (mem_GetMatch i s) = s" "snd (mem_ListUserMatches ordm u n s) = s"
  "snd (mem_TopN ordb b n s) = s" "snd (mem_Ping s) = s"
  by (auto simp: store_op_defs Let_def split: option.split)

lemmas mem_wf_ops =
  mem_wf_UpsertUser mem_wf_Touch mem_wf_PutPuzzle mem_wf_UpsertAttempt mem_wf_UpsertMatch
  mem_wf_SubmitScore mem_wf_MarkOnline mem_wf_IsOnline mem_wf_CacheGet mem_wf_CacheSet mem_wf_Close

section \<open>What the store promises\<close>

definition board_of :: "mem_store \<Rightarrow> string \<Rightarrow> int64 gomap" where
  "board_of s b = (case gm_get (ms_leaderboards s) b of None \<Rightarrow> [] | Some bd \<Rightarrow> bd)"

definition mem_view :: "mem_store \<Rightarrow> store_view" where
  "mem_view s =
     \<lparr>v_users = gm_get (ms_users s),
      v_puzzles = gm_get (ms_puzzles s),
      v_attempts = (\<lambda>u d. if length d = 10 then gm_get (ms_attempts s) (attemptKey u d) else None),
      v_matches = gm_get (ms_matches s),
      v_boards = (\<lambda>b u. gm_get (board_of s b) u)\<rparr>"

lemma mem_view_simps [simp]:
  "v_users (mem_view s) = gm_get (ms_users s)"
  "v_puzzles (mem_view s) = gm_get (ms_puzzles s)"
  "length d = 10 \<Longrightarrow> v_attempts (mem_view s) u d = gm_get (ms_attempts s) (attemptKey u d)"
  "v_matches (mem_view s) = gm_get (ms_matches s)"
  "v_boards (mem_view s) b = gm_get (board_of s b)"
  by (simp_all add: mem_view_def fun_eq_iff)

text \<open>Attempt keys of dates of the same length do not collide.\<close>

lemma attemptKey_inj:
  "length d = length d' \<Longrightarrow> attemptKey u d = attemptKey u' d' \<longleftrightarrow> u = u' \<and> d = d'"
  by (auto simp: attemptKey_def)

lemma board_wf: "mem_wf s \<Longrightarrow> gm_wf (board_of s b)"
  by (auto simp: mem_wf_def board_of_def split: option.split)

lemma mem_SubmitScore_board:
  assumes "\<not> ms_closed s"
  shows "gm_get (board_of (snd (mem_SubmitScore b u sc s)) b') u' =
    (if b' = b \<and> u' = u then Some (best_score sc (gm_get (board_of s b) u))
     else gm_get (board_of s b') u')"
proof -
  let ?bd = "board_of s b"
  have bd: "(case gm_get (ms_leaderboards s) b of None \<Rightarrow> [] | Some bd \<Rightarrow> bd) = ?bd"
    by (simp add: board_of_def)
  show ?thesis
    using assms
    by (cases "gm_get ?bd u") (simp_all add: mem_SubmitScore_def bd Let_def best_score_def board_of_def [of "_\<lparr>ms_leaderboards := _\<rparr>"]
        board_of_def [of s b'])
qed

lemma mem_SubmitScore_view:
  assumes "\<not> ms_closed s"
  shows "mem_view (snd (mem_SubmitScore b u sc s)) = view_submit b u sc (mem_view s)"
proof -
  have "mem_view (snd (mem_SubmitScore b u sc s)) =
      (mem_view s)\<lparr>v_boards := \<lambda>b' u'. gm_get (board_of (snd (mem_SubmitScore b u sc s)) b') u'\<rparr>"
    using assms by (auto simp: mem_view_def mem_SubmitScore_def Let_def fun_eq_iff split: option.split)
  also have "\<dots> = view_submit b u sc (mem_view s)"
    using assms by (auto simp: mem_SubmitScore_board view_submit_def fun_eq_iff)
  finally show ?thesis .
qed

lemma mem_auth_result:
  assumes "\<not> ms_closed s"
  shows "fst (mem_UpsertUserOnFirstAuth now c s) =
      Inr (user_after_auth now c (gm_get (ms_users s) (c_uid c)))"
    and "mem_view (snd (mem_UpsertUserOnFirstAuth now c s)) = view_auth now c (mem_view s)"
  using assms
  by (auto simp: mem_UpsertUserOnFirstAuth_def user_after_auth_def view_auth_def mem_view_def
      board_of_def Let_def fun_eq_iff split: option.split)

lemma mem_put_attempt_view:
  assumes "\<not> ms_closed s" and "length (a_date a) = 10"
  shows "mem_view (snd (mem_UpsertAttempt a s)) = view_put_attempt a (mem_view s)"
  using assms
  by (auto simp: mem_UpsertAttempt_def view_put_attempt_def mem_view_def board_of_def fun_eq_iff
      attemptKey_inj)

lemma mem_put_views:
  assumes "\<not> ms_closed s"
  shows "mem_view (snd (mem_PutPuzzle p s)) = view_put_puzzle p (mem_view s)"
    and "mem_view (snd (mem_UpsertMatch m s)) = view_put_match m (mem_view s)"
  using assms
  by (auto simp: mem_PutPuzzle_def mem_UpsertMatch_def view_put_puzzle_def view_put_match_def
      mem_view_def board_of_def fun_eq_iff)

text \<open>A closed store answers \<open>ErrClosed\<close> and keeps its state.\<close>

lemma mem_closed:
  assumes "ms_closed s"
  shows "mem_UpsertUserOnFirstAuth now c s = (Inl ErrClosed, s)" "mem_GetUser u s = (Inl ErrClosed, s)"
    "mem_TouchLastSeen u t s = (Inl ErrClosed, s)" "mem_GetPuzzle d s = (Inl ErrClosed, s)"
    "mem_PutPuzzle p s = (Inl ErrClosed, s)" "mem_GetAttempt u d s = (Inl ErrClosed, s)"
    "mem_UpsertAttempt a s = (Inl ErrClosed, s)" "mem_GetMatch i s = (Inl ErrClosed, s)"
    "mem_UpsertMatch m s = (Inl ErrClosed, s)" "mem_ListUserMatches ordm u n s = (Inl ErrClosed, s)"
    "mem_SubmitScore b u sc s = (Inl ErrClosed, s)" "mem_TopN ordb b n s = (Inl ErrClosed, s)"
    "mem_MarkOnline t u ttl s = (Inl ErrClosed, s)" "mem_IsOnline t u s = (Inl ErrClosed, s)"
    "mem_CacheGet t k s = (Inl ErrClosed, s)" "mem_CacheSet t k v ttl s = (Inl ErrClosed, s)"
    "mem_Ping s = (Inl ErrClosed, s)"
  using assms by (simp_all add: store_op_defs)

section \<open>The leaderboard query\<close>

lemma sort_mset_eq: "mset xs = mset ys \<Longrightarrow> sort xs = sort ys"
  by (rule properties_for_sort) simp_all

lemma top_rows_order:
  "range_order ord \<Longrightarrow> sort (map f (ord b)) = sort (map f b)"
  by (rule sort_mset_eq) (simp add: range_order_mset)

lemma truncate_take: "0 < n \<Longrightarrow> truncate_rows n out = take (nat n) out"
  by (auto simp: truncate_rows_def)

lemma sorted_rank_scores:
  "sorted rows \<Longrightarrow> sorted_wrt (\<lambda>r r'. sint (r_score r') \<le> sint (r_score r)) (rows :: rank list)"
  by (erule sorted_wrt_mono_rel [rotated]) (auto simp: less_eq_rank_def)

lemma top_rows_spec:
  assumes "gm_wf b" and "0 < n"
  shows "is_top_n (gm_get b) n (take (nat n) (sort (map (\<lambda>(uid, sc). Rank uid sc) b)))"
proof (rule is_top_n_take [OF _ _ _ assms(2)])
  let ?rows = "sort (map (\<lambda>(uid, sc). Rank uid sc) b)"
  show "sorted_wrt (\<lambda>r r'. sint (r_score r') \<le> sint (r_score r)) ?rows"
    by (rule sorted_rank_scores) simp
  have "mset (map r_uid ?rows) = mset (map r_uid (map (\<lambda>(uid, sc). Rank uid sc) b))"
    by (simp only: mset_map mset_sort)
  also have "map r_uid (map (\<lambda>(uid, sc). Rank uid sc) b) = map fst b"
    by (simp add: case_prod_unfold)
  finally show "distinct (map r_uid ?rows)"
    using assms(1) by (metis gm_wf_def mset_eq_imp_distinct_iff)
  show "gm_get b u = Some sc \<longleftrightarrow> Rank u sc \<in> set ?rows" for u sc
    using gm_wf_mem_iff [OF assms(1), of u sc] by force
qed

lemma mem_TopN_spec:
  assumes "mem_wf s" and "range_order ord" and "0 < n" and "fst (mem_TopN ord b n s) = Inr rows"
  shows "is_top_n (gm_get (board_of s b)) n rows"
proof -
  have "rows = take (nat n) (sort (map (\<lambda>(uid, sc). Rank uid sc) (board_of s b)))"
    using assms(2-4)
    by (auto simp: mem_TopN_def board_of_def Let_def truncate_take top_rows_order split: if_splits)
  then show ?thesis using top_rows_spec [OF board_wf [OF assms(1)] assms(3)] by simp
qed

section \<open>The contract holds\<close>

lemma mem_lookups:
  "lookup_op mem_view mem_wf (\<lambda>v. v_users v u) (mem_GetUser u)"
  "lookup_op mem_view mem_wf (\<lambda>v. v_puzzles v d) (mem_GetPuzzle d)"
  "lookup_op mem_view mem_wf (\<lambda>v. v_matches v i) (mem_GetMatch i)"
  by (auto simp: lookup_op_def read_op_def mem_GetUser_def mem_GetPuzzle_def mem_GetMatch_def
      split: option.split)

lemma mem_attempt_lookup:
  "length d = 10 \<Longrightarrow> lookup_op mem_view mem_wf (\<lambda>v. v_attempts v u d) (mem_GetAttempt u d)"
  by (auto simp: lookup_op_def read_op_def mem_GetAttempt_def split: option.split)

lemma mem_write_op:
  assumes "\<And>s. mem_wf s \<Longrightarrow> mem_wf (snd (f s))"
    and "\<And>s. ms_closed s \<Longrightarrow> f s = (Inl ErrClosed, s)"
    and "\<And>s. \<not> ms_closed s \<Longrightarrow> mem_view (snd (f s)) = g (mem_view s)"
  shows "write_op mem_view mem_wf g f"
  unfolding write_op_def
proof (intro allI impI conjI)
  fix s assume "mem_wf s"
  then show "mem_wf (snd (f s))" by (rule assms(1))
  show "case fst (f s) of Inl _ \<Rightarrow> mem_view (snd (f s)) = mem_view s \<or> mem_view (snd (f s)) = g (mem_view s)
        | Inr _ \<Rightarrow> mem_view (snd (f s)) = g (mem_view s)"
    using assms(2,3) [of s] by (cases "ms_closed s") (auto split: sum.split)
qed

lemma mem_ops_simps [simp]:
  "st_UpsertUserOnFirstAuth (mem_ops ordm ordb) = mem_UpsertUserOnFirstAuth"
  "st_GetUser (mem_ops ordm ordb) = mem_GetUser"
  "st_TouchLastSeen (mem_ops ordm ordb) = mem_TouchLastSeen"
  "st_GetPuzzle (mem_ops ordm ordb) = mem_GetPuzzle"
  "st_PutPuzzle (mem_ops ordm ordb) = mem_PutPuzzle"
  "st_GetAttempt (mem_ops ordm ordb) = mem_GetAttempt"
  "st_UpsertAttempt (mem_ops ordm ordb) = mem_UpsertAttempt"
  "st_GetMatch (mem_ops ordm ordb) = mem_GetMatch"
  "st_UpsertMatch (mem_ops ordm ordb) = mem_UpsertMatch"
  "st_ListUserMatches (mem_ops ordm ordb) = mem_ListUserMatches ordm"
  "st_SubmitScore (mem_ops ordm ordb) = mem_SubmitScore"
  "st_TopN (mem_ops ordm ordb) = mem_TopN ordb"
  "st_MarkOnline (mem_ops ordm ordb) = mem_MarkOnline"
  "st_IsOnline (mem_ops ordm ordb) = mem_IsOnline"
  "st_CacheGet (mem_ops ordm ordb) = mem_CacheGet"
  "st_CacheSet (mem_ops ordm ordb) = mem_CacheSet"
  "st_Ping (mem_ops ordm ordb) = mem_Ping"
  "st_Close (mem_ops ordm ordb) = mem_Close"
  by (simp_all add: mem_ops_def)

text \<open>
  The order in which maps are visited does not matter to the contract; the interpretation fixes
  the order of insertion.
\<close>

abbreviation mem_iface :: "mem_store store_ops" where
  "mem_iface \<equiv> mem_ops (\<lambda>xs. xs) (\<lambda>xs. xs)"

interpretation mem: store_laws mem_iface mem_view mem_wf "\<lambda>t. t"
proof unfold_locales
  fix now c show "write_op mem_view mem_wf (view_auth now c) (st_UpsertUserOnFirstAuth mem_iface now c)"
    by (rule mem_write_op) (simp_all add: mem_wf_ops mem_closed mem_auth_result)
next
  fix p show "write_op mem_view mem_wf (view_put_puzzle p) (st_PutPuzzle mem_iface p)"
    by (rule mem_write_op) (simp_all add: mem_wf_ops mem_closed mem_put_views)
next
  fix a :: attempt assume "length (a_date a) = 10"
  then show "write_op mem_view mem_wf (view_put_attempt (timed_attempt (\<lambda>t. t) a)) (st_UpsertAttempt mem_iface a)"
    by (intro mem_write_op) (simp_all add: mem_wf_ops mem_closed mem_put_attempt_view)
next
  fix m show "write_op mem_view mem_wf (view_put_match (timed_match (\<lambda>t. t) m)) (st_UpsertMatch mem_iface m)"
    by (intro mem_write_op) (simp_all add: mem_wf_ops mem_closed mem_put_views)
next
  fix b u sc show "write_op mem_view mem_wf (view_submit b u sc) (st_SubmitScore mem_iface b u sc)"
    by (rule mem_write_op) (simp_all add: mem_wf_ops mem_closed mem_SubmitScore_view)
next
  fix s :: mem_store and b n rows
  assume "mem_wf s" "0 < n" "fst (st_TopN mem_iface b n s) = Inr rows"
  then show "is_top_n (v_boards (mem_view s) b) n rows"
    using mem_TopN_spec [of s "\<lambda>xs. xs"] by simp
qed (simp_all add: mem_lookups mem_attempt_lookup read_op_def)

interpretation mem: store_strict mem_iface mem_view mem_wf "\<lambda>s. \<not> ms_closed s"
  by unfold_locales
    (auto simp: mem_auth_result mem_GetPuzzle_def mem_GetAttempt_def mem_GetMatch_def
      mem_UpsertAttempt_def mem_UpsertMatch_def mem_SubmitScore_def mem_TopN_def
      mem_UpsertUserOnFirstAuth_def mem_GetUser_def mem_PutPuzzle_def Let_def split: option.split)

end
