(* ===== verification/Mem_Runs.thy ===== *)
theory Mem_Runs
  imports Mem_Store
begin

text \<open>
  What sequences of calls do to the in-memory store. The mutex of \<open>memstore.Store\<close> orders the
  calls of all goroutines, so every execution of the store is a list of calls run from
  \<open>mem_New\<close>. \<open>mem_exec\<close> runs one call and keeps the new state.
\<close>

section \<open>Calls\<close>

datatype mem_call =
    CAuth gotime auth_claims
  | CGetUser string
  | CTouch string gotime
  | CGetPuzzle string
  | CPutPuzzle puzzle
  | CGetAttempt string string
  | CUpsertAttempt attempt
  | CGetMatch string
  | CUpsertMatch game_match
  | CListMatches string int
  | CSubmit string string int64
  | CTopN string int
  | CMarkOnline gotime string duration
  | CIsOnline gotime string
  | CCacheGet gotime string
  | CCacheSet gotime string bytes duration
  | CPing
  | CClose

fun mem_exec :: "mem_call \<Rightarrow> mem_store \<Rightarrow> mem_store" where
  "mem_exec (CAuth now c) s = snd (mem_UpsertUserOnFirstAuth now c s)"
| "mem_exec (CGetUser u) s = snd (mem_GetUser u s)"
| "mem_exec (CTouch u t) s = snd (mem_TouchLastSeen u t s)"
| "mem_exec (CGetPuzzle d) s = snd (mem_GetPuzzle d s)"
| "mem_exec (CPutPuzzle p) s = snd (mem_PutPuzzle p s)"
| "mem_exec (CGetAttempt u d) s = snd (mem_GetAttempt u d s)"
| "mem_exec (CUpsertAttempt a) s = snd (mem_UpsertAttempt a s)"
| "mem_exec (CGetMatch i) s = snd (mem_GetMatch i s)"
| "mem_exec (CUpsertMatch m) s = snd (mem_UpsertMatch m s)"
| "mem_exec (CListMatches u n) s = snd (mem_ListUserMatches (\<lambda>xs. xs) u n s)"
| "mem_exec (CSubmit b u sc) s = snd (mem_SubmitScore b u sc s)"
| "mem_exec (CTopN b n) s = snd (mem_TopN (\<lambda>xs. xs) b n s)"
| "mem_exec (CMarkOnline now u ttl) s = snd (mem_MarkOnline now u ttl s)"
| "mem_exec (CIsOnline now u) s = snd (mem_IsOnline now u s)"
| "mem_exec (CCacheGet now k) s = snd (mem_CacheGet now k s)"
| "mem_exec (CCacheSet now k v ttl) s = snd (mem_CacheSet now k v ttl s)"
| "mem_exec CPing s = snd (mem_Ping s)"
| "mem_exec CClose s = snd (mem_Close s)"

definition mem_run :: "mem_call list \<Rightarrow> mem_store \<Rightarrow> mem_store" where
  "mem_run cs s = fold mem_exec cs s"

lemma mem_run_simps [simp]:
  "mem_run [] s = s"
  "mem_run (c # cs) s = mem_run cs (mem_exec c s)"
  "mem_run (cs @ ds) s = mem_run ds (mem_run cs s)"
  by (simp_all add: mem_run_def)

lemma mem_exec_wf: "mem_wf s \<Longrightarrow> mem_wf (mem_exec c s)"
  by (cases c) (simp_all add: mem_wf_ops)

lemma mem_run_wf_from: "mem_wf s \<Longrightarrow> mem_wf (mem_run cs s)"
  by (induction cs arbitrary: s) (simp_all add: mem_exec_wf)

lemma mem_exec_closed: "ms_closed s \<Longrightarrow> mem_exec c s = s"
  by (cases c) (simp_all add: mem_closed mem_Close_def)

lemma mem_run_closed: "ms_closed s \<Longrightarrow> mem_run cs s = s"
  by (induction cs) (simp_all add: mem_exec_closed)

text \<open>What one call does to each part of the state.\<close>

lemma closed_ops [simp]:
  "ms_closed (snd (mem_UpsertUserOnFirstAuth now c s)) = ms_closed s"
  "ms_closed (snd (mem_TouchLastSeen u t s)) = ms_closed s"
  "ms_closed (snd (mem_PutPuzzle p s)) = ms_closed s"
  "ms_closed (snd (mem_UpsertAttempt a s)) = ms_closed s"
  "ms_closed (snd (mem_UpsertMatch m s)) = ms_closed s"
  "ms_closed (snd (mem_SubmitScore b u sc s)) = ms_closed s"
  "ms_closed (snd (mem_MarkOnline now u ttl s)) = ms_closed s"
  "ms_closed (snd (mem_IsOnline now u s)) = ms_closed s"
  "ms_closed (snd (mem_CacheGet now k s)) = ms_closed s"
  "ms_closed (snd (mem_CacheSet now k v ttl s)) = ms_closed s"
  "ms_closed (snd (mem_Close s))"
  by (auto simp: store_op_defs Let_def split: option.split)

lemma mem_exec_closed_iff: "ms_closed (mem_exec c s) \<longleftrightarrow> c = CClose \<or> ms_closed s"
  by (cases c) simp_all

lemma mem_run_closed_iff: "ms_closed (mem_run cs s) \<longleftrightarrow> CClose \<in> set cs \<or> ms_closed s"
  by (induction cs arbitrary: s) (auto simp: mem_exec_closed_iff)

lemma users_ops [simp]:
  "ms_users (snd (mem_PutPuzzle p s)) = ms_users s"
  "ms_users (snd (mem_UpsertAttempt a s)) = ms_users s"
  "ms_users (snd (mem_UpsertMatch m s)) = ms_users s"
  "ms_users (snd (mem_SubmitScore b u sc s)) = ms_users s"
  "ms_users (snd (mem_MarkOnline now u ttl s)) = ms_users s"
  "ms_users (snd (mem_IsOnline now u s)) = ms_users s"
  "ms_users (snd (mem_CacheGet now k s)) = ms_users s"
  "ms_users (snd (mem_CacheSet now k v ttl s)) = ms_users s"
  "ms_users (snd (mem_Close s)) = ms_users s"
  by (auto simp: store_op_defs Let_def split: option.split)

lemma boards_ops [simp]:
  "ms_leaderboards (snd (mem_UpsertUserOnFirstAuth now c s)) = ms_leaderboards s"
  "ms_leaderboards (snd (mem_TouchLastSeen u t s)) = ms_leaderboards s"
  "ms_leaderboards (snd (mem_PutPuzzle p s)) = ms_leaderboards s"
  "ms_leaderboards (snd (mem_UpsertAttempt a s)) = ms_leaderboards s"
  "ms_leaderboards (snd (mem_UpsertMatch m s)) = ms_leaderboards s"
  "ms_leaderboards (snd (mem_MarkOnline now u ttl s)) = ms_leaderboards s"
  "ms_leaderboards (snd (mem_IsOnline now u s)) = ms_leaderboards s"
  "ms_leaderboards (snd (mem_CacheGet now k s)) = ms_leaderboards s"
  "ms_leaderboards (snd (mem_CacheSet now k v ttl s)) = ms_leaderboards s"
  "ms_leaderboards (snd (mem_Close s)) = ms_leaderboards s"
  by (auto simp: store_op_defs Let_def split: option.split)

lemma presence_ops [simp]:
  "ms_presence (snd (mem_UpsertUserOnFirstAuth now c s)) = ms_presence s"
  "ms_presence (snd (mem_TouchLastSeen u t s)) = ms_presence s"
  "ms_presence (snd (mem_PutPuzzle p s)) = ms_presence s"
  "ms_presence (snd (mem_UpsertAttempt a s)) = ms_presence s"
  "ms_presence (snd (mem_UpsertMatch m s)) = ms_presence s"
  "ms_presence (snd (mem_SubmitScore b u sc s)) = ms_presence s"
  "ms_presence (snd (mem_CacheGet now k s)) = ms_presence s"
  "ms_presence (snd (mem_CacheSet now k v ttl s)) = ms_presence s"
  "ms_presence (snd (mem_Close s)) = ms_presence s"
  by (auto simp: store_op_defs Let_def split: option.split)

lemma cache_ops [simp]:
  "ms_cache (snd (mem_UpsertUserOnFirstAuth now c s)) = ms_cache s"
  "ms_cache (snd (mem_TouchLastSeen u t s)) = ms_cache s"
  "ms_cache (snd (mem_PutPuzzle p s)) = ms_cache s"
  "ms_cache (snd (mem_UpsertAttempt a s)) = ms_cache s"
  "ms_cache (snd (mem_UpsertMatch m s)) = ms_cache s"
  "ms_cache (snd (mem_SubmitScore b u sc s)) = ms_cache s"
  "ms_cache (snd (mem_MarkOnline now u ttl s)) = ms_cache s"
  "ms_cache (snd (mem_IsOnline now u s)) = ms_cache s"
  "ms_cache (snd (mem_Close s)) = ms_cache s"
  by (auto simp: store_op_defs Let_def split: option.split)

section \<open>The invariant\<close>

text \<open>Whatever sequence of calls an in-memory store has served, its maps have distinct keys,
  every document sits under the key built from its own fields, and every user is recorded as
  a beta tester.\<close>

theorem mem_run_invariant: "mem_wf (mem_run cs mem_New)"
  by (rule mem_run_wf_from) simp

section \<open>Closing\<close>

text \<open>Closing is final: after a run that contains a Close, every further call leaves the
  store unchanged and a lookup, a write and a ping all answer ErrClosed.\<close>

theorem mem_close_final:
  assumes "CClose \<in> set cs"
  shows "mem_run ds (mem_run cs s) = mem_run cs s
    \<and> fst (mem_GetUser u (mem_run (cs @ ds) s)) = Inl ErrClosed
    \<and> fst (mem_UpsertAttempt a (mem_run (cs @ ds) s)) = Inl ErrClosed
    \<and> fst (mem_Ping (mem_run (cs @ ds) s)) = Inl ErrClosed"
proof -
  have "ms_closed (mem_run cs s)" using assms by (simp add: mem_run_closed_iff)
  then show ?thesis by (simp add: mem_run_closed mem_closed)
qed

theorem mem_close_final_witness:
  "mem_run [CPing] (mem_run [CPing, CClose] mem_New) = mem_run [CPing, CClose] mem_New"
  using mem_close_final [of "[CPing, CClose]" "[CPing]" mem_New] by simp

section \<open>Beta provenance\<close>

definition provenance :: "user \<Rightarrow> string \<times> bool \<times> gotime \<times> gotime" where
  "provenance u = (u_uid u, u_beta u, u_beta_at u, u_created u)"

lemma mem_exec_provenance:
  assumes "gm_get (ms_users s) k = Some u"
  shows "\<exists>u'. gm_get (ms_users (mem_exec c s)) k = Some u' \<and> provenance u' = provenance u"
  using assms
  by (cases c)
    (auto simp: mem_UpsertUserOnFirstAuth_def mem_TouchLastSeen_def provenance_def Let_def
      split: option.split)

text \<open>The beta-tester ledger is frozen at the first authentication: once a user id has a
  record, no sequence of calls removes it or changes its id, its beta flag, its sign-up time
  or its creation time.\<close>

theorem mem_provenance_frozen:
  assumes "gm_get (ms_users s) k = Some u"
  shows "\<exists>u'. gm_get (ms_users (mem_run cs s)) k = Some u' \<and> provenance u' = provenance u"
  using assms
proof (induction cs arbitrary: s u)
  case (Cons c cs)
  from mem_exec_provenance [OF Cons.prems, of c] obtain u1
    where "gm_get (ms_users (mem_exec c s)) k = Some u1" "provenance u1 = provenance u" by blast
  with Cons.IH show ?case by fastforce
qed auto

definition sample_claims :: "string \<Rightarrow> auth_claims" where
  "sample_claims u = \<lparr>c_uid = u, c_email = ''a@b'', c_name = ''A'', c_provider = ''password''\<rparr>"

theorem mem_provenance_frozen_witness:
  "\<exists>u'. gm_get (ms_users (mem_run [CAuth 50 (sample_claims ''u1''), CTouch ''u1'' 60]
            (mem_exec (CAuth 7 (sample_claims ''u1'')) mem_New))) ''u1'' = Some u'
      \<and> provenance u' = (''u1'', True, 7, 7)"
proof -
  have "gm_get (ms_users (mem_exec (CAuth 7 (sample_claims ''u1'')) mem_New)) ''u1'' =
      Some (user_after_auth 7 (sample_claims ''u1'') None)"
    by (simp add: mem_UpsertUserOnFirstAuth_def mem_New_def sample_claims_def user_after_auth_def Let_def)
  from mem_provenance_frozen [OF this, of "[CAuth 50 (sample_claims ''u1''), CTouch ''u1'' 60]"]
  show ?thesis by (simp add: provenance_def user_after_auth_def sample_claims_def)
qed

section \<open>Leaderboards keep the maximum\<close>

text \<open>The scores submitted for a user on a board before the store was closed.\<close>

fun submitted :: "string \<Rightarrow> string \<Rightarrow> mem_call list \<Rightarrow> int64 list" where
  "submitted b u [] = []"
| "submitted b u (CClose # cs) = []"
| "submitted b u (CSubmit b' u' sc # cs) =
     (if b' = b \<and> u' = u then sc # submitted b u cs else submitted b u cs)"
| "submitted b u (_ # cs) = submitted b u cs"

lemma mem_exec_board:
  assumes "\<not> ms_closed s"
  shows "gm_get (board_of (mem_exec c s) b) u =
    (case c of CSubmit b' u' sc \<Rightarrow>
       if b' = b \<and> u' = u then Some (best_score sc (gm_get (board_of s b) u))
       else gm_get (board_of s b) u
     | _ \<Rightarrow> gm_get (board_of s b) u)"
  using assms by (cases c) (auto simp: mem_SubmitScore_board, simp_all add: board_of_def)

lemma submitted_Cons:
  assumes "c \<noteq> CClose"
  shows "submitted b u (c # cs) =
    (case c of CSubmit b' u' sc \<Rightarrow> if b' = b \<and> u' = u then sc # submitted b u cs else submitted b u cs
     | _ \<Rightarrow> submitted b u cs)"
  using assms by (cases c) simp_all

definition best_of :: "int64 list \<Rightarrow> int64 option \<Rightarrow> int64 option" where
  "best_of scs old = fold (\<lambda>sc o'. Some (best_score sc o')) scs old"

lemma mem_run_board_from:
  assumes "\<not> ms_closed s"
  shows "gm_get (board_of (mem_run cs s) b) u =
    best_of (submitted b u cs) (gm_get (board_of s b) u)"
  using assms
proof (induction cs arbitrary: s)
  case Nil
  then show ?case by (simp add: best_of_def)
next
  case (Cons c cs)
  show ?case
  proof (cases "c = CClose")
    case True
    then have "mem_run (c # cs) s = mem_exec c s"
      by (simp add: mem_run_closed mem_exec_closed_iff)
    then show ?thesis
      using True Cons.prems by (simp add: board_of_def best_of_def)
  next
    case False
    with Cons.prems have "\<not> ms_closed (mem_exec c s)" by (simp add: mem_exec_closed_iff)
    from Cons.IH [OF this] show ?thesis
      using mem_exec_board [OF Cons.prems, of c b u]
      by (simp add: submitted_Cons [OF False] best_of_def split: mem_call.split)
  qed
qed

lemma best_of_Max:
  "map_option sint (best_of scs old) =
     (case old of
        None \<Rightarrow> (if scs = [] then None else Some (Max (sint ` set scs)))
      | Some cur \<Rightarrow> Some (Max (insert (sint cur) (sint ` set scs))))"
proof (induction scs arbitrary: old)
  case Nil
  then show ?case by (simp add: best_of_def split: option.split)
next
  case (Cons sc scs)
  have "best_of (sc # scs) old = best_of scs (Some (best_score sc old))"
    by (simp add: best_of_def)
  moreover have "sint (best_score sc (Some cur)) = max (sint cur) (sint sc)" for cur
    by (simp add: best_score_def max_def)
  moreover have "best_score sc None = sc"
    by (simp add: best_score_def)
  ultimately show ?case
    using Cons [of "Some (best_score sc old)"]
    by (cases old; cases "scs = []") (simp_all add: ac_simps)
qed

text \<open>C30: A leaderboard shows the best score: after any sequence of calls on a new store, the
  entry of a user on a board is the maximum, as a signed number, of all scores submitted for
  that user on that board before the store was closed; there is no entry if none was.\<close>

theorem mem_board_is_max:
  "map_option sint (gm_get (board_of (mem_run cs mem_New) b) u) =
     (if submitted b u cs = [] then None else Some (Max (sint ` set (submitted b u cs))))"
  using mem_run_board_from [of mem_New cs b u] best_of_Max [of "submitted b u cs" None]
  by (simp add: mem_New_def board_of_def)

end
