(* ===== verification/Mem_Queries.thy ===== *)
theory Mem_Queries
  imports Mem_Runs
begin

text \<open>
  The queries of the in-memory store: the leaderboard, a user's matches, the export, and the
  two families of expiring entries (presence and cache). The locale \<open>ttl_cell\<close> states what
  the two families have in common, an entry that reads may drop once it has expired; it is
  interpreted on the presence and on the cache operations.
\<close>

section \<open>Leaderboard rows\<close>

text \<open>C31: TopN returns the best rows: for a positive n, the answer of an open well-formed store
  holds the n highest-scoring users of the board (all of them if there are fewer), each once,
  with the score on the board, in descending order of score; nobody left out scores higher
  than a returned row.\<close>

theorem mem_TopN_best:
  assumes "mem_wf s" and "\<not> ms_closed s" and "range_order ord" and "0 < n"
  shows "\<exists>rows. fst (mem_TopN ord b n s) = Inr rows \<and> is_top_n (gm_get (board_of s b)) n rows"
proof -
  have "\<exists>rows. fst (mem_TopN ord b n s) = Inr rows"
    using assms(2) by (simp add: mem_TopN_def)
  then show ?thesis using mem_TopN_spec [OF assms(1,3,4)] by blast
qed

definition sample_board :: mem_store where
  "sample_board = mem_run [CSubmit ''b'' ''u1'' 100, CSubmit ''b'' ''u1'' 50, CSubmit ''b'' ''u2'' 200,
     CSubmit ''b'' ''u3'' 150] mem_New"

theorem mem_TopN_best_witness:
  "\<exists>rows. fst (mem_TopN rev ''b'' 2 sample_board) = Inr rows
     \<and> is_top_n (gm_get (board_of sample_board ''b'')) 2 rows"
proof (rule mem_TopN_best)
  show "mem_wf sample_board"
    unfolding sample_board_def by (rule mem_run_wf_from) simp
  show "\<not> ms_closed sample_board"
    by (simp add: sample_board_def mem_exec_closed_iff mem_New_def)
qed simp_all

text \<open>The rows of TopN do not depend on the order in which Go ranges over the board's map:
  any two visiting orders give the same answer, with the rows sorted by descending score and
  ascending user id.\<close>

theorem mem_TopN_deterministic:
  assumes "range_order ord" and "range_order ord'"
  shows "mem_TopN ord b n s = mem_TopN ord' b n s"
  using assms by (simp add: mem_TopN_def top_rows_order)

theorem mem_TopN_deterministic_witness:
  "mem_TopN rev ''b'' 10 sample_board = mem_TopN (\<lambda>xs. xs) ''b'' 10 sample_board"
  by (rule mem_TopN_deterministic) simp_all

section \<open>A user's matches\<close>

lemma mset_sort_key: "mset (sort_key f xs) = mset xs"
  by simp

lemma sort_key_desc:
  "sorted_wrt (\<lambda>m m'. m_created m' \<le> m_created m) (sort_key (\<lambda>m. - m_created m) ms)"
  using sorted_sort_key [of "\<lambda>m. - m_created m" ms] by (simp add: sorted_map)

text \<open>ListUserMatches returns the user's newest matches: only stored matches that list the
  user as a player, newest first, at most n of them when n is positive (all of them
  otherwise), and every match of the user that is left out is no newer than any returned one.
  This holds for every order in which Go may range over the matches.\<close>

theorem mem_ListUserMatches_spec:
  assumes "mem_wf s" and "range_order ord" and "fst (mem_ListUserMatches ord u n s) = Inr out"
  shows "sorted_wrt (\<lambda>m m'. m_created m' \<le> m_created m) out
    \<and> (\<forall>m \<in> set out. u \<in> set (m_players m) \<and> gm_get (ms_matches s) (m_id m) = Some m)
    \<and> (0 < n \<longrightarrow> length out \<le> nat n)
    \<and> (\<forall>k m. gm_get (ms_matches s) k = Some m \<and> u \<in> set (m_players m) \<longrightarrow>
         m \<in> set out \<or> 0 < n \<and> (\<forall>m' \<in> set out. m_created m \<le> m_created m'))"
proof -
  let ?all = "sort_key (\<lambda>m. - m_created m)
      (filter (\<lambda>m. u \<in> set (m_players m)) (map snd (ord (ms_matches s))))"
  have out: "out = truncate_rows n ?all"
    using assms(3) by (auto simp: mem_ListUserMatches_def Let_def split: if_splits)
  have keyed: "keyed m_id (ms_matches s)"
    using assms(1) by (simp add: mem_wf_def)
  have mem: "m \<in> set ?all \<longleftrightarrow> (\<exists>k. gm_get (ms_matches s) k = Some m) \<and> u \<in> set (m_players m)" for m
  proof -
    have "m \<in> snd ` set (ms_matches s) \<longleftrightarrow> (\<exists>k. (k, m) \<in> set (ms_matches s))" by force
    then show ?thesis
      by (simp add: range_order_set [OF assms(2)] gm_wf_mem_iff [OF keyed_wf [OF keyed]])
  qed
  have sub: "set out \<subseteq> set ?all"
    by (auto simp: out truncate_rows_def dest: in_set_takeD)
  have sorted: "sorted_wrt (\<lambda>m m'. m_created m' \<le> m_created m) ?all"
    by (rule sort_key_desc)
  have "sorted_wrt (\<lambda>m m'. m_created m' \<le> m_created m) out"
    using take_sorted_wrt [OF sorted] sorted by (simp add: out truncate_rows_def)
  moreover have "u \<in> set (m_players m) \<and> gm_get (ms_matches s) (m_id m) = Some m" if "m \<in> set out" for m
    using that sub mem [of m] keyedD [OF keyed] by fastforce
  moreover have "0 < n \<longrightarrow> length out \<le> nat n"
    by (auto simp: out truncate_rows_def)
  moreover have "m \<in> set out \<or> 0 < n \<and> (\<forall>m' \<in> set out. m_created m \<le> m_created m')"
    if "gm_get (ms_matches s) k = Some m" and "u \<in> set (m_players m)" for k m
  proof (cases "m \<in> set out")
    case False
    have "m \<in> set ?all" using that mem by blast
    with False have "0 < n \<and> out = take (nat n) ?all \<and> m \<in> set (drop (nat n) ?all)"
      by (metis out truncate_rows_def append_take_drop_id Un_iff set_append)
    then show ?thesis using sorted_take_drop [OF sorted] by blast
  qed simp
  ultimately show ?thesis by blast
qed

definition sample_match :: "string \<Rightarrow> gotime \<Rightarrow> string list \<Rightarrow> game_match" where
  "sample_match i t ps = \<lparr>m_id = i, m_players = ps, m_mode = ''sync'', m_date = ''2026-05-05'',
     m_state = ''active'', m_turns = 0, m_winner = [], m_created = t, m_ended = 0\<rparr>"

definition sample_matches :: mem_store where
  "sample_matches = mem_run [CUpsertMatch (sample_match ''a'' 10 [''u1'', ''u2'']),
     CUpsertMatch (sample_match ''b'' 20 [''u1'', ''u2'']),
     CUpsertMatch (sample_match ''z'' 30 [''u9''])] mem_New"

theorem mem_ListUserMatches_spec_witness:
  "fst (mem_ListUserMatches rev ''u1'' 1 sample_matches) = Inr [sample_match ''b'' 20 [''u1'', ''u2'']]
   \<and> ''u1'' \<in> set (m_players (sample_match ''b'' 20 [''u1'', ''u2'']))"
proof -
  have wf: "mem_wf sample_matches"
    unfolding sample_matches_def by (rule mem_run_wf_from) simp
  have ex: "fst (mem_ListUserMatches rev ''u1'' 1 sample_matches) = Inr [sample_match ''b'' 20 [''u1'', ''u2'']]"
    by (simp add: sample_matches_def mem_New_def mem_UpsertMatch_def sample_match_def
        mem_ListUserMatches_def truncate_rows_def)
  show ?thesis
    using mem_ListUserMatches_spec [OF wf range_order_rev ex] ex by simp
qed

section \<open>Export\<close>

definition export_rows :: "string \<Rightarrow> ('v \<Rightarrow> json) \<Rightarrow> 'v gomap \<Rightarrow> json list" where
  "export_rows coll doc m =
     map (\<lambda>k. JObj [(''collection'', JStr coll), (''doc'', doc (the (gm_get m k)))]) (sortedKeys m)"

definition append_line :: "json \<Rightarrow> json list \<Rightarrow> unit res \<times> json list" where
  "append_line row w = (Inr (), w @ [row])"

lemma emit_all_append_line:
  assumes "\<forall>k \<in> set ks. gm_get m k \<noteq> None"
  shows "emit_all append_line coll doc m ks w =
    (Inr (), w @ map (\<lambda>k. JObj [(''collection'', JStr coll), (''doc'', doc (the (gm_get m k)))]) ks)"
  using assms by (induction ks arbitrary: w) (auto simp: append_line_def split: option.split)

lemma sortedKeys_present: "\<forall>k \<in> set (sortedKeys m). gm_get m k \<noteq> None"
  by (auto simp: map_of_eq_None_iff)

lemma emit_all_rows:
  "emit_all append_line coll doc m (sortedKeys m) w = (Inr (), w @ export_rows coll doc m)"
  by (simp add: emit_all_append_line [OF sortedKeys_present] export_rows_def)

text \<open>Export to a writer that accepts every line writes one line per stored document and
  nothing else, collection by collection (users, puzzles, attempts, matches), each collection
  in ascending order of its keys, so that two exports of one store are equal.\<close>

theorem mem_Export_lines:
  assumes "\<not> ms_closed s"
  shows "mem_Export append_line s [] =
    (Inr (), export_rows ''users'' user_json (ms_users s)
       @ export_rows ''puzzles'' puzzle_json (ms_puzzles s)
       @ export_rows ''attempts'' attempt_json (ms_attempts s)
       @ export_rows ''matches'' match_json (ms_matches s))"
  using assms by (simp add: mem_Export_def emit_all_rows)

theorem mem_Export_lines_witness:
  "mem_Export append_line (mem_exec (CPutPuzzle \<lparr>p_date = ''d'', p_word = ''x'', p_hint = [], p_difficulty = 0\<rparr>) mem_New) []
   = (Inr (), [JObj [(''collection'', JStr ''puzzles''),
        (''doc'', JObj [(''date'', JStr ''d''), (''word'', JStr ''x''), (''difficulty'', JNum 0)])]])"
  by (subst mem_Export_lines)
    (simp_all add: mem_New_def mem_PutPuzzle_def export_rows_def sortedKeys_def puzzle_json_def omit_empty_def)

section \<open>Attempts\<close>

text \<open>An attempt is found again: after UpsertAttempt on an open store, GetAttempt for the
  same user and date returns it, and GetAttempt for any other user or date of the same
  length answers as before.\<close>

theorem mem_attempt_roundtrip:
  assumes "\<not> ms_closed s" and "length d = length (a_date a)"
  shows "fst (mem_GetAttempt u d (snd (mem_UpsertAttempt a s))) =
    (if u = a_uid a \<and> d = a_date a then Inr a else fst (mem_GetAttempt u d s))"
  using assms by (auto simp: mem_GetAttempt_def mem_UpsertAttempt_def attemptKey_inj split: option.split)

definition sample_attempt :: "string \<Rightarrow> string \<Rightarrow> attempt" where
  "sample_attempt u d = \<lparr>a_uid = u, a_date = d, a_guesses = [''league''], a_won = True,
     a_score = 100, a_completed = 1, a_in_progress = False\<rparr>"

theorem mem_attempt_roundtrip_witness:
  "fst (mem_GetAttempt ''u1'' ''2026-05-05'' (snd (mem_UpsertAttempt (sample_attempt ''u1'' ''2026-05-05'') mem_New)))
     = Inr (sample_attempt ''u1'' ''2026-05-05'')"
  using mem_attempt_roundtrip [of mem_New "''2026-05-05''" "sample_attempt ''u1'' ''2026-05-05''" "''u1''"]
  by (simp add: mem_New_def sample_attempt_def)

text \<open>C34: Without the condition on the length of the date the keys of attempts collide: two
  different pairs of user and date share a key, so storing an attempt of one user overwrites
  the attempt of another.\<close>

theorem attempt_key_collision:
  "\<exists>u d u' d'. (u, d) \<noteq> (u', d') \<and> attemptKey u d = attemptKey u' d'
     \<and> fst (mem_GetAttempt u d (snd (mem_UpsertAttempt (sample_attempt u' d')
              (snd (mem_UpsertAttempt (sample_attempt u d) mem_New))))) = Inr (sample_attempt u' d')"
proof (intro exI conjI)
  show "(''a'', ''b::c'') \<noteq> (''a::b'', ''c'')" by simp
  show "attemptKey ''a'' ''b::c'' = attemptKey ''a::b'' ''c''" by (simp add: attemptKey_def)
  show "fst (mem_GetAttempt ''a'' ''b::c'' (snd (mem_UpsertAttempt (sample_attempt ''a::b'' ''c'')
              (snd (mem_UpsertAttempt (sample_attempt ''a'' ''b::c'') mem_New)))))
      = Inr (sample_attempt ''a::b'' ''c'')"
    by (simp add: mem_GetAttempt_def mem_UpsertAttempt_def mem_New_def sample_attempt_def attemptKey_def)
qed

section \<open>Expiring entries\<close>

text \<open>
  An entry holds a value and the instant after which it is gone, if any. A step is \<open>quiet\<close> for
  the entry up to \<open>now\<close> when it does not write the entry and reads it no later than \<open>now\<close>.
\<close>

definition gone :: "gotime option \<Rightarrow> gotime \<Rightarrow> bool" where
  "gone exp now \<longleftrightarrow> (case exp of None \<Rightarrow> False | Some t \<Rightarrow> t < now)"

lemma gone_mono: "gone e t \<Longrightarrow> t \<le> t' \<Longrightarrow> gone e t'"
  by (auto simp: gone_def split: option.splits)

locale ttl_cell =
  fixes exec :: "'c \<Rightarrow> 's \<Rightarrow> 's"
    and cell :: "'s \<Rightarrow> ('v \<times> gotime option) option"
    and look :: "gotime \<Rightarrow> 's \<Rightarrow> 'v option"
    and quiet :: "gotime \<Rightarrow> 'c \<Rightarrow> bool"
    and live :: "'s \<Rightarrow> bool"
  assumes look_none: "live s \<Longrightarrow> cell s = None \<Longrightarrow> look now s = None"
    and look_some: "live s \<Longrightarrow> cell s = Some (v, e) \<Longrightarrow> look now s = (if gone e now then None else Some v)"
    and quiet_live: "quiet now c \<Longrightarrow> live s \<Longrightarrow> live (exec c s)"
    and quiet_none: "quiet now c \<Longrightarrow> live s \<Longrightarrow> cell s = None \<Longrightarrow> cell (exec c s) = None"
    and quiet_some: "quiet now c \<Longrightarrow> live s \<Longrightarrow> cell s = Some (v, e)
      \<Longrightarrow> cell (exec c s) = Some (v, e) \<or> gone e now \<and> cell (exec c s) = None"
begin

lemma quiet_run_none:
  "\<forall>c \<in> set cs. quiet now c \<Longrightarrow> live s \<Longrightarrow> cell s = None
     \<Longrightarrow> live (fold exec cs s) \<and> cell (fold exec cs s) = None"
  by (induction cs arbitrary: s) (auto simp: quiet_live quiet_none)

lemma quiet_run_some:
  "\<forall>c \<in> set cs. quiet now c \<Longrightarrow> live s \<Longrightarrow> cell s = Some (v, e)
     \<Longrightarrow> live (fold exec cs s)
       \<and> (cell (fold exec cs s) = Some (v, e) \<or> gone e now \<and> cell (fold exec cs s) = None)"
proof (induction cs arbitrary: s)
  case (Cons c cs)
  then have "live (exec c s)" using quiet_live [of now c s] by simp
  moreover from Cons.prems
  have "cell (exec c s) = Some (v, e) \<or> gone e now \<and> cell (exec c s) = None"
    using quiet_some [of now c s v e] by simp
  ultimately show ?case
    using Cons.IH [of "exec c s"] quiet_run_none [of cs now "exec c s"] Cons.prems(1) by auto
qed simp

lemma look_after_run:
  assumes "\<forall>c \<in> set cs. quiet now c" and "live s" and "cell s = Some (v, e)"
  shows "look now (fold exec cs s) = (if gone e now then None else Some v)"
  using quiet_run_some [OF assms] look_some look_none by metis

end

text \<open>The presence entry of a user: its expiry is always set.\<close>

definition presence_cell :: "string \<Rightarrow> mem_store \<Rightarrow> (unit \<times> gotime option) option" where
  "presence_cell u s = map_option (\<lambda>t. ((), Some t)) (gm_get (ms_presence s) u)"

definition presence_look :: "string \<Rightarrow> gotime \<Rightarrow> mem_store \<Rightarrow> unit option" where
  "presence_look u now s = (if fst (mem_IsOnline now u s) = Inr True then Some () else None)"

fun presence_quiet :: "string \<Rightarrow> gotime \<Rightarrow> mem_call \<Rightarrow> bool" where
  "presence_quiet u now (CMarkOnline t u' ttl) \<longleftrightarrow> u' \<noteq> u"
| "presence_quiet u now (CIsOnline t u') \<longleftrightarrow> (u' = u \<longrightarrow> t \<le> now)"
| "presence_quiet u now CClose \<longleftrightarrow> False"
| "presence_quiet u now _ \<longleftrightarrow> True"

lemma presence_exec:
  assumes "presence_quiet u now c" and "\<not> ms_closed s"
  shows "gm_get (ms_presence (mem_exec c s)) u = gm_get (ms_presence s) u
    \<or> (\<exists>t. gm_get (ms_presence s) u = Some t \<and> t < now \<and> gm_get (ms_presence (mem_exec c s)) u = None)"
  using assms by (cases c) (auto simp: mem_MarkOnline_def mem_IsOnline_def split: option.split)

interpretation presence: ttl_cell mem_exec "presence_cell u" "presence_look u" "presence_quiet u"
  "\<lambda>s. \<not> ms_closed s"
proof unfold_locales
  fix s now c v e
  show "\<not> ms_closed s \<Longrightarrow> presence_cell u s = None \<Longrightarrow> presence_look u now s = None"
    by (auto simp: presence_cell_def presence_look_def mem_IsOnline_def)
  show "\<not> ms_closed s \<Longrightarrow> presence_cell u s = Some (v, e)
     \<Longrightarrow> presence_look u now s = (if gone e now then None else Some v)"
    by (auto simp: presence_cell_def presence_look_def mem_IsOnline_def gone_def split: if_splits)
  show "presence_quiet u now c \<Longrightarrow> \<not> ms_closed s \<Longrightarrow> \<not> ms_closed (mem_exec c s)"
    by (cases c) simp_all
  show "presence_quiet u now c \<Longrightarrow> \<not> ms_closed s \<Longrightarrow> presence_cell u s = None
     \<Longrightarrow> presence_cell u (mem_exec c s) = None"
    using presence_exec [of u now c s] by (auto simp: presence_cell_def)
  show "presence_quiet u now c \<Longrightarrow> \<not> ms_closed s \<Longrightarrow> presence_cell u s = Some (v, e)
     \<Longrightarrow> presence_cell u (mem_exec c s) = Some (v, e)
       \<or> gone e now \<and> presence_cell u (mem_exec c s) = None"
    using presence_exec [of u now c s] by (auto simp: presence_cell_def gone_def)
qed

text \<open>Presence expires on time: after MarkOnline with a time to live, and any calls that
  neither mark the user again nor close the store nor ask later than now, IsOnline at now
  answers true exactly while now is not after the expiry, even if earlier reads already
  dropped the entry.\<close>

theorem mem_presence_ttl:
  assumes "\<not> ms_closed s" and "\<forall>c \<in> set cs. presence_quiet u now c"
  shows "fst (mem_IsOnline now u (mem_run cs (snd (mem_MarkOnline t u ttl s)))) =
    Inr (now \<le> time_add t ttl)"
proof -
  let ?s = "snd (mem_MarkOnline t u ttl s)"
  have "presence_cell u ?s = Some ((), Some (time_add t ttl))" and opened: "\<not> ms_closed ?s"
    using assms(1) by (simp_all add: presence_cell_def mem_MarkOnline_def)
  from presence.look_after_run [OF assms(2) opened this(1)]
  have "fst (mem_IsOnline now u (mem_run cs ?s)) = Inr True \<longleftrightarrow> now \<le> time_add t ttl"
    by (simp add: presence_look_def gone_def mem_run_def split: if_splits)
  moreover have "\<not> ms_closed (mem_run cs ?s)"
    using opened assms(2) by (auto simp: mem_run_closed_iff)
  then have "\<exists>on. fst (mem_IsOnline now u (mem_run cs ?s)) = Inr on"
    by (auto simp: mem_IsOnline_def split: option.split)
  ultimately show ?thesis by auto
qed

theorem mem_presence_ttl_witness:
  "fst (mem_IsOnline 200 ''u'' (mem_run [CIsOnline 90 ''u'', CIsOnline 150 ''u'']
      (snd (mem_MarkOnline 40 ''u'' 60 mem_New)))) = Inr False"
  using mem_presence_ttl [of mem_New "[CIsOnline 90 ''u'', CIsOnline 150 ''u'']" "''u''" 200 40 60]
  by (simp add: mem_New_def time_add_def)

text \<open>The cache entry of a key: the zero instant means that it never expires.\<close>

definition cache_cell :: "string \<Rightarrow> mem_store \<Rightarrow> (bytes \<times> gotime option) option" where
  "cache_cell k s = map_option
     (\<lambda>e. (ce_val e, if time_is_zero (ce_expiry e) then None else Some (ce_expiry e)))
     (gm_get (ms_cache s) k)"

definition cache_look :: "string \<Rightarrow> gotime \<Rightarrow> mem_store \<Rightarrow> bytes option" where
  "cache_look k now s = (case fst (mem_CacheGet now k s) of Inr (v, True) \<Rightarrow> Some v | _ \<Rightarrow> None)"

fun cache_quiet :: "string \<Rightarrow> gotime \<Rightarrow> mem_call \<Rightarrow> bool" where
  "cache_quiet k now (CCacheSet t k' v ttl) \<longleftrightarrow> k' \<noteq> k"
| "cache_quiet k now (CCacheGet t k') \<longleftrightarrow> (k' = k \<longrightarrow> t \<le> now)"
| "cache_quiet k now CClose \<longleftrightarrow> False"
| "cache_quiet k now _ \<longleftrightarrow> True"

lemma cache_exec:
  assumes "cache_quiet k now c" and "\<not> ms_closed s"
  shows "gm_get (ms_cache (mem_exec c s)) k = gm_get (ms_cache s) k
    \<or> (\<exists>e. gm_get (ms_cache s) k = Some e \<and> \<not> time_is_zero (ce_expiry e) \<and> ce_expiry e < now
         \<and> gm_get (ms_cache (mem_exec c s)) k = None)"
  using assms by (cases c) (auto simp: mem_CacheSet_def mem_CacheGet_def Let_def split: option.split)

interpretation cache: ttl_cell mem_exec "cache_cell k" "cache_look k" "cache_quiet k"
  "\<lambda>s. \<not> ms_closed s"
proof unfold_locales
  fix s now c v e
  show "\<not> ms_closed s \<Longrightarrow> cache_cell k s = None \<Longrightarrow> cache_look k now s = None"
    by (auto simp: cache_cell_def cache_look_def mem_CacheGet_def)
  show "\<not> ms_closed s \<Longrightarrow> cache_cell k s = Some (v, e)
     \<Longrightarrow> cache_look k now s = (if gone e now then None else Some v)"
    by (auto simp: cache_cell_def cache_look_def mem_CacheGet_def gone_def split: if_splits)
  show "cache_quiet k now c \<Longrightarrow> \<not> ms_closed s \<Longrightarrow> \<not> ms_closed (mem_exec c s)"
    by (cases c) simp_all
  show "cache_quiet k now c \<Longrightarrow> \<not> ms_closed s \<Longrightarrow> cache_cell k s = None
     \<Longrightarrow> cache_cell k (mem_exec c s) = None"
    using cache_exec [of k now c s] by (auto simp: cache_cell_def)
  show "cache_quiet k now c \<Longrightarrow> \<not> ms_closed s \<Longrightarrow> cache_cell k s = Some (v, e)
     \<Longrightarrow> cache_cell k (mem_exec c s) = Some (v, e)
       \<or> gone e now \<and> cache_cell k (mem_exec c s) = None"
    using cache_exec [of k now c s] by (auto simp: cache_cell_def gone_def)
qed

text \<open>A cached value is returned until it expires: after CacheSet, and any calls that
  neither set the key again nor close the store nor ask later than now, CacheGet at now
  returns the value if the time to live was not positive or now is not after the expiry, and a
  miss otherwise. The expiry must not be the zero instant, which the store reads as
  "no expiry".\<close>

theorem mem_cache_ttl:
  assumes "\<not> ms_closed s" and "\<forall>c \<in> set cs. cache_quiet k now c" and "time_add t ttl \<noteq> 0"
  shows "fst (mem_CacheGet now k (mem_run cs (snd (mem_CacheSet t k v ttl s)))) =
    Inr (if sint ttl \<le> 0 \<or> now \<le> time_add t ttl then (v, True) else ([], False))"
proof -
  let ?s = "snd (mem_CacheSet t k v ttl s)"
  let ?e = "if 0 < sint ttl then Some (time_add t ttl) else None"
  have "cache_cell k ?s = Some (v, ?e)" and opened: "\<not> ms_closed ?s"
    using assms(1,3) by (simp_all add: cache_cell_def mem_CacheSet_def Let_def time_is_zero_def)
  from cache.look_after_run [OF assms(2) opened this(1)]
  have look: "cache_look k now (mem_run cs ?s) = (if gone ?e now then None else Some v)"
    by (simp add: mem_run_def)
  have "\<not> ms_closed (mem_run cs ?s)"
    using opened assms(2) by (auto simp: mem_run_closed_iff)
  then have "fst (mem_CacheGet now k (mem_run cs ?s)) =
      Inr (case cache_look k now (mem_run cs ?s) of Some w \<Rightarrow> (w, True) | None \<Rightarrow> ([], False))"
    by (auto simp: mem_CacheGet_def cache_look_def split: option.split)
  then show ?thesis unfolding look by (auto simp: gone_def)
qed

theorem mem_cache_ttl_witness:
  "fst (mem_CacheGet 100 ''k'' (mem_run [CCacheGet 70 ''k'', CPing]
      (snd (mem_CacheSet 50 ''k'' ''v'' 60 mem_New)))) = Inr (''v'', True)"
  using mem_cache_ttl [of mem_New "[CCacheGet 70 ''k'', CPing]" "''k''" 100 50 60 "''v''"]
  by (simp add: mem_New_def time_add_def)

end
