(* ===== verification/Http_Types.thy ===== *)
theory Http_Types
  imports Store_Types
begin

text \<open>
  HTTP responses as the handlers of packages \<open>api\<close>, \<open>auth\<close> and \<open>http\<close> write them: a status, the
  headers that were set and a body, which is a JSON value or plain text. A handler runs on
  the state of the store and is given the claims that the request context carries, if any.
\<close>

datatype body = BJson json | BText string

record response =
  rs_status :: nat
  rs_headers :: "(string \<times> string) list"
  rs_body :: body

type_synonym 's handler = "auth_claims option \<Rightarrow> 's \<Rightarrow> response \<times> 's"

definition json_header :: "(string \<times> string) list" where
  "json_header = [(''Content-Type'', ''application/json'')]"

text \<open>Setting the content type and encoding a value, with the implicit status 200.\<close>

definition okJson :: "json \<Rightarrow> response" where
  "okJson j = \<lparr>rs_status = 200, rs_headers = json_header, rs_body = BJson j\<rparr>"

definition writeError :: "nat \<Rightarrow> string \<Rightarrow> response" where
  "writeError status msg =
     \<lparr>rs_status = status, rs_headers = json_header, rs_body = BJson (JObj [(''error'', JStr msg)])\<rparr>"

lemma response_status [simp]:
  "rs_status (okJson j) = 200"
  "rs_status (writeError st msg) = st"
  by (simp_all add: okJson_def writeError_def)

lemma response_body [simp]: "rs_body (okJson j) = BJson j"
  by (simp add: okJson_def)

end
