(* ===== verification/Auth.thy ===== *)
theory Auth
  imports Http_Types
begin

text \<open>
  Package \<open>auth\<close> (\<open>server/internal/auth\<close>): the bearer token of a request, the HTTP middleware, the
  gate of the WebSocket upgrade, and the Firebase verifier around the Admin SDK.

  A verifier is the interface \<open>auth.Verifier\<close>: it answers a pair of claims and an error, as the
  Go method does. An upserter is the method \<open>UpsertUserOnFirstAuth\<close>; it reads the clock. The
  SDK's \<open>VerifyIDToken\<close> and its constructors are arguments.
\<close>

type_synonym verifier = "string \<Rightarrow> auth_claims \<times> go_error option"
type_synonym 's upserter = "gotime \<Rightarrow> auth_claims \<Rightarrow> 's \<Rightarrow> user res \<times> 's"

section \<open>The bearer token\<close>

definition bearer_prefix :: string where
  "bearer_prefix = ''Bearer ''"

definition bearerFromHeader :: "string \<Rightarrow> string res" where
  "bearerFromHeader h =
     (if h = [] then Inl ErrMissingToken
      else if \<not> has_prefix h bearer_prefix then Inl ErrInvalidToken
      else (let tok = trim_space (drop (length bearer_prefix) h)
            in if tok = [] then Inl ErrMissingToken else Inr tok))"

definition unauthorized :: "string \<Rightarrow> response" where
  "unauthorized reason =
     \<lparr>rs_status = 401, rs_headers = [(''WWW-Authenticate'', ''Bearer error='' @ [CHR 0x22] @ reason @ [CHR 0x22])],
      rs_body = BText ''unauthorized''\<rparr>"

section \<open>The middleware\<close>

text \<open>The user upsert is a side effect whose failure is ignored.\<close>

definition run_upserter :: "'s upserter option \<Rightarrow> gotime \<Rightarrow> auth_claims \<Rightarrow> 's \<Rightarrow> 's" where
  "run_upserter up now claims s =
     (case up of None \<Rightarrow> s | Some f \<Rightarrow> snd (f now claims s))"

definition Middleware ::
  "verifier \<Rightarrow> 's upserter option \<Rightarrow> gotime \<Rightarrow> string \<Rightarrow> 's handler \<Rightarrow> 's \<Rightarrow> response \<times> 's"
where
  "Middleware v up now hdr next s =
     (case bearerFromHeader hdr of
        Inl _ \<Rightarrow> (unauthorized ''invalid_request'', s)
      | Inr tok \<Rightarrow>
          (case v tok of
             (_, Some _) \<Rightarrow> (unauthorized ''invalid_token'', s)
           | (claims, None) \<Rightarrow> next (Some claims) (run_upserter up now claims s)))"

section \<open>The gate of the WebSocket upgrade\<close>

record 's gate =
  gt_v :: "verifier option"
  gt_upserter :: "'s upserter option"

definition NewGate :: "verifier option \<Rightarrow> 's upserter option \<Rightarrow> 's gate" where
  "NewGate v up = \<lparr>gt_v = v, gt_upserter = up\<rparr>"

definition Gate_Verify ::
  "'s gate option \<Rightarrow> gotime \<Rightarrow> string \<Rightarrow> 's \<Rightarrow> (auth_claims \<times> go_error option) \<times> 's"
where
  "Gate_Verify g now idToken s =
     (case g of
        None \<Rightarrow> ((no_claims, Some ErrInvalidToken), s)
      | Some g \<Rightarrow>
          (case gt_v g of
             None \<Rightarrow> ((no_claims, Some ErrInvalidToken), s)
           | Some v \<Rightarrow>
               if idToken = [] then ((no_claims, Some ErrMissingToken), s)
               else (case v idToken of
                       (_, Some err) \<Rightarrow> ((no_claims, Some err), s)
                     | (claims, None) \<Rightarrow>
                         ((claims, None), run_upserter (gt_upserter g) now claims s))))"

section \<open>Firebase\<close>

text \<open>
  A decoded token: its user id and its claims, a JSON object whose values are strings, objects
  or something else.
\<close>

datatype go_any = AStr string | AMap "(string \<times> go_any) list" | AOther

record fb_token =
  tk_uid :: string
  tk_claims :: "(string \<times> go_any) list"

definition any_string :: "go_any option \<Rightarrow> string option" where
  "any_string v = (case v of Some (AStr s) \<Rightarrow> Some s | _ \<Rightarrow> None)"

definition claimsFrom :: "fb_token \<Rightarrow> auth_claims" where
  "claimsFrom tok =
     (let c = \<lparr>c_uid = tk_uid tok, c_email = [], c_name = [], c_provider = []\<rparr>;
          c = (case any_string (map_of (tk_claims tok) ''email'') of
                 Some v \<Rightarrow> c\<lparr>c_email := v\<rparr> | None \<Rightarrow> c);
          c = (case any_string (map_of (tk_claims tok) ''name'') of
                 Some v \<Rightarrow> c\<lparr>c_name := v\<rparr> | None \<Rightarrow> c)
      in case map_of (tk_claims tok) ''firebase'' of
           Some (AMap fb) \<Rightarrow>
             (case any_string (map_of fb ''sign_in_provider'') of
                Some v \<Rightarrow> c\<lparr>c_provider := v\<rparr> | None \<Rightarrow> c)
         | _ \<Rightarrow> c)"

lemma claimsFrom_fields:
  "c_uid (claimsFrom t) = tk_uid t"
  "c_email (claimsFrom t) = (case any_string (map_of (tk_claims t) ''email'') of Some v \<Rightarrow> v | None \<Rightarrow> [])"
  "c_name (claimsFrom t) = (case any_string (map_of (tk_claims t) ''name'') of Some v \<Rightarrow> v | None \<Rightarrow> [])"
  "c_provider (claimsFrom t) = (case map_of (tk_claims t) ''firebase'' of
     Some (AMap fb) \<Rightarrow> (case any_string (map_of fb ''sign_in_provider'') of Some v \<Rightarrow> v | None \<Rightarrow> [])
   | _ \<Rightarrow> [])"
  by (simp_all add: claimsFrom_def Let_def split: option.split go_any.split)

text \<open>
  \<open>NewFirebase\<close> rejects empty credentials, then lets the SDK build an application and from it
  an authentication client; \<open>Verify\<close> on a nil receiver or client fails.
\<close>

definition NewFirebase ::
  "(string \<Rightarrow> string \<Rightarrow> 'app res) \<Rightarrow> ('app \<Rightarrow> 'client res) \<Rightarrow> string \<Rightarrow> string \<Rightarrow> 'client res"
where
  "NewFirebase sdk_app sdk_auth credentialsJSON projectID =
     (if credentialsJSON = [] \<or> projectID = []
      then Inl (ErrText ''auth: credentialsJSON and projectID required'')
      else (case sdk_app credentialsJSON projectID of
              Inl err \<Rightarrow> Inl (ErrWrap ''auth: firebase app'' err)
            | Inr app \<Rightarrow>
                (case sdk_auth app of
                   Inl err \<Rightarrow> Inl (ErrWrap ''auth: firebase auth client'' err)
                 | Inr c \<Rightarrow> Inr c)))"

definition Firebase_Verify :: "('client \<Rightarrow> string \<Rightarrow> fb_token res) \<Rightarrow> 'client option \<Rightarrow> verifier" where
  "Firebase_Verify sdk_verify f idToken =
     (case f of
        None \<Rightarrow> (no_claims, Some (ErrText ''auth: verifier closed''))
      | Some client \<Rightarrow>
          (case sdk_verify client idToken of
             Inl err \<Rightarrow> (no_claims, Some (ErrWrap ''auth'' ErrInvalidToken))
           | Inr tok \<Rightarrow> (claimsFrom tok, None)))"

section \<open>Properties\<close>

lemma bearer_cases:
  obtains "h = []" "bearerFromHeader h = Inl ErrMissingToken"
  | "h \<noteq> []" "\<not> has_prefix h bearer_prefix" "bearerFromHeader h = Inl ErrInvalidToken"
  | rest where "h = bearer_prefix @ rest" "trim_space rest = []" "bearerFromHeader h = Inl ErrMissingToken"
  | rest where "h = bearer_prefix @ rest" "trim_space rest \<noteq> []" "bearerFromHeader h = Inr (trim_space rest)"
  using has_prefixD [of h bearer_prefix]
  by (cases "h = []"; cases "has_prefix h bearer_prefix";
      cases "trim_space (drop (length bearer_prefix) h) = []")
    (auto simp: bearerFromHeader_def Let_def)

text \<open>The bearer token of a header is accepted exactly when the header starts with "Bearer "
  and the rest is not blank; the token is the rest without surrounding white space. A blank
  token and an empty header are missing tokens, any other scheme is an invalid one.\<close>

theorem bearerFromHeader_spec:
  "(bearerFromHeader h = Inr tok \<longleftrightarrow> (\<exists>rest. h = ''Bearer '' @ rest \<and> trim_space rest = tok \<and> tok \<noteq> []))
   \<and> (bearerFromHeader h = Inl ErrMissingToken \<longleftrightarrow>
        h = [] \<or> (\<exists>rest. h = ''Bearer '' @ rest \<and> trim_space rest = []))
   \<and> (bearerFromHeader h = Inl ErrInvalidToken \<longleftrightarrow> h \<noteq> [] \<and> take 7 h \<noteq> ''Bearer '')"
  by (rule bearer_cases [of h]) (auto simp: bearer_prefix_def has_prefix_def numeral_eq_Suc)

text \<open>The middleware lets a request through only with a token that the verifier accepts: then
  the handler runs with the verified claims, after the user upsert, whose failure is ignored.
  Every other request is answered 401 without running the handler or touching the store.\<close>

theorem Middleware_guards:
  "(\<exists>tok claims. bearerFromHeader hdr = Inr tok \<and> v tok = (claims, None)
      \<and> Middleware v up now hdr next s = next (Some claims) (run_upserter up now claims s))
   \<or> ((\<forall>tok claims. bearerFromHeader hdr = Inr tok \<longrightarrow> v tok \<noteq> (claims, None))
      \<and> (\<forall>next'. Middleware v up now hdr next' s = Middleware v up now hdr next s)
      \<and> rs_status (fst (Middleware v up now hdr next s)) = 401
      \<and> snd (Middleware v up now hdr next s) = s)"
proof (cases "bearerFromHeader hdr")
  case (Inl e)
  then show ?thesis by (simp add: Middleware_def unauthorized_def)
next
  case (Inr tok)
  then show ?thesis
    by (cases "v tok"; cases "snd (v tok)") (auto simp: Middleware_def unauthorized_def)
qed

definition reject_all :: verifier where
  "reject_all tok = (no_claims, Some ErrInvalidToken)"

theorem Middleware_guards_witness:
  "rs_status (fst (Middleware reject_all None 0 ''Bearer x'' (\<lambda>c s. (okJson JNull, s)) (0::nat))) = 401"
proof -
  have "\<not> (\<exists>tok claims. bearerFromHeader ''Bearer x'' = Inr tok \<and> reject_all tok = (claims, None))"
    by (simp add: reject_all_def)
  then show ?thesis
    using Middleware_guards [of "''Bearer x''" reject_all None 0 "\<lambda>c s. (okJson JNull, s)" "0::nat"]
    by blast
qed

text \<open>The WebSocket gate returns claims only for a non-empty token that its verifier accepts,
  and then they are the verifier's claims; on every rejection the claims are empty (so the
  rejection frame carries no user id) and the store is untouched.\<close>

theorem Gate_Verify_spec:
  "(case Gate_Verify g now tok s of
      ((claims, None), s') \<Rightarrow>
         tok \<noteq> [] \<and> (\<exists>g' v. g = Some g' \<and> gt_v g' = Some v \<and> v tok = (claims, None)
            \<and> s' = run_upserter (gt_upserter g') now claims s)
    | ((claims, Some err), s') \<Rightarrow> claims = no_claims \<and> s' = s)"
  by (auto simp: Gate_Verify_def split: option.split prod.split)

text \<open>The Firebase verifier reports every token the SDK rejects as an invalid token, so that
  \<open>errors.Is(err, ErrInvalidToken)\<close> holds, and otherwise returns the token's user id with the
  e-mail, name and provider claims that are strings (empty where they are not).\<close>

theorem Firebase_Verify_spec:
  "case Firebase_Verify sdk (Some client) tok of
     (claims, Some err) \<Rightarrow> errors_is err ErrInvalidToken \<and> claims = no_claims \<and> (\<exists>e. sdk client tok = Inl e)
   | (claims, None) \<Rightarrow> (\<exists>t. sdk client tok = Inr t \<and> c_uid claims = tk_uid t
        \<and> c_email claims = (case map_of (tk_claims t) ''email'' of Some (AStr m) \<Rightarrow> m | _ \<Rightarrow> [])
        \<and> c_name claims = (case map_of (tk_claims t) ''name'' of Some (AStr m) \<Rightarrow> m | _ \<Rightarrow> [])
        \<and> c_provider claims = (case map_of (tk_claims t) ''firebase'' of
             Some (AMap fb) \<Rightarrow> (case map_of fb ''sign_in_provider'' of Some (AStr m) \<Rightarrow> m | _ \<Rightarrow> [])
           | _ \<Rightarrow> []))"
proof (cases "sdk client tok")
  case (Inl e)
  then show ?thesis by (simp add: Firebase_Verify_def)
next
  case (Inr t)
  have any: "any_string v = (case v of Some (AStr m) \<Rightarrow> Some m | _ \<Rightarrow> None)" for v
    by (simp add: any_string_def)
  have str: "(case (case v of Some (AStr m) \<Rightarrow> Some m | _ \<Rightarrow> None) of Some m \<Rightarrow> m | None \<Rightarrow> [])
      = (case v of Some (AStr m) \<Rightarrow> m | _ \<Rightarrow> [])" for v
    by (simp split: option.split go_any.split)
  show ?thesis
    using Inr by (simp add: Firebase_Verify_def claimsFrom_fields any str)
      (simp add: any str split: option.split go_any.split)
qed

end
