(* ===== verification/Scoring.thy ===== *)
theory Scoring
  imports Store_Types
begin

text \<open>
  Server-side scoring, \<open>server/internal/api/scoring.go\<close>. \<open>Score\<close> is the loop of the source; the
  theorems relate it to the number of wrong guesses before the first right one and show what
  \<open>finalize\<close> makes of an attempt.
\<close>

definition scoreFirstSolve :: int where "scoreFirstSolve = 100"
definition scorePerGuess :: int where "scorePerGuess = 15"
definition scoreFloor :: int where "scoreFloor = 0"
definition MaxGuesses :: nat where "MaxGuesses = 6"

lemmas score_consts = scoreFirstSolve_def scorePerGuess_def scoreFloor_def MaxGuesses_def

text \<open>\<open>strings.ToLower(strings.TrimSpace(s))\<close>\<close>

definition norm_word :: "(string \<Rightarrow> string) \<Rightarrow> string \<Rightarrow> string" where
  "norm_word uni s = to_lower uni (trim_space s)"

fun score_loop :: "(string \<Rightarrow> string) \<Rightarrow> string \<Rightarrow> nat \<Rightarrow> string list \<Rightarrow> int64 \<times> bool" where
  "score_loop uni target i [] = (word_of_int scoreFloor, False)"
| "score_loop uni target i (g # gs) =
     (if i \<ge> MaxGuesses then (word_of_int scoreFloor, False)
      else if norm_word uni g = target then
        (let n = scoreFirstSolve - int i * scorePerGuess;
             n = (if n < scoreFloor then scoreFloor else n)
         in (word_of_int n, True))
      else score_loop uni target (Suc i) gs)"

definition Score :: "(string \<Rightarrow> string) \<Rightarrow> string \<Rightarrow> string list \<Rightarrow> int64 \<times> bool" where
  "Score uni solution guesses =
     (let target = norm_word uni solution
      in if target = [] \<or> guesses = [] then (word_of_int scoreFloor, False)
         else score_loop uni target 0 guesses)"

definition finalize :: "(string \<Rightarrow> string) \<Rightarrow> attempt \<Rightarrow> string \<Rightarrow> attempt" where
  "finalize uni a solution =
     (case Score uni solution (a_guesses a) of
        (score, won) \<Rightarrow>
          a\<lparr>a_score := score, a_won := won,
            a_in_progress := (\<not> won \<and> length (a_guesses a) < MaxGuesses)\<rparr>)"

section \<open>The loop counts the wrong guesses\<close>

definition misses :: "(string \<Rightarrow> string) \<Rightarrow> string \<Rightarrow> string list \<Rightarrow> nat" where
  "misses uni target gs = length (takeWhile (\<lambda>g. norm_word uni g \<noteq> target) gs)"

definition points :: "nat \<Rightarrow> int64" where
  "points k = word_of_int (100 - 15 * int k)"

lemma misses_simps [simp]:
  "misses uni t [] = 0"
  "misses uni t (g # gs) = (if norm_word uni g = t then 0 else Suc (misses uni t gs))"
  by (simp_all add: misses_def)

lemma misses_le: "misses uni t gs \<le> length gs"
  by (simp add: misses_def length_takeWhile_le)

lemma score_loop_eq:
  "score_loop uni t i gs =
     (if misses uni t gs < length gs \<and> i + misses uni t gs < 6
      then (points (i + misses uni t gs), True) else (0, False))"
proof (induction gs arbitrary: i)
  case (Cons g gs)
  show ?case
  proof (cases "norm_word uni g = t")
    case True
    then show ?thesis by (auto simp: score_consts points_def Let_def algebra_simps)
  next
    case False
    then show ?thesis using Cons.IH [of "Suc i"] by (auto simp: score_consts)
  qed
qed (simp add: scoreFloor_def)

lemma Score_eq:
  "Score uni sol gs =
     (let t = norm_word uni sol; k = misses uni t gs
      in if t \<noteq> [] \<and> k < length gs \<and> k < 6 then (points k, True) else (0, False))"
  by (auto simp: Score_def Let_def score_loop_eq scoreFloor_def)

lemma sint_points:
  assumes "k < 6"
  shows "sint (points k) = 100 - 15 * int k"
proof -
  from assms consider "k = 0" | "k = 1" | "k = 2" | "k = 3" | "k = 4" | "k = 5" by linarith
  then show ?thesis by cases (simp_all add: points_def)
qed

lemma misses_nth:
  "misses uni t gs < length gs \<Longrightarrow> norm_word uni (gs ! misses uni t gs) = t"
  by (induction gs) (auto split: if_splits)

lemma misses_before: "j < misses uni t gs \<Longrightarrow> norm_word uni (gs ! j) \<noteq> t"
  by (induction gs arbitrary: j) (auto simp: nth_Cons split: if_splits nat.splits)

lemma misses_lt_iff: "misses uni t gs < length gs \<longleftrightarrow> (\<exists>g \<in> set gs. norm_word uni g = t)"
  by (induction gs) auto

text \<open>C28: Score is the reference scoring: with k the number of guesses before the first one that
  equals the solution up to letter case and surrounding white space, it is a win worth
  100 - 15 k points if such a guess exists among the first six and the solution is not
  blank, and a loss worth 0 otherwise.\<close>

theorem Score_reference:
  "Score uni sol gs =
     (let t = norm_word uni sol; k = length (takeWhile (\<lambda>g. norm_word uni g \<noteq> t) gs)
      in if t \<noteq> [] \<and> k < length gs \<and> k < 6
         then (word_of_int (100 - 15 * int k), True) else (0, False))"
  by (simp only: Score_eq misses_def points_def)

text \<open>C29: A score never leaves its range: it is at least 25 and at most 100 for a win, 0 for a
  loss, and a win is exactly a guess among the first six that matches a solution that is not
  blank; in particular the clamp to the floor in the loop never acts.\<close>

theorem Score_range:
  "case Score uni sol gs of (score, won) \<Rightarrow>
     (if won then 25 \<le> sint score \<and> sint score \<le> 100 else score = 0)
     \<and> (won \<longleftrightarrow> norm_word uni sol \<noteq> [] \<and> (\<exists>g \<in> set (take 6 gs). norm_word uni g = norm_word uni sol))"
proof -
  let ?t = "norm_word uni sol"
  let ?k = "misses uni ?t gs"
  have win: "?k < length gs \<and> ?k < 6 \<longleftrightarrow> (\<exists>g \<in> set (take 6 gs). norm_word uni g = ?t)"
  proof
    assume a: "?k < length gs \<and> ?k < 6"
    then have "norm_word uni (take 6 gs ! ?k) = ?t" "?k < length (take 6 gs)"
      using misses_nth by simp_all
    then show "\<exists>g \<in> set (take 6 gs). norm_word uni g = ?t" by (metis nth_mem)
  next
    assume "\<exists>g \<in> set (take 6 gs). norm_word uni g = ?t"
    then obtain j where j: "j < 6" "j < length gs" "norm_word uni (gs ! j) = ?t"
      by (auto simp: in_set_conv_nth)
    then have "\<not> j < ?k" using misses_before by blast
    with j show "?k < length gs \<and> ?k < 6" by simp
  qed
  have "?k < 6 \<Longrightarrow> 25 \<le> sint (points ?k) \<and> sint (points ?k) \<le> 100"
    by (simp add: sint_points)
  then show ?thesis
    using win by (auto simp: Score_eq Let_def)
qed

text \<open>Guesses after the sixth never change the score, and neither does anything after a
  winning guess: the score of a list of guesses is the score of its first six, and extending
  a list that already wins keeps its score.\<close>

theorem Score_prefix:
  "Score uni sol (take 6 gs) = Score uni sol gs
   \<and> (snd (Score uni sol gs) \<longrightarrow> Score uni sol (gs @ extra) = Score uni sol gs)"
proof -
  let ?t = "norm_word uni sol"
  have take: "misses uni ?t (take n gs) = min n (misses uni ?t gs)" for n
  proof (induction gs arbitrary: n)
    case (Cons g gs)
    then show ?case by (cases n) auto
  qed simp
  have app: "misses uni ?t gs < length gs \<Longrightarrow> misses uni ?t (gs @ extra) = misses uni ?t gs"
    by (induction gs) auto
  have "Score uni sol (take 6 gs) = Score uni sol gs"
    using misses_le [of uni ?t gs] by (auto simp: Score_eq Let_def take min_def)
  moreover have "snd (Score uni sol gs) \<Longrightarrow> Score uni sol (gs @ extra) = Score uni sol gs"
    by (auto simp: Score_eq Let_def app split: if_splits)
  ultimately show ?thesis by blast
qed

theorem Score_prefix_witness:
  "snd (Score (\<lambda>s. s) ''League'' [''hello'', '' LEAGUE '']) \<and>
   Score (\<lambda>s. s) ''League'' ([''hello'', '' LEAGUE ''] @ [''again'']) = (85, True)"
proof -
  have s: "Score (\<lambda>s. s) ''League'' [''hello'', '' LEAGUE ''] = (85, True)" by code_simp
  show ?thesis
    using Score_prefix [of "\<lambda>s. s" "''League''" "[''hello'', '' LEAGUE '']" "[''again'']"] by (simp add: s)
qed

text \<open>finalize re-derives the result: whatever score, win flag and progress flag an attempt
  carries, the finalized attempt has the server's score and win, is in progress exactly when
  it is lost so far with fewer than six guesses, and keeps its user, date, guesses and time.\<close>

theorem finalize_overrides:
  "finalize uni (a\<lparr>a_score := sc, a_won := w, a_in_progress := ip\<rparr>) sol = finalize uni a sol
   \<and> (a_score (finalize uni a sol), a_won (finalize uni a sol)) = Score uni sol (a_guesses a)
   \<and> a_in_progress (finalize uni a sol) = (\<not> snd (Score uni sol (a_guesses a)) \<and> length (a_guesses a) < 6)
   \<and> a_uid (finalize uni a sol) = a_uid a \<and> a_date (finalize uni a sol) = a_date a
   \<and> a_guesses (finalize uni a sol) = a_guesses a \<and> a_completed (finalize uni a sol) = a_completed a"
  by (cases a) (simp add: finalize_def MaxGuesses_def split: prod.split)

lemma finalize_simps [simp]:
  "a_uid (finalize uni a sol) = a_uid a"
  "a_date (finalize uni a sol) = a_date a"
  "a_guesses (finalize uni a sol) = a_guesses a"
  "a_score (finalize uni a sol) = fst (Score uni sol (a_guesses a))"
  "a_won (finalize uni a sol) = snd (Score uni sol (a_guesses a))"
  by (simp_all add: finalize_def split: prod.split)

end
