(* ===== verification/Go_Utf8.thy ===== *)
theory Go_Utf8
  imports Go_Strings
begin

text \<open>
  UTF-8 and string literals as \<open>unicode/utf8\<close> and \<open>encoding/json\<close> treat them. A Go string need not be
  valid UTF-8; both packages replace every byte that is not part of a valid encoding by U+FFFD.

  \<^item> \<open>rune_len\<close> is the length of the multi-byte encoding at the start of a string, 0 if there is none
    (\<open>utf8.DecodeRune\<close>); \<open>to_valid\<close> is the replacement;
  \<^item> \<open>quote_body\<close> is \<open>appendString\<close> of the encoder (between the quotes, with the HTML escapes that an
    \<open>Encoder\<close> has on by default);
  \<^item> \<open>unquote\<close> is \<open>unquoteBytes\<close> of the decoder, on a literal that the scanner has accepted.

  The theorem at the end: reading back what was written gives the string, made valid.
\<close>

section \<open>Multi-byte encodings\<close>

definition in_range :: "nat \<Rightarrow> nat \<Rightarrow> char \<Rightarrow> bool" where
  "in_range lo hi c \<longleftrightarrow> lo \<le> ord8 c \<and> ord8 c \<le> hi"

abbreviation cont :: "char \<Rightarrow> bool" where
  "cont \<equiv> in_range 128 191"

text \<open>The second byte of three and of four, by the first one.\<close>

definition second3 :: "char \<Rightarrow> char \<Rightarrow> bool" where
  "second3 a b \<longleftrightarrow>
     (if ord8 a = 224 then in_range 160 191 b
      else if ord8 a = 237 then in_range 128 159 b
      else in_range 225 239 a \<and> cont b)"

definition second4 :: "char \<Rightarrow> char \<Rightarrow> bool" where
  "second4 a b \<longleftrightarrow>
     (if ord8 a = 240 then in_range 144 191 b
      else if ord8 a = 244 then in_range 128 143 b
      else in_range 241 243 a \<and> cont b)"

fun rune_len :: "string \<Rightarrow> nat" where
  "rune_len (a # b # s) =
     (if in_range 194 223 a \<and> cont b then 2
      else (case s of
              c # s' \<Rightarrow>
                if second3 a b \<and> cont c then 3
                else (case s' of d # _ \<Rightarrow> if second4 a b \<and> cont c \<and> cont d then 4 else 0 | [] \<Rightarrow> 0)
            | [] \<Rightarrow> 0))"
| "rune_len _ = 0"

lemma second_high: "second3 a b \<Longrightarrow> 224 \<le> ord8 a \<and> ord8 a \<le> 239 \<and> cont b"
  "second4 a b \<Longrightarrow> 240 \<le> ord8 a \<and> ord8 a \<le> 244 \<and> cont b"
  by (auto simp: second3_def second4_def in_range_def split: if_splits)

lemma rune_len_cases:
  obtains "rune_len s = 0"
  | a b s' where "s = [a, b] @ s'" "rune_len s = 2" "in_range 194 223 a" "cont b"
  | a b c s' where "s = [a, b, c] @ s'" "rune_len s = 3" "second3 a b" "cont c"
  | a b c d s' where "s = [a, b, c, d] @ s'" "rune_len s = 4" "second4 a b" "cont c" "cont d"
proof (cases "rune_len s = 0")
  case False
  then obtain a b t where s: "s = a # b # t" by (cases s rule: rune_len.cases) auto
  consider "in_range 194 223 a \<and> cont b" | c t' where "t = c # t'" "\<not> (in_range 194 223 a \<and> cont b)" "second3 a b \<and> cont c"
    | c d t' where "t = c # d # t'" "\<not> (in_range 194 223 a \<and> cont b)" "\<not> (second3 a b \<and> cont c)"
        "second4 a b \<and> cont c \<and> cont d"
    using False by (auto simp: s split: if_splits list.splits)
  then show ?thesis by cases (use that s in auto)
qed (use that in blast)

text \<open>The encoding at the start of \<open>s\<close> and what comes after it.\<close>

definition rune :: "string \<Rightarrow> string" where "rune s = take (rune_len s) s"
definition after_rune :: "string \<Rightarrow> string" where "after_rune s = drop (rune_len s) s"

lemma rune_append: "rune s @ after_rune s = s"
  by (simp add: rune_def after_rune_def)

lemma rune_bytes: "c \<in> set (rune s) \<Longrightarrow> 128 \<le> ord8 c"
  by (cases s rule: rune_len_cases) (auto simp: rune_def in_range_def dest!: second_high)

lemma rune_len_stable: "rune_len s \<noteq> 0 \<Longrightarrow> rune_len (rune s @ t) = rune_len s"
  by (cases s rule: rune_len_cases)
    (auto simp: rune_def in_range_def second3_def second4_def split: if_splits)

lemma rune_len_ascii: "rune_len s \<noteq> 0 \<Longrightarrow> \<exists>c s'. s = c # s' \<and> 128 \<le> ord8 c"
  by (cases s rule: rune_len_cases) (auto simp: in_range_def dest!: second_high)

lemma after_rune_shorter: "rune_len (c # s) \<noteq> 0 \<Longrightarrow> length (after_rune (c # s)) \<le> length s"
  by (cases "c # s" rule: rune_len_cases) (auto simp: after_rune_def)

definition rune_error :: string where
  "rune_error = [CHR 0xEF, CHR 0xBF, CHR 0xBD]"

function to_valid :: "string \<Rightarrow> string" where
  "to_valid [] = []"
| "to_valid (c # s) =
     (if is_ascii c then c # to_valid s
      else if rune_len (c # s) = 0 then rune_error @ to_valid s
      else rune (c # s) @ to_valid (after_rune (c # s)))"
  by pat_completeness auto
termination
  by (relation "measure length") (auto simp: less_Suc_eq_le after_rune_shorter)

definition valid_utf8 :: "string \<Rightarrow> bool" where
  "valid_utf8 s \<longleftrightarrow> to_valid s = s"


section \<open>Writing a literal\<close>

definition backslash :: char where "backslash = CHR 0x5C"
definition quote_chr :: char where "quote_chr = CHR 0x22"

definition hex_chr :: "nat \<Rightarrow> char" where
  "hex_chr n = ''0123456789abcdef'' ! n"

definition esc :: "char \<Rightarrow> string" where
  "esc c =
     (if c = backslash \<or> c = quote_chr then [backslash, c]
      else if c = CHR 0x08 then [backslash, CHR ''b'']
      else if c = CHR 0x0C then [backslash, CHR ''f'']
      else if c = CHR 0x0A then [backslash, CHR ''n'']
      else if c = CHR 0x0D then [backslash, CHR ''r'']
      else if c = CHR 0x09 then [backslash, CHR ''t'']
      else if ord8 c < 32 \<or> c = CHR ''<'' \<or> c = CHR ''>'' \<or> c = CHR ''&''
      then [backslash, CHR ''u'', CHR ''0'', CHR ''0'', hex_chr (ord8 c div 16), hex_chr (ord8 c mod 16)]
      else [c])"

definition line_separator :: string where "line_separator = [CHR 0xE2, CHR 0x80, CHR 0xA8]"
definition paragraph_separator :: string where "paragraph_separator = [CHR 0xE2, CHR 0x80, CHR 0xA9]"

function quote_body :: "string \<Rightarrow> string" where
  "quote_body [] = []"
| "quote_body (c # s) =
     (if is_ascii c then esc c @ quote_body s
      else if rune_len (c # s) = 0 then backslash # ''ufffd'' @ quote_body s
      else if rune (c # s) = line_separator then backslash # ''u2028'' @ quote_body (after_rune (c # s))
      else if rune (c # s) = paragraph_separator then backslash # ''u2029'' @ quote_body (after_rune (c # s))
      else rune (c # s) @ quote_body (after_rune (c # s)))"
  by pat_completeness auto
termination
  by (relation "measure length") (auto simp: less_Suc_eq_le after_rune_shorter)

section \<open>Reading a literal\<close>

definition is_hex :: "char \<Rightarrow> bool" where
  "is_hex c \<longleftrightarrow> is_digit c \<or> in_range 97 102 c \<or> in_range 65 70 c"

definition hex_val :: "char \<Rightarrow> nat" where
  "hex_val c = (if is_digit c then ord8 c - 48 else if in_range 97 102 c then ord8 c - 87 else ord8 c - 55)"

text \<open>Four hexadecimal digits at the start, and the rest.\<close>

fun four_hex :: "string \<Rightarrow> (nat \<times> string) option" where
  "four_hex (h1 # h2 # h3 # h4 # s) =
     (if is_hex h1 \<and> is_hex h2 \<and> is_hex h3 \<and> is_hex h4
      then Some (((hex_val h1 * 16 + hex_val h2) * 16 + hex_val h3) * 16 + hex_val h4, s) else None)"
| "four_hex _ = None"

definition is_surrogate :: "nat \<Rightarrow> bool" where
  "is_surrogate n \<longleftrightarrow> 0xD800 \<le> n \<and> n < 0xE000"

text \<open>\<open>utf8.EncodeRune\<close>, for numbers below 0x110000 that are not surrogates.\<close>

definition encode_rune :: "nat \<Rightarrow> string" where
  "encode_rune n =
     (if n < 0x80 then [char_of n]
      else if n < 0x800 then [char_of (0xC0 + n div 64), char_of (0x80 + n mod 64)]
      else if n < 0x10000 then
        [char_of (0xE0 + n div 4096), char_of (0x80 + n div 64 mod 64), char_of (0x80 + n mod 64)]
      else [char_of (0xF0 + n div 262144), char_of (0x80 + n div 4096 mod 64), char_of (0x80 + n div 64 mod 64),
            char_of (0x80 + n mod 64)])"

text \<open>The second half of a surrogate pair, written as an escape, at the start: the pair's number.\<close>

fun pair_with :: "nat \<Rightarrow> string \<Rightarrow> (nat \<times> string) option" where
  "pair_with n (b # u # s) =
     (if b = backslash \<and> u = CHR ''u'' then
        (case four_hex s of
           Some (m, t) \<Rightarrow>
             if n < 0xDC00 \<and> 0xDC00 \<le> m \<and> m < 0xE000
             then Some ((n - 0xD800) * 1024 + (m - 0xDC00) + 0x10000, t) else None
         | None \<Rightarrow> None)
      else None)"
| "pair_with n _ = None"

fun unesc :: "char \<Rightarrow> char" where
  "unesc e =
     (if e = CHR ''b'' then CHR 0x08 else if e = CHR ''f'' then CHR 0x0C else if e = CHR ''n'' then CHR 0x0A
      else if e = CHR ''r'' then CHR 0x0D else if e = CHR ''t'' then CHR 0x09 else e)"

text \<open>An escape that is cut short, which the scanner does not let through, ends the string.\<close>

lemma four_hex_shorter: "four_hex s = Some (n, t) \<Longrightarrow> length t < length s"
  by (cases s rule: four_hex.cases) (auto split: if_splits)

lemma pair_with_shorter: "pair_with n s = Some (m, t) \<Longrightarrow> length t < length s"
  by (cases "(n, s)" rule: pair_with.cases) (auto split: if_splits option.splits dest: four_hex_shorter)

function unquote :: "string \<Rightarrow> string" where
  "unquote [] = []"
| "unquote (c # s) =
     (if c = backslash then
        (case s of
           [] \<Rightarrow> []
         | e # t \<Rightarrow>
             if e = CHR ''u'' then
               (case four_hex t of
                  None \<Rightarrow> []
                | Some (n, t1) \<Rightarrow>
                    if is_surrogate n then
                      (case pair_with n t1 of
                         Some (m, t2) \<Rightarrow> encode_rune m @ unquote t2
                       | None \<Rightarrow> rune_error @ unquote t1)
                    else encode_rune n @ unquote t1)
             else unesc e # unquote t)
      else if is_ascii c then c # unquote s
      else if rune_len (c # s) = 0 then rune_error @ unquote s
      else rune (c # s) @ unquote (after_rune (c # s)))"
  by pat_completeness auto
termination
  by (relation "measure length")
    (auto simp: less_Suc_eq_le after_rune_shorter dest!: four_hex_shorter pair_with_shorter)

declare quote_body.simps(2) [simp del] unquote.simps(2) [simp del] to_valid.simps(2) [simp del]

section \<open>What was written is read back\<close>

text \<open>The three shapes in which an ASCII character is written.\<close>

definition escapable :: "char \<Rightarrow> bool" where
  "escapable e \<longleftrightarrow> e \<in> set [quote_chr, backslash, CHR ''/'', CHR ''b'', CHR ''f'', CHR ''n'', CHR ''r'', CHR ''t'']"

lemma hex_chr: "k < 16 \<Longrightarrow> is_hex (hex_chr k) \<and> hex_val (hex_chr k) = k"
proof -
  have "list_all (\<lambda>k. is_hex (hex_chr k) \<and> hex_val (hex_chr k) = k) [0..<16]" by code_simp
  then show "k < 16 \<Longrightarrow> is_hex (hex_chr k) \<and> hex_val (hex_chr k) = k" by (simp only: list_all_iff) simp
qed

lemma esc_cases:
  assumes "is_ascii c"
  obtains "esc c = [c]" "c \<noteq> backslash" "c \<noteq> quote_chr" "32 \<le> ord8 c"
  | e where "esc c = [backslash, e]" "escapable e" "unesc e = c"
  | h1 h2 h3 h4 n where "esc c = [backslash, CHR ''u'', h1, h2, h3, h4]" "list_all is_hex [h1, h2, h3, h4]"
      "n < 128" "\<And>t. four_hex (h1 # h2 # h3 # h4 # t) = Some (n, t)" "encode_rune n = [c]"
proof -
  let ?u = "[backslash, CHR ''u'', CHR ''0'', CHR ''0'', hex_chr (ord8 c div 16), hex_chr (ord8 c mod 16)]"
  have small: "ord8 c < 128" using assms by (simp add: is_ascii_def)
  have hex: "is_hex (CHR ''0'')" "hex_val (CHR ''0'') = 0" by code_simp+
  have literal: "esc backslash = [backslash, backslash] \<and> escapable backslash \<and> unesc backslash = backslash"
    "esc quote_chr = [backslash, quote_chr] \<and> escapable quote_chr \<and> unesc quote_chr = quote_chr"
    "esc (CHR 0x08) = [backslash, CHR ''b''] \<and> escapable (CHR ''b'') \<and> unesc (CHR ''b'') = CHR 0x08"
    "esc (CHR 0x0C) = [backslash, CHR ''f''] \<and> escapable (CHR ''f'') \<and> unesc (CHR ''f'') = CHR 0x0C"
    "esc (CHR 0x0A) = [backslash, CHR ''n''] \<and> escapable (CHR ''n'') \<and> unesc (CHR ''n'') = CHR 0x0A"
    "esc (CHR 0x0D) = [backslash, CHR ''r''] \<and> escapable (CHR ''r'') \<and> unesc (CHR ''r'') = CHR 0x0D"
    "esc (CHR 0x09) = [backslash, CHR ''t''] \<and> escapable (CHR ''t'') \<and> unesc (CHR ''t'') = CHR 0x09"
    by code_simp+
  have rest: "esc c = ?u \<or> esc c = [c] \<and> 32 \<le> ord8 c"
    if "c \<noteq> backslash" "c \<noteq> quote_chr" "c \<noteq> CHR 0x08" "c \<noteq> CHR 0x0C" "c \<noteq> CHR 0x0A" "c \<noteq> CHR 0x0D" "c \<noteq> CHR 0x09"
    unfolding esc_def using that by (simp only: if_False if_True simp_thms) (simp add: not_less)
  consider "c = backslash" | "c = quote_chr" | "c = CHR 0x08" | "c = CHR 0x0C" | "c = CHR 0x0A" | "c = CHR 0x0D"
    | "c = CHR 0x09" | "esc c = ?u" | "esc c = [c]" "c \<noteq> backslash" "c \<noteq> quote_chr" "32 \<le> ord8 c"
    using rest by blast
  then show ?thesis
  proof cases
    case 8
    have "encode_rune (ord8 c) = [c]" using small by (simp add: encode_rune_def) (simp add: ord8_def)
    moreover have "ord8 c div 16 < 16" "ord8 c mod 16 < 16" using small by auto
    ultimately show ?thesis using small hex by (intro that(3) [OF 8]) (simp_all add: hex_chr)
  next
    case 9
    then show ?thesis by (rule that(1))
  qed (use that(2) literal in auto)
qed

lemma unquote_esc:
  assumes "is_ascii c"
  shows "unquote (esc c @ t) = c # unquote t"
  using assms
proof (cases rule: esc_cases)
  case 1
  then show ?thesis using assms by (simp add: unquote.simps)
next
  case (2 e)
  then have "e \<noteq> CHR ''u''" by (auto simp: escapable_def quote_chr_def backslash_def)
  with 2 show ?thesis by (simp add: unquote.simps(2) [of backslash])
next
  case (3 h1 h2 h3 h4 n)
  then show ?thesis by (simp add: unquote.simps(2) [of backslash] is_surrogate_def)
qed

lemma unquote_rune:
  assumes "rune_len (c # s) \<noteq> 0"
  shows "unquote (rune (c # s) @ t) = rune (c # s) @ unquote t"
proof -
  obtain r where r: "rune (c # s) = c # r"
    using assms by (cases "rune_len (c # s)") (auto simp: rune_def)
  have high: "128 \<le> ord8 c" using rune_bytes [of c "c # s"] r by simp
  have len: "rune_len (c # r @ t) = rune_len (c # s)"
    using rune_len_stable [OF assms, of t] r by simp
  have "length (rune (c # s)) = rune_len (c # s)"
    by (cases "c # s" rule: rune_len_cases) (auto simp: rune_def)
  then have "rune_len (c # r @ t) = length (c # r)" using r len by simp
  then have "rune (c # r @ t) = c # r" "after_rune (c # r @ t) = t"
    by (simp_all only: rune_def after_rune_def) simp_all
  moreover have "c \<noteq> backslash" "\<not> is_ascii c" using high by (auto simp: backslash_def is_ascii_def ord8_def)
  ultimately show ?thesis using assms len r by (simp add: unquote.simps(2) [of c])
qed

text \<open>The escapes that stand for whole encodings.\<close>

lemma four_hex_append: "four_hex h = Some (n, []) \<Longrightarrow> four_hex (h @ t) = Some (n, t)"
  by (cases h rule: four_hex.cases) (auto split: if_splits)

lemma unquote_u:
  "four_hex h = Some (n, []) \<Longrightarrow> \<not> is_surrogate n
     \<Longrightarrow> unquote (backslash # CHR ''u'' # h @ t) = encode_rune n @ unquote t"
  by (simp add: unquote.simps(2) [of backslash] four_hex_append)

lemma unquote_escs:
  "unquote (backslash # ''ufffd'' @ t) = rune_error @ unquote t"
  "unquote (backslash # ''u2028'' @ t) = line_separator @ unquote t"
  "unquote (backslash # ''u2029'' @ t) = paragraph_separator @ unquote t"
proof -
  have "is_hex (CHR ''f'') \<and> is_hex (CHR ''d'') \<and> is_hex (CHR ''2'') \<and> is_hex (CHR ''0'') \<and> is_hex (CHR ''8'')
      \<and> is_hex (CHR ''9'')" "hex_val (CHR ''f'') = 15 \<and> hex_val (CHR ''d'') = 13 \<and> hex_val (CHR ''2'') = 2
      \<and> hex_val (CHR ''0'') = 0 \<and> hex_val (CHR ''8'') = 8 \<and> hex_val (CHR ''9'') = 9" by code_simp+
  then have "four_hex ''fffd'' = Some (65533, [])" "four_hex ''2028'' = Some (8232, [])"
      "four_hex ''2029'' = Some (8233, [])" by simp_all
  moreover have "encode_rune 65533 = rune_error" "encode_rune 8232 = line_separator"
      "encode_rune 8233 = paragraph_separator"
    by (simp_all add: encode_rune_def rune_error_def line_separator_def paragraph_separator_def char_of_def bit_0)
  ultimately show "unquote (backslash # ''ufffd'' @ t) = rune_error @ unquote t"
    "unquote (backslash # ''u2028'' @ t) = line_separator @ unquote t"
    "unquote (backslash # ''u2029'' @ t) = paragraph_separator @ unquote t"
    using unquote_u [of "''fffd''" 65533 t] unquote_u [of "''2028''" 8232 t] unquote_u [of "''2029''" 8233 t]
    by (simp_all add: is_surrogate_def)
qed

theorem unquote_quote: "unquote (quote_body s) = to_valid s"
proof (induction s rule: quote_body.induct)
  case (2 c s)
  consider "is_ascii c" | "\<not> is_ascii c" "rune_len (c # s) = 0" | "\<not> is_ascii c" "rune_len (c # s) \<noteq> 0" by blast
  then show ?case
  proof cases
    case 1
    then show ?thesis using 2(1) unquote_esc by (simp add: quote_body.simps(2) to_valid.simps(2))
  next
    case 2
    then show ?thesis using "2.IH"(2) unquote_escs(1) [of "quote_body s"]
      by (simp add: quote_body.simps(2) to_valid.simps(2))
  next
    case 3
    then show ?thesis
      using "2.IH"(3-5) unquote_rune [OF 3(2)] unquote_escs(2,3) [of "quote_body (after_rune (c # s))"]
      by (simp add: quote_body.simps(2) to_valid.simps(2))
  qed
qed simp

end
