(* ===== verification/Go_Scan.thy ===== *)
theory Go_Scan
  imports Go_Utf8
begin

text \<open>
  How \<open>encoding/json\<close> reads a text: its scanner is an automaton that is fed one byte at a time, with a
  stack of the arrays and objects that are open. \<open>step\<close> has one state for each step function of the
  scanner, and carries along what the decoder later builds from the same text: the values read so
  far and the bytes of the literal being read.

  \<^item> \<open>json_valid\<close> is \<open>json.Valid\<close>, \<open>parse_json\<close> the value of a valid text;
  \<^item> \<open>first_value\<close> is \<open>Decoder.Decode\<close> up to the value: the first value of a stream. An array or an
    object ends with its last byte, any other value with the byte after it, and what follows is
    never looked at.
\<close>

section \<open>Values\<close>

text \<open>A number keeps its text; the keys of an object keep their order and their duplicates.\<close>

datatype jval =
    VNull
  | VBool bool
  | VNum string
  | VStr string
  | VArr "jval list"
  | VObj "(string \<times> jval) list"

section \<open>The scanner\<close>

datatype frame =
    InArr "jval list"
  | InKey "(string \<times> jval) list"
  | InVal "(string \<times> jval) list" string

datatype scan =
    BeginValue
  | BeginValueOrEmpty
  | BeginString
  | BeginStringOrEmpty
  | EndValue jval
  | EndTop jval
  | Junk jval
  | InString string
  | InStringEsc string
  | InStringEscU nat string
  | Neg string
  | Zero string
  | One string
  | Dot string
  | Dot0 string
  | Exp string
  | ExpSign string
  | Exp0 string
  | Lit string jval
  | Bad

type_synonym machine = "scan \<times> frame list"

definition json_space :: "char \<Rightarrow> bool" where
  "json_space c \<longleftrightarrow> c = CHR '' '' \<or> c = CHR 0x09 \<or> c = CHR 0x0D \<or> c = CHR 0x0A"

definition maxNestingDepth :: int where "maxNestingDepth = 10000"

definition push :: "scan \<Rightarrow> frame \<Rightarrow> frame list \<Rightarrow> machine" where
  "push q f st = (if int (length st) < maxNestingDepth then (q, f # st) else (Bad, st))"

text \<open>An array or an object has been closed (\<open>popParseState\<close>); \<open>st\<close> is the stack without it.\<close>

definition close :: "jval \<Rightarrow> frame list \<Rightarrow> machine" where
  "close v st = (if st = [] then (EndTop v, []) else (EndValue v, st))"

text \<open>\<open>stateEndValue\<close>: the byte after a value.\<close>

fun end_value :: "jval \<Rightarrow> frame list \<Rightarrow> char \<Rightarrow> machine" where
  "end_value v [] c = (if json_space c then (EndTop v, []) else (Junk v, []))"
| "end_value v (f # st) c =
     (if json_space c then (EndValue v, f # st)
      else (case f of
        InKey kvs \<Rightarrow>
          (case v of
             VStr k \<Rightarrow> if c = CHR '':'' then (BeginValue, InVal kvs k # st) else (Bad, f # st)
           | _ \<Rightarrow> (Bad, f # st))
      | InVal kvs k \<Rightarrow>
          if c = CHR '','' then (BeginString, InKey (kvs @ [(k, v)]) # st)
          else if c = CHR ''}'' then close (VObj (kvs @ [(k, v)])) st
          else (Bad, f # st)
      | InArr vs \<Rightarrow>
          if c = CHR '','' then (BeginValue, InArr (vs @ [v]) # st)
          else if c = CHR '']'' then close (VArr (vs @ [v])) st
          else (Bad, f # st)))"

definition begin_value :: "frame list \<Rightarrow> char \<Rightarrow> machine" where
  "begin_value st c =
     (if json_space c then (BeginValue, st)
      else if c = CHR ''{'' then push BeginStringOrEmpty (InKey []) st
      else if c = CHR ''['' then push BeginValueOrEmpty (InArr []) st
      else if c = quote_chr then (InString [], st)
      else if c = CHR ''-'' then (Neg [c], st)
      else if c = CHR ''0'' then (Zero [c], st)
      else if c = CHR ''t'' then (Lit ''rue'' (VBool True), st)
      else if c = CHR ''f'' then (Lit ''alse'' (VBool False), st)
      else if c = CHR ''n'' then (Lit ''ull'' VNull, st)
      else if is_digit c then (One [c], st)
      else (Bad, st))"

definition begin_string :: "frame list \<Rightarrow> char \<Rightarrow> machine" where
  "begin_string st c =
     (if json_space c then (BeginString, st)
      else if c = quote_chr then (InString [], st)
      else (Bad, st))"

definition number_end :: "string \<Rightarrow> frame list \<Rightarrow> char \<Rightarrow> machine" where
  "number_end raw st c = end_value (VNum raw) st c"

definition is_e :: "char \<Rightarrow> bool" where
  "is_e c \<longleftrightarrow> c = CHR ''e'' \<or> c = CHR ''E''"

text \<open>\<open>state0\<close>, also reached after the digits of \<open>state1\<close>.\<close>

definition after_int :: "string \<Rightarrow> frame list \<Rightarrow> char \<Rightarrow> machine" where
  "after_int raw st c =
     (if c = CHR ''.'' then (Dot (raw @ [c]), st)
      else if is_e c then (Exp (raw @ [c]), st)
      else number_end raw st c)"

fun step :: "machine \<Rightarrow> char \<Rightarrow> machine" where
  "step (BeginValue, st) c = begin_value st c"
| "step (BeginValueOrEmpty, st) c =
     (if json_space c then (BeginValueOrEmpty, st)
      else if c = CHR '']'' then close (VArr []) (tl st)
      else begin_value st c)"
| "step (BeginString, st) c = begin_string st c"
| "step (BeginStringOrEmpty, st) c =
     (if json_space c then (BeginStringOrEmpty, st)
      else if c = CHR ''}'' then close (VObj []) (tl st)
      else begin_string st c)"
| "step (EndValue v, st) c = end_value v st c"
| "step (EndTop v, st) c = (if json_space c then (EndTop v, st) else (Junk v, st))"
| "step (InString raw, st) c =
     (if c = quote_chr then (EndValue (VStr (unquote raw)), st)
      else if c = backslash then (InStringEsc (raw @ [c]), st)
      else if ord8 c < 32 then (Bad, st)
      else (InString (raw @ [c]), st))"
| "step (InStringEsc raw, st) c =
     (if escapable c then (InString (raw @ [c]), st)
      else if c = CHR ''u'' then (InStringEscU 4 (raw @ [c]), st)
      else (Bad, st))"
| "step (InStringEscU n raw, st) c =
     (if is_hex c then (if n \<le> 1 then InString (raw @ [c]) else InStringEscU (n - 1) (raw @ [c]), st)
      else (Bad, st))"
| "step (Neg raw, st) c =
     (if c = CHR ''0'' then (Zero (raw @ [c]), st)
      else if is_digit c then (One (raw @ [c]), st)
      else (Bad, st))"
| "step (One raw, st) c =
     (if is_digit c then (One (raw @ [c]), st) else after_int raw st c)"
| "step (Zero raw, st) c = after_int raw st c"
| "step (Dot raw, st) c =
     (if is_digit c then (Dot0 (raw @ [c]), st) else (Bad, st))"
| "step (Dot0 raw, st) c =
     (if is_digit c then (Dot0 (raw @ [c]), st)
      else if is_e c then (Exp (raw @ [c]), st)
      else number_end raw st c)"
| "step (Exp raw, st) c =
     (if c = CHR ''+'' \<or> c = CHR ''-'' then (ExpSign (raw @ [c]), st)
      else if is_digit c then (Exp0 (raw @ [c]), st)
      else (Bad, st))"
| "step (ExpSign raw, st) c =
     (if is_digit c then (Exp0 (raw @ [c]), st) else (Bad, st))"
| "step (Exp0 raw, st) c =
     (if is_digit c then (Exp0 (raw @ [c]), st) else number_end raw st c)"
| "step (Lit rest v, st) c =
     (case rest of
        [] \<Rightarrow> (Bad, st)
      | d # ds \<Rightarrow> if c \<noteq> d then (Bad, st) else (if ds = [] then EndValue v else Lit ds v, st))"
| "step (Junk v, st) c = (Bad, st)"
| "step (Bad, st) c = (Bad, st)"

abbreviation steps :: "machine \<Rightarrow> string \<Rightarrow> machine" where
  "steps \<equiv> foldl step"

definition start :: machine where "start = (BeginValue, [])"

text \<open>\<open>scanner.eof\<close>: at the end of the text the scanner is given one more space.\<close>

definition eof :: "machine \<Rightarrow> jval option" where
  "eof m = (case step m (CHR '' '') of (EndTop v, _) \<Rightarrow> Some v | _ \<Rightarrow> None)"

definition parse_json :: "string \<Rightarrow> jval option" where
  "parse_json s = eof (steps start s)"

definition json_valid :: "string \<Rightarrow> bool" where
  "json_valid s \<longleftrightarrow> parse_json s \<noteq> None"

section \<open>The first value of a stream\<close>

fun read_value :: "machine \<Rightarrow> string \<Rightarrow> jval option" where
  "read_value m [] = eof m"
| "read_value m (c # s) =
     (case step m c of
        (EndTop v, _) \<Rightarrow> Some v
      | (Junk v, _) \<Rightarrow> Some v
      | (Bad, _) \<Rightarrow> None
      | m' \<Rightarrow> read_value m' s)"

definition first_value :: "string \<Rightarrow> jval option" where
  "first_value s = read_value start s"

section \<open>Lemmas\<close>

lemma steps_Bad: "steps (Bad, st) s = (Bad, st)"
  by (induction s) auto

lemma steps_Junk: "s \<noteq> [] \<Longrightarrow> steps (Junk v, st) s = (Bad, st)"
  by (cases s) (auto simp: steps_Bad)

lemma eof_Bad [simp]: "eof (Bad, st) = None" "eof (Junk v, st) = None"
  by (simp_all add: eof_def)

lemma eof_EndTop [simp]: "eof (EndTop v, st) = Some v"
  by (simp add: eof_def json_space_def)

text \<open>Once the top value is complete, it is the value of the text, or the text has none.\<close>

lemma eof_steps_EndTop: "eof (steps (EndTop v, st) s) = (if list_all json_space s then Some v else None)"
proof (induction s)
  case (Cons c s)
  then show ?case
    by (cases "s = []") (auto simp: steps_Junk)
qed simp

lemma read_value_valid: "eof (steps m s) = Some v \<Longrightarrow> read_value m s = Some v"
proof (induction s arbitrary: m)
  case (Cons c s)
  obtain q st where m': "step m c = (q, st)" by (cases "step m c")
  have run: "eof (steps (q, st) s) = Some v" using Cons.prems m' by simp
  have next_state: "read_value (q, st) s = Some v" by (rule Cons.IH) (rule run)
  show ?case
  proof (cases q)
    case (EndTop w)
    then show ?thesis using run m' by (simp add: eof_steps_EndTop split: if_splits)
  next
    case (Junk w)
    then show ?thesis using run by (cases "s = []") (simp_all add: steps_Junk)
  next
    case Bad
    then show ?thesis using run by (simp add: steps_Bad)
  qed (use next_state m' in simp_all)
qed simp

text \<open>A text that is valid as a whole has its value as its first.\<close>

lemma parse_first: "parse_json s = Some v \<Longrightarrow> first_value s = Some v"
  unfolding parse_json_def first_value_def by (rule read_value_valid)

end
