(* ===== verification/Go_Json.thy ===== *)
theory Go_Json
  imports Go_Scan Store_Types
begin

text \<open>
  The bytes that \<open>encoding/json\<close> writes for a value of type \<open>json\<close>, and what the decoder reads from
  them.

  \<^item> \<open>json_text\<close> is the text of a value, \<open>rfc3339\<close> the time layout that \<open>Time.MarshalJSON\<close> uses (an instant
    is written in UTC); \<open>times_ok\<close> says when a value has a text: \<open>MarshalJSON\<close> rejects a year that
    has not four digits;
  \<^item> \<open>Encode\<close> is \<open>Encoder.Encode\<close>: the text and a newline, or nothing at all;
  \<^item> \<open>val_of\<close> is what a value looks like to a reader: its strings made valid UTF-8 and its
    instants the strings that they are written as.

  The theorems: the scanner reads exactly the value from its text (\<open>parse_json_text\<close>), also at the start
  of a longer stream (\<open>first_value_text\<close>), and a text contains no line break (\<open>text_one_line\<close>).
\<close>

section \<open>Writing\<close>

definition json_quote :: "string \<Rightarrow> string" where
  "json_quote s = quote_chr # quote_body s @ [quote_chr]"

definition int_text :: "int \<Rightarrow> string" where
  "int_text n = (if n < 0 then ''-'' else []) @ dec_digits (nat \<bar>n\<bar>)"

text \<open>The fraction of a second: a point and nine digits without the zeros at the end, or nothing.\<close>

definition frac_text :: "int \<Rightarrow> string" where
  "frac_text ns =
     (if ns = 0 then [] else CHR ''.'' # rev (dropWhile (\<lambda>c. c = CHR ''0'') (rev (append_int ns 9))))"

definition rfc3339 :: "gotime \<Rightarrow> string" where
  "rfc3339 t =
     (let ns = t mod ns_per_day; sec = ns div 1000000000
      in format_civil (civil_of t) @ ''T'' @ append_int (sec div 3600) 2 @ '':'' @ append_int (sec div 60 mod 60) 2
           @ '':'' @ append_int (sec mod 60) 2 @ frac_text (ns mod 1000000000) @ ''Z'')"

definition time_ok :: "gotime \<Rightarrow> bool" where
  "time_ok t = (case civil_of t of (y, _) \<Rightarrow> 0 \<le> y \<and> y \<le> 9999)"

fun json_text :: "json \<Rightarrow> string" where
  "json_text JNull = ''null''"
| "json_text (JBool b) = (if b then ''true'' else ''false'')"
| "json_text (JNum n) = int_text n"
| "json_text (JStr s) = json_quote s"
| "json_text (JTime t) = quote_chr # rfc3339 t @ [quote_chr]"
| "json_text (JArr js) = ''['' @ join_with (CHR '','') (map json_text js) @ '']''"
| "json_text (JObj kvs) =
     ''{'' @ join_with (CHR '','') (map (\<lambda>(k, j). json_quote k @ '':'' @ json_text j) kvs) @ ''}''"

fun times_ok :: "json \<Rightarrow> bool" where
  "times_ok (JTime t) = time_ok t"
| "times_ok (JArr js) = list_all times_ok js"
| "times_ok (JObj kvs) = list_all (\<lambda>(k, j). times_ok j) kvs"
| "times_ok _ = True"

definition newline :: char where "newline = CHR 0x0A"

definition Encode :: "json \<Rightarrow> string option" where
  "Encode j = (if times_ok j then Some (json_text j @ [newline]) else None)"

fun val_of :: "json \<Rightarrow> jval" where
  "val_of JNull = VNull"
| "val_of (JBool b) = VBool b"
| "val_of (JNum n) = VNum (int_text n)"
| "val_of (JStr s) = VStr (to_valid s)"
| "val_of (JTime t) = VStr (rfc3339 t)"
| "val_of (JArr js) = VArr (map val_of js)"
| "val_of (JObj kvs) = VObj (map (\<lambda>(k, j). (to_valid k, val_of j)) kvs)"

text \<open>Arrays and objects are nested at most \<open>n\<close> deep.\<close>

fun nested :: "nat \<Rightarrow> json \<Rightarrow> bool" where
  "nested n (JArr js) = (0 < n \<and> list_all (nested (n - 1)) js)"
| "nested n (JObj kvs) = (0 < n \<and> list_all (\<lambda>(k, j). nested (n - 1) j) kvs)"
| "nested n _ = True"

section \<open>Reading a string\<close>

definition plain :: "char \<Rightarrow> bool" where
  "plain c \<longleftrightarrow> is_ascii c \<and> 32 \<le> ord8 c \<and> c \<noteq> backslash \<and> c \<noteq> quote_chr"

lemma literals [simp]:
  "quote_chr \<noteq> backslash" "backslash \<noteq> quote_chr" "\<not> json_space quote_chr" "\<not> is_digit quote_chr"
  "escapable (CHR ''u'') = False" "quote_chr \<noteq> CHR '']''" "quote_chr \<noteq> CHR ''}''" "quote_chr \<noteq> CHR ''{''"
  "quote_chr \<noteq> CHR ''[''"
  by code_simp+

text \<open>The bytes of \<open>s\<close> inside a literal leave the scanner inside the literal.\<close>

definition inside :: "string \<Rightarrow> bool" where
  "inside s \<longleftrightarrow> (\<forall>raw st. steps (InString raw, st) s = (InString (raw @ s), st))"

lemma inside_Nil [simp]: "inside []"
  by (simp add: inside_def)

lemma inside_append: "inside s \<Longrightarrow> inside t \<Longrightarrow> inside (s @ t)"
  by (simp add: inside_def)

lemma inside_high: "list_all (\<lambda>c. 128 \<le> ord8 c) s \<Longrightarrow> inside s"
proof (induction s)
  case (Cons c s)
  then have "inside [c]" by (auto simp: inside_def backslash_def quote_chr_def ord8_def)
  with Cons show ?case using inside_append [of "[c]" s] by simp
qed simp

lemma inside_plain: "list_all plain s \<Longrightarrow> inside s"
proof (induction s)
  case (Cons c s)
  then have "inside [c]" by (auto simp: inside_def plain_def)
  with Cons show ?case using inside_append [of "[c]" s] by simp
qed simp

lemma unquote_plain: "list_all plain s \<Longrightarrow> unquote s = s"
  by (induction s) (auto simp: plain_def unquote.simps(2))

lemma inside_esc:
  assumes "is_ascii c"
  shows "inside (esc c)"
  using assms by (cases rule: esc_cases) (simp_all add: inside_def)

lemma inside_rune_escs:
  "inside (backslash # ''ufffd'')" "inside (backslash # ''u2028'')" "inside (backslash # ''u2029'')"
proof -
  have "is_hex (CHR ''f'') \<and> is_hex (CHR ''d'') \<and> is_hex (CHR ''2'') \<and> is_hex (CHR ''0'') \<and> is_hex (CHR ''8'')
      \<and> is_hex (CHR ''9'')" by code_simp
  then show "inside (backslash # ''ufffd'')" "inside (backslash # ''u2028'')" "inside (backslash # ''u2029'')"
    by (simp_all add: inside_def)
qed

lemma inside_quote_body: "inside (quote_body s)"
proof (induction s rule: quote_body.induct)
  case (2 c s)
  have "inside (rune (c # s))"
    by (rule inside_high) (simp add: list_all_iff rune_bytes)
  then show ?case
    using "2.IH" inside_append [OF inside_esc] inside_rune_escs [THEN inside_append] inside_append [of "rune (c # s)"]
    by (simp add: quote_body.simps(2))
qed simp

lemma steps_quote:
  "steps (InString [], st) (quote_body s @ [quote_chr]) = (EndValue (VStr (to_valid s)), st)"
  using inside_quote_body [of s] by (simp add: inside_def unquote_quote)

lemma steps_plain:
  "list_all plain s \<Longrightarrow> steps (InString [], st) (s @ [quote_chr]) = (EndValue (VStr s), st)"
  using inside_plain [of s] by (simp add: inside_def unquote_plain)

lemma begin_quote [simp]: "begin_value st quote_chr = (InString [], st)" "begin_string st quote_chr = (InString [], st)"
  by (simp_all add: begin_value_def begin_string_def)

section \<open>Reading a value\<close>

text \<open>The bytes that may follow a value; only white space follows the top one.\<close>

definition delim :: "frame list \<Rightarrow> char \<Rightarrow> bool" where
  "delim st c \<longleftrightarrow>
     json_space c \<or> st \<noteq> [] \<and> (c = CHR '','' \<or> c = CHR '']'' \<or> c = CHR ''}'' \<or> c = CHR '':'')"

lemma delim_number:
  assumes "delim st c"
  shows "\<not> is_digit c" "c \<noteq> CHR ''.''" "\<not> is_e c"
proof -
  have "list_all (\<lambda>c. \<not> is_digit c \<and> c \<noteq> CHR ''.'' \<and> \<not> is_e c)
      [CHR '' '', CHR 0x09, CHR 0x0D, CHR 0x0A, CHR '','', CHR '']'', CHR ''}'', CHR '':'']" by code_simp
  then show "\<not> is_digit c" "c \<noteq> CHR ''.''" "\<not> is_e c"
    using assms by (auto simp: delim_def json_space_def)
qed

lemma step_close: "delim st c \<Longrightarrow> step (close v st) c = end_value v st c"
  by (auto simp: close_def delim_def)

lemma steps_digits:
  "list_all is_digit ds \<Longrightarrow> steps (One raw, st) ds = (One (raw @ ds), st)"
  by (induction ds arbitrary: raw) auto

lemma dec_digits_lead: "0 < n \<Longrightarrow> \<exists>d ds. dec_digits n = digit_chr d # ds \<and> 0 < d \<and> d < 10 \<and> list_all is_digit ds"
proof (induction n rule: dec_digits.induct)
  case (1 n)
  show ?case
  proof (cases "n < 10")
    case True
    then show ?thesis using 1 by (intro exI [of _ n] exI [of _ "[]"]) (simp add: dec_digits.simps)
  next
    case False
    then have "0 < n div 10" by auto
    then obtain d ds where "dec_digits (n div 10) = digit_chr d # ds" "0 < d" "d < 10" "list_all is_digit ds"
      using 1 False by blast
    then show ?thesis using False
      by (intro exI [of _ d] exI [of _ "ds @ [digit_chr (n mod 10)]"]) (simp add: dec_digits.simps [of n])
  qed
qed

lemma digit_first:
  assumes "0 < d" "d < 10"
  shows "begin_value st (digit_chr d) = (One [digit_chr d], st)" "digit_chr d \<noteq> CHR ''0''"
proof -
  have "list_all (\<lambda>d. digit_chr d \<noteq> CHR ''0'' \<and> \<not> json_space (digit_chr d) \<and> digit_chr d \<notin> set ''{[-tfn'' \<and> digit_chr d \<noteq> quote_chr)
      [1, 2, 3, 4, 5, 6, 7, 8, 9]" by code_simp
  moreover have "d \<in> set [1, 2, 3, 4, 5, 6, 7, 8, 9]" using assms by auto
  ultimately show "begin_value st (digit_chr d) = (One [digit_chr d], st)" "digit_chr d \<noteq> CHR ''0''"
    using assms by (auto simp: begin_value_def)
qed

lemma minus_first [simp]: "begin_value st (CHR ''-'') = (Neg ''-'', st)"
  by (simp add: begin_value_def json_space_def quote_chr_def)

lemma steps_int:
  assumes "delim st c"
  shows "steps (BeginValue, st) (int_text n @ [c]) = end_value (VNum (int_text n)) st c"
proof (cases "n = 0")
  case True
  have "begin_value st (CHR ''0'') = (Zero ''0'', st)"
    by (simp add: begin_value_def json_space_def quote_chr_def)
  then show ?thesis using True delim_number [OF assms]
    by (simp add: int_text_def dec_digits_small digit_chr_0 after_int_def number_end_def)
next
  case False
  then obtain d ds where lead: "dec_digits (nat \<bar>n\<bar>) = digit_chr d # ds" "0 < d" "d < 10" and ds: "list_all is_digit ds"
    using dec_digits_lead [of "nat \<bar>n\<bar>"] by auto
  have after: "steps (One raw, st) (ds @ [c]) = end_value (VNum (raw @ ds)) st c" for raw
    using delim_number [OF assms] by (simp add: steps_digits [OF ds] after_int_def number_end_def)
  then show ?thesis using lead digit_first [OF lead(2,3)]
    by (simp add: int_text_def del: foldl_append)
qed

lemma digit_plain: "is_digit c \<Longrightarrow> plain c"
  by (auto simp: is_digit_def plain_def is_ascii_def backslash_def quote_chr_def ord8_def)

lemma plain_append_int: "list_all plain (append_int n w)"
proof -
  have "plain (CHR ''-'')" "plain (CHR ''0'')" by code_simp+
  moreover have "list_all plain (dec_digits k)" for k
    using list_all_dec_digits [of k] by (auto simp: list_all_iff intro: digit_plain)
  ultimately show ?thesis by (auto simp: append_int_def Let_def list_all_iff)
qed

lemma plain_frac: "list_all plain (frac_text ns)"
proof -
  have "plain (CHR ''.'')" by code_simp
  moreover have "c \<in> set (append_int ns 9) \<Longrightarrow> plain c" for c
    using plain_append_int [of ns 9] by (simp add: list_all_iff)
  ultimately show ?thesis by (auto simp: frac_text_def list_all_iff dest!: set_dropWhileD)
qed

lemma plain_rfc3339: "list_all plain (rfc3339 t)"
proof -
  have "list_all plain ''T:Z-''" by code_simp
  then show ?thesis using plain_frac plain_append_int
    by (simp add: rfc3339_def format_civil_def Let_def split: prod.split)
qed

text \<open>No text starts with white space or with a closing bracket.\<close>

lemma text_first: "\<exists>c s. json_text j = c # s \<and> \<not> json_space c \<and> c \<noteq> CHR '']''"
proof (cases j)
  case (JNum n)
  have "list_all (\<lambda>d. \<not> json_space (digit_chr d) \<and> digit_chr d \<noteq> CHR '']'') [0..<10]" by code_simp
  then have digit: "d < 10 \<Longrightarrow> \<not> json_space (digit_chr d) \<and> digit_chr d \<noteq> CHR '']''" for d
    by (simp only: list_all_iff) simp
  then show ?thesis using dec_digits_lead [of "nat \<bar>n\<bar>"] JNum
    by (cases "n = 0") (auto simp: int_text_def json_space_def dec_digits_small)
qed (auto simp: json_space_def json_quote_def quote_chr_def)

definition member_text :: "string \<times> json \<Rightarrow> string" where
  "member_text = (\<lambda>(k, j). json_quote k @ '':'' @ json_text j)"

definition member_val :: "string \<times> json \<Rightarrow> string \<times> jval" where
  "member_val = (\<lambda>(k, j). (to_valid k, val_of j))"

text \<open>\<open>read_back j\<close>: the text of \<open>j\<close> is read as its value in every context whose nesting leaves room.\<close>

definition read_back :: "nat \<Rightarrow> json \<Rightarrow> bool" where
  "read_back n j \<longleftrightarrow> (\<forall>st c. n + length st \<le> 10000 \<longrightarrow> delim st c
     \<longrightarrow> steps (BeginValue, st) (json_text j @ [c]) = end_value (val_of j) st c)"

lemma read_backD:
  "read_back n j \<Longrightarrow> n + length st \<le> 10000 \<Longrightarrow> delim st c
     \<Longrightarrow> steps (BeginValue, st) (json_text j @ c # s) = steps (end_value (val_of j) st c) s"
  by (auto simp: read_back_def)

lemma steps_elements:
  assumes "\<And>j. j \<in> set (j0 # js) \<Longrightarrow> read_back n j" "n + Suc (length st) \<le> 10000"
  shows "steps (BeginValue, InArr vs # st) (join_with (CHR '','') (map json_text (j0 # js)) @ '']'')
     = close (VArr (vs @ map val_of (j0 # js))) st"
  using assms
proof (induction js arbitrary: j0 vs)
  case Nil
  then show ?case
    by (simp add: read_backD delim_def json_space_def del: foldl_append)
next
  case (Cons j1 js)
  have "steps (BeginValue, InArr vs # st) (json_text j0 @ CHR '','' # join_with (CHR '','') (map json_text (j1 # js)) @ '']'')
      = steps (BeginValue, InArr (vs @ [val_of j0]) # st) (join_with (CHR '','') (map json_text (j1 # js)) @ '']'')"
    by (subst read_backD [of n]) (use Cons.prems in \<open>simp_all add: delim_def json_space_def del: foldl_append\<close>)
  also have "\<dots> = close (VArr ((vs @ [val_of j0]) @ map val_of (j1 # js))) st"
    by (rule Cons.IH) (use Cons.prems in auto)
  finally show ?case by simp
qed

lemma steps_member:
  assumes "read_back n j" "n + Suc (length st) \<le> 10000" "delim (InVal kvs (to_valid k) # st) c"
  shows "steps (BeginString, InKey kvs # st) (member_text (k, j) @ c # s)
     = steps (end_value (val_of j) (InVal kvs (to_valid k) # st) c) s"
proof -
  have "steps (BeginString, InKey kvs # st) (member_text (k, j) @ c # s)
      = steps (step (EndValue (VStr (to_valid k)), InKey kvs # st) (CHR '':'')) (json_text j @ c # s)"
    using steps_quote [of "InKey kvs # st" k]
    by (simp add: member_text_def json_quote_def)
  also have "\<dots> = steps (BeginValue, InVal kvs (to_valid k) # st) (json_text j @ c # s)"
    by (simp add: json_space_def)
  also have "\<dots> = steps (end_value (val_of j) (InVal kvs (to_valid k) # st) c) s"
    by (rule read_backD) (use assms in auto)
  finally show ?thesis .
qed

lemma steps_members:
  assumes "\<And>k j. (k, j) \<in> set (kv # kvs) \<Longrightarrow> read_back n j" "n + Suc (length st) \<le> 10000"
  shows "steps (BeginString, InKey vs # st) (join_with (CHR '','') (map member_text (kv # kvs)) @ ''}'')
     = close (VObj (vs @ map member_val (kv # kvs))) st"
  using assms
proof (induction kvs arbitrary: kv vs)
  case Nil
  obtain k j where kv: "kv = (k, j)" by (cases kv)
  show ?case
    using Nil by (simp add: kv steps_member delim_def json_space_def member_val_def del: foldl_append)
next
  case (Cons kv1 kvs)
  obtain k j where kv: "kv = (k, j)" by (cases kv)
  have j: "read_back n j" by (rule Cons.prems(1) [of k]) (simp add: kv)
  have "steps (BeginString, InKey vs # st) (member_text (k, j) @ CHR '','' # join_with (CHR '','') (map member_text (kv1 # kvs)) @ ''}'')
      = steps (BeginString, InKey (vs @ [(to_valid k, val_of j)]) # st) (join_with (CHR '','') (map member_text (kv1 # kvs)) @ ''}'')"
    by (subst steps_member [OF j]) (use Cons.prems in \<open>simp_all add: delim_def json_space_def del: foldl_append\<close>)
  also have "\<dots> = close (VObj ((vs @ [(to_valid k, val_of j)]) @ map member_val (kv1 # kvs))) st"
    by (rule Cons.IH) (use Cons.prems in auto)
  finally show ?case by (simp add: kv member_val_def)
qed

lemma members_first: "\<exists>s. join_with (CHR '','') (map member_text (kv # kvs)) = quote_chr # s"
  by (cases kvs) (auto simp: member_text_def json_quote_def split: prod.split)

lemma steps_array:
  assumes "\<And>j. j \<in> set js \<Longrightarrow> read_back n j" "n + Suc (length st) \<le> 10000"
  shows "steps (BeginValue, st) (json_text (JArr js)) = close (VArr (map val_of js)) st"
proof -
  have "steps (BeginValue, st) (json_text (JArr js))
      = steps (BeginValueOrEmpty, InArr [] # st) (join_with (CHR '','') (map json_text js) @ '']'')"
    using assms(2) by (simp add: begin_value_def json_space_def push_def maxNestingDepth_def quote_chr_def)
  also have "steps (BeginValueOrEmpty, InArr [] # st) (join_with (CHR '','') (map json_text js) @ '']'')
      = close (VArr (map val_of js)) st"
  proof (cases js)
    case Nil
    then show ?thesis by (simp add: json_space_def)
  next
    case (Cons j0 js')
    obtain c0 s where first: "join_with (CHR '','') (map json_text js) = c0 # s" "\<not> json_space c0" "c0 \<noteq> CHR '']''"
      using text_first [of j0] by (cases js') (auto simp: Cons)
    have "steps (BeginValueOrEmpty, InArr [] # st) (join_with (CHR '','') (map json_text js) @ '']'')
        = steps (BeginValue, InArr [] # st) (join_with (CHR '','') (map json_text js) @ '']'')"
      using first by simp
    also have "\<dots> = close (VArr ([] @ map val_of js)) st"
      unfolding Cons by (rule steps_elements) (use assms Cons in auto)
    finally show ?thesis by simp
  qed
  finally show ?thesis .
qed

lemma steps_object:
  assumes "\<And>k j. (k, j) \<in> set kvs \<Longrightarrow> read_back n j" "n + Suc (length st) \<le> 10000"
  shows "steps (BeginValue, st) (json_text (JObj kvs)) = close (VObj (map member_val kvs)) st"
proof -
  have "steps (BeginValue, st) (json_text (JObj kvs))
      = steps (BeginStringOrEmpty, InKey [] # st) (join_with (CHR '','') (map member_text kvs) @ ''}'')"
    using assms(2)
    by (simp add: begin_value_def json_space_def push_def maxNestingDepth_def quote_chr_def member_text_def)
  also have "steps (BeginStringOrEmpty, InKey [] # st) (join_with (CHR '','') (map member_text kvs) @ ''}'')
      = close (VObj (map member_val kvs)) st"
  proof (cases kvs)
    case Nil
    then show ?thesis by (simp add: json_space_def)
  next
    case (Cons kv kvs')
    obtain s where first: "join_with (CHR '','') (map member_text kvs) = quote_chr # s"
      using members_first Cons by blast
    have "steps (BeginStringOrEmpty, InKey [] # st) (join_with (CHR '','') (map member_text kvs) @ ''}'')
        = steps (BeginString, InKey [] # st) (join_with (CHR '','') (map member_text kvs) @ ''}'')"
      using first by simp
    also have "\<dots> = close (VObj ([] @ map member_val kvs)) st"
      unfolding Cons by (rule steps_members) (use assms Cons in auto)
    finally show ?thesis by simp
  qed
  finally show ?thesis .
qed

lemma read_back_scalars:
  "read_back n JNull" "read_back n (JBool b)" "read_back n (JNum i)" "read_back n (JStr s)" "read_back n (JTime t)"
proof -
  show "read_back n JNull" "read_back n (JBool b)"
    by (auto simp: read_back_def begin_value_def json_space_def quote_chr_def)
  show "read_back n (JNum i)" using steps_int by (simp add: read_back_def del: foldl_append)
  show "read_back n (JStr s)" using steps_quote by (simp add: read_back_def json_quote_def)
  show "read_back n (JTime t)" using steps_plain [OF plain_rfc3339] by (simp add: read_back_def)
qed

lemma read_back: "nested n j \<Longrightarrow> read_back n j"
proof (induction n j rule: nested.induct)
  case (1 n js)
  then have "read_back (n - 1) j" if "j \<in> set js" for j using that by (simp add: list_all_iff)
  then show ?case using steps_array [of js "n - 1"] 1(2) by (auto simp: read_back_def step_close simp del: json_text.simps)
next
  case (2 n kvs)
  have IH: "read_back (n - 1) j" if "(k, j) \<in> set kvs" for k j
    using 2(1) [OF that] 2(2) that by (auto simp: list_all_iff)
  have "steps (BeginValue, st) (json_text (JObj kvs)) = close (VObj (map member_val kvs)) st"
    if "n + length st \<le> 10000" for st
    by (rule steps_object [of kvs "n - 1"]) (use IH 2(2) that in auto)
  then show ?case by (simp add: read_back_def step_close member_val_def del: json_text.simps)
qed (simp_all add: read_back_scalars)

lemma parse_json_text:
  assumes "nested 10000 j"
  shows "parse_json (json_text j @ [newline]) = Some (val_of j)" "parse_json (json_text j) = Some (val_of j)"
proof -
  have read: "steps start (json_text j @ [c]) = (EndTop (val_of j), [])" if "json_space c" for c
    using read_back [OF assms] that by (simp add: read_back_def start_def delim_def del: foldl_append)
  then show "parse_json (json_text j @ [newline]) = Some (val_of j)"
    by (simp add: parse_json_def newline_def json_space_def del: foldl_append)
  have "step (steps start (json_text j)) (CHR '' '') = (EndTop (val_of j), [])"
    using read [of "CHR '' ''"] by (simp add: json_space_def)
  then show "parse_json (json_text j) = Some (val_of j)"
    by (simp add: parse_json_def eof_def)
qed

lemma read_value_prefix:
  "steps (q, st) s = (EndTop v, []) \<Longrightarrow> \<forall>w. q \<noteq> EndTop w \<Longrightarrow> read_value (q, st) (s @ t) = Some v"
proof (induction s arbitrary: q st)
  case (Cons c s)
  obtain q' st' where m': "step (q, st) c = (q', st')" by (cases "step (q, st) c")
  have run: "steps (q', st') s = (EndTop v, [])" using Cons.prems(1) m' by simp
  have next_state: "\<forall>w. q' \<noteq> EndTop w \<Longrightarrow> read_value (q', st') (s @ t) = Some v"
    by (rule Cons.IH) (rule run)
  show ?case
  proof (cases q')
    case (EndTop w)
    then have "eof (steps (EndTop w, st') s) = Some v" using run by simp
    then show ?thesis using m' EndTop by (simp add: eof_steps_EndTop split: if_splits)
  next
    case (Junk w)
    then show ?thesis using run by (cases "s = []") (simp_all add: steps_Junk)
  next
    case Bad
    then show ?thesis using run by (simp add: steps_Bad)
  qed (use next_state m' in simp_all)
qed simp

text \<open>A reader of a stream finds the value, whatever follows its line; an object it finds whatever follows.\<close>

lemma first_value_text:
  assumes "nested 10000 j"
  shows "first_value (json_text j @ newline # t) = Some (val_of j)"
proof -
  have "steps start (json_text j @ [newline]) = (EndTop (val_of j), [])"
    using read_back [OF assms]
    by (simp add: read_back_def start_def delim_def json_space_def newline_def del: foldl_append)
  then show ?thesis
    using read_value_prefix [of BeginValue "[]" "json_text j @ [newline]" "val_of j" t]
    by (simp add: first_value_def start_def)
qed

lemma first_value_object:
  assumes "nested 10000 (JObj kvs)"
  shows "first_value (json_text (JObj kvs) @ t) = Some (val_of (JObj kvs))"
proof -
  have "read_back 9999 j" if "(k, j) \<in> set kvs" for k j
    using assms that by (intro read_back) (auto simp: list_all_iff)
  then have "steps start (json_text (JObj kvs)) = (EndTop (VObj (map member_val kvs)), [])"
    using steps_object [of kvs 9999 "[]"] by (simp add: start_def close_def del: json_text.simps)
  then show ?thesis
    using read_value_prefix [of BeginValue "[]" "json_text (JObj kvs)" "VObj (map member_val kvs)" t]
    by (simp add: first_value_def start_def member_val_def del: json_text.simps)
qed

section \<open>Lines\<close>

text \<open>Every byte of a text is 32 or more: the encoder writes no control character.\<close>

definition visible :: "char \<Rightarrow> bool" where
  "visible c \<longleftrightarrow> 32 \<le> ord8 c"

lemma visible_literals [simp]: "visible backslash" "visible quote_chr"
  by code_simp+

lemma visible_hex: "is_hex c \<Longrightarrow> visible c"
  by (auto simp: is_hex_def is_digit_def in_range_def visible_def)

lemma visible_esc:
  assumes "is_ascii c"
  shows "list_all visible (esc c)"
  using assms
proof (cases rule: esc_cases)
  case 1
  then show ?thesis by (simp add: visible_def)
next
  case (2 e)
  have "list_all visible [quote_chr, backslash, CHR ''/'', CHR ''b'', CHR ''f'', CHR ''n'', CHR ''r'', CHR ''t'']"
    by code_simp
  with 2 show ?thesis by (auto simp: escapable_def list_all_iff)
next
  case (3 h1 h2 h3 h4 n)
  have "visible (CHR ''u'')" by code_simp
  with 3 show ?thesis by (simp add: visible_hex)
qed

lemma visible_quote_body: "list_all visible (quote_body s)"
proof (induction s rule: quote_body.induct)
  case (2 c s)
  have "list_all visible ''ufffd2028 2029''" by code_simp
  moreover have "list_all visible (rune (c # s))"
    using rune_bytes [of _ "c # s"] by (force simp: list_all_iff visible_def)
  ultimately show ?case using "2.IH" by (simp add: quote_body.simps(2) visible_esc)
qed simp

lemma visible_plain: "list_all plain s \<Longrightarrow> list_all visible s"
  by (auto simp: list_all_iff plain_def visible_def)

lemma visible_join:
  "visible sep \<Longrightarrow> (\<And>p. p \<in> set ps \<Longrightarrow> list_all visible p) \<Longrightarrow> list_all visible (join_with sep ps)"
  by (induction sep ps rule: join_with.induct) auto

lemma visible_text: "list_all visible (json_text j)"
proof (induction j rule: json_text.induct)
  case (3 n)
  have "visible (CHR ''-'')" by code_simp
  moreover have "list_all visible (dec_digits k)" for k
    using list_all_dec_digits [of k] by (auto simp: list_all_iff intro: visible_plain visible_hex simp: is_hex_def)
  ultimately show ?case by (simp add: int_text_def)
next
  case (6 js)
  have "list_all visible ''[,]''" by code_simp
  with 6 show ?case by (auto intro!: visible_join)
next
  case (7 kvs)
  have punct: "list_all visible ''{:,}''" by code_simp
  have "list_all visible (member_text kv)" if "kv \<in> set kvs" for kv
    using 7 [OF that] punct visible_quote_body by (cases kv) (simp add: member_text_def json_quote_def)
  with punct have "list_all visible (join_with (CHR '','') (map member_text kvs))"
    by (auto intro!: visible_join)
  with punct show ?case by (simp add: member_text_def)
qed (simp_all add: json_quote_def visible_quote_body plain_rfc3339 visible_plain, (code_simp+)?)

lemma text_one_line: "newline \<notin> set (json_text j)"
proof -
  have "\<not> visible newline" by code_simp
  then show ?thesis using visible_text [of j] by (auto simp: list_all_iff)
qed

text \<open>Lines, each ended by a line break, and their values.\<close>

definition text_lines :: "string \<Rightarrow> string list" where
  "text_lines s = (let ls = split_on newline s in if last ls = [] then butlast ls else ls)"

definition lines_text :: "json list \<Rightarrow> string" where
  "lines_text js = concat (map (\<lambda>j. json_text j @ [newline]) js)"

lemma split_on_line: "sep \<notin> set p \<Longrightarrow> split_on sep (p @ sep # s) = p # split_on sep s"
  by (induction p) auto

lemma split_on_lines: "split_on newline (lines_text js) = map json_text js @ [[]]"
  by (induction js) (simp_all add: lines_text_def split_on_line text_one_line)

lemma text_lines: "text_lines (lines_text js) = map json_text js"
  by (simp add: text_lines_def split_on_lines)

lemma lines_values:
  assumes "list_all (nested 10000) js"
  shows "map parse_json (text_lines (lines_text js)) = map (\<lambda>j. Some (val_of j)) js"
  using assms parse_json_text(2) by (auto simp: text_lines list_all_iff)

end
