(* ===== verification/Api_Body.thy ===== *)
theory Api_Body
  imports Go_Json
begin

text \<open>
  The body of \<open>POST /api/v1/attempts\<close>: \<open>json.NewDecoder(r.Body).Decode(&req)\<close> of
  \<open>server/internal/api/attempts.go\<close>, from the bytes of the body (which end where the client ended
  them) to a \<open>submitAttemptRequest\<close>, \<open>None\<close> for any error.

  Like \<open>encoding/json\<close>, \<open>decode_submit\<close> looks at the first value of the body only; matches the keys of an object
  by their exact and then by their case-folded names; skips keys it does not know; takes the last of several values for one
  key; reads \<open>null\<close> as no change (for a slice: the nil slice); and reads a repeated array into the slice
  that is already there, so that a \<open>null\<close> in it leaves what its cell held before.
\<close>

record submit_request =
  sr_date :: string
  sr_guesses :: "string list"

section \<open>Field names\<close>

definition ascii_upper :: "char \<Rightarrow> char" where
  "ascii_upper c = (if 97 \<le> ord8 c \<and> ord8 c \<le> 122 then char_of (ord8 c - 32) else c)"

definition long_s :: string where "long_s = [CHR 0xC5, CHR 0xBF]"
definition kelvin_sign :: string where "kelvin_sign = [CHR 0xE2, CHR 0x84, CHR 0xAA]"

text \<open>
  \<open>foldName\<close>: every code point becomes the smallest one that it is equal to under simple case folding. Only two
  code points outside ASCII fold into ASCII, the long s and the Kelvin sign; where the others go
  does not matter to a comparison with an ASCII name, so they stay.
\<close>

function fold_name :: "string \<Rightarrow> string" where
  "fold_name [] = []"
| "fold_name (c # s) =
     (if has_prefix (c # s) long_s then CHR ''S'' # fold_name (drop 1 s)
      else if has_prefix (c # s) kelvin_sign then CHR ''K'' # fold_name (drop 2 s)
      else ascii_upper c # fold_name s)"
  by pat_completeness auto
termination by (relation "measure length") auto

datatype submit_field = FDate | FGuesses

definition field_of :: "string \<Rightarrow> submit_field option" where
  "field_of k =
     (if k = ''date'' then Some FDate
      else if k = ''guesses'' then Some FGuesses
      else if fold_name k = fold_name ''date'' then Some FDate
      else if fold_name k = fold_name ''guesses'' then Some FGuesses
      else None)"

section \<open>Values\<close>

text \<open>A value decoded into a string that holds \<open>old\<close>.\<close>

fun decode_string :: "jval \<Rightarrow> string \<Rightarrow> string option" where
  "decode_string VNull old = Some old"
| "decode_string (VStr s) old = Some s"
| "decode_string _ old = None"

text \<open>
  Elements decoded into the cells of a slice's array, from the first cell on; the cells behind the last element keep
  what they hold. A cell that the array has to grow by is empty.
\<close>

fun decode_elems :: "jval list \<Rightarrow> string list \<Rightarrow> string list option" where
  "decode_elems [] cells = Some cells"
| "decode_elems (v # vs) cells =
     (case decode_string v (if cells = [] then [] else hd cells) of
        None \<Rightarrow> None
      | Some x \<Rightarrow> map_option (\<lambda>xs. x # xs) (decode_elems vs (tl cells)))"

text \<open>The request being filled; the slice \<open>Guesses\<close> is its array and its length.\<close>

record submit_target =
  tg_date :: string
  tg_cells :: "string list"
  tg_len :: nat

fun decode_guesses :: "jval \<Rightarrow> submit_target \<Rightarrow> submit_target option" where
  "decode_guesses VNull t = Some (t\<lparr>tg_cells := [], tg_len := 0\<rparr>)"
| "decode_guesses (VArr vs) t =
     (if vs = [] then Some (t\<lparr>tg_cells := [], tg_len := 0\<rparr>)
      else map_option (\<lambda>cells. t\<lparr>tg_cells := cells, tg_len := length vs\<rparr>) (decode_elems vs (tg_cells t)))"
| "decode_guesses _ t = None"

definition decode_member :: "string \<times> jval \<Rightarrow> submit_target \<Rightarrow> submit_target option" where
  "decode_member kv t =
     (case field_of (fst kv) of
        None \<Rightarrow> Some t
      | Some FDate \<Rightarrow> map_option (\<lambda>d. t\<lparr>tg_date := d\<rparr>) (decode_string (snd kv) (tg_date t))
      | Some FGuesses \<Rightarrow> decode_guesses (snd kv) t)"

fun decode_members :: "(string \<times> jval) list \<Rightarrow> submit_target \<Rightarrow> submit_target option" where
  "decode_members [] t = Some t"
| "decode_members (kv # kvs) t = (case decode_member kv t of None \<Rightarrow> None | Some t' \<Rightarrow> decode_members kvs t')"

definition zero_target :: submit_target where
  "zero_target = \<lparr>tg_date = [], tg_cells = [], tg_len = 0\<rparr>"

definition target_request :: "submit_target \<Rightarrow> submit_request" where
  "target_request t = \<lparr>sr_date = tg_date t, sr_guesses = take (tg_len t) (tg_cells t)\<rparr>"

definition decode_submit :: "string \<Rightarrow> submit_request option" where
  "decode_submit body =
     (case first_value body of
        Some VNull \<Rightarrow> Some (target_request zero_target)
      | Some (VObj kvs) \<Rightarrow> map_option target_request (decode_members kvs zero_target)
      | _ \<Rightarrow> None)"

section \<open>What is accepted\<close>

definition string_or_null :: "jval \<Rightarrow> bool" where
  "string_or_null v \<longleftrightarrow> (case v of VNull \<Rightarrow> True | VStr _ \<Rightarrow> True | _ \<Rightarrow> False)"

fun fits :: "string \<times> jval \<Rightarrow> bool" where
  "fits (k, v) =
     (case field_of k of
        None \<Rightarrow> True
      | Some FDate \<Rightarrow> string_or_null v
      | Some FGuesses \<Rightarrow> (case v of VNull \<Rightarrow> True | VArr vs \<Rightarrow> list_all string_or_null vs | _ \<Rightarrow> False))"

lemma decode_string_ok: "decode_string v old = None \<longleftrightarrow> \<not> string_or_null v"
  by (cases v) (auto simp: string_or_null_def)

lemma decode_elems_ok: "decode_elems vs cells = None \<longleftrightarrow> \<not> list_all string_or_null vs"
proof (induction vs arbitrary: cells)
  case (Cons v vs)
  then show ?case
    using decode_string_ok [of v "if cells = [] then [] else hd cells"]
    by (cases "decode_string v (if cells = [] then [] else hd cells)") (simp_all del: if_split)
qed simp

lemma decode_elems_length: "decode_elems vs cells = Some xs \<Longrightarrow> length vs \<le> length xs"
  by (induction vs arbitrary: cells xs) (auto split: option.splits)

lemma decode_member_ok: "decode_member kv t = None \<longleftrightarrow> \<not> fits kv"
proof (cases kv)
  case (Pair k v)
  show ?thesis
  proof (cases "field_of k")
    case (Some f)
    then show ?thesis using Pair
      by (cases f; cases v) (auto simp: decode_member_def string_or_null_def decode_elems_ok)
  qed (simp add: Pair decode_member_def)
qed

lemma decode_members_ok: "decode_members kvs t = None \<longleftrightarrow> \<not> list_all fits kvs"
proof (induction kvs arbitrary: t)
  case (Cons kv kvs)
  then show ?case using decode_member_ok [of kv t] by (auto split: option.split)
qed simp

text \<open>C37: A submitted body is accepted exactly when its first JSON value is null or an object in which every value under a name
  that folds to "date" is a string or null and every one under a name that folds to "guesses" is null or an array of strings
  and nulls; whatever else the object holds, and whatever follows it, is ignored. In particular a
  body that is not the start of a JSON text is rejected.\<close>

theorem decode_submit_accepts:
  "decode_submit body \<noteq> None \<longleftrightarrow>
     (case first_value body of
        Some VNull \<Rightarrow> True
      | Some (VObj kvs) \<Rightarrow> list_all fits kvs
      | _ \<Rightarrow> False)"
  by (simp add: decode_submit_def decode_members_ok split: option.split jval.split del: not_None_eq)

section \<open>Round trip\<close>

definition request_json :: "string \<Rightarrow> string list \<Rightarrow> json" where
  "request_json d gs = JObj [(''date'', JStr d), (''guesses'', JArr (map JStr gs))]"

lemma decode_elems_strings: "decode_elems (map VStr ss) [] = Some ss"
  by (induction ss) auto

lemma field_names [simp]: "field_of ''date'' = Some FDate" "field_of ''guesses'' = Some FGuesses"
  by (simp_all add: field_of_def)

lemma to_valid_names [simp]: "to_valid ''date'' = ''date''" "to_valid ''guesses'' = ''guesses''"
  by code_simp+

lemma nested_request: "nested 10000 (request_json d gs)"
  by (simp add: request_json_def list_all_iff)

text \<open>The body that a client encodes for a date and a list of guesses is decoded to that date and these guesses,
  each made valid UTF-8, whatever bytes follow the object.\<close>

lemma submit_body_decoded:
  "decode_submit (json_text (request_json d gs) @ t)
     = Some \<lparr>sr_date = to_valid d, sr_guesses = map to_valid gs\<rparr>"
proof -
  have "first_value (json_text (request_json d gs) @ t) = Some (val_of (request_json d gs))"
    unfolding request_json_def by (rule first_value_object) (use nested_request in \<open>simp only: request_json_def\<close>)
  moreover have "map (val_of \<circ> JStr) gs = map VStr (map to_valid gs)" by simp
  ultimately show ?thesis
    using decode_elems_strings [of "map to_valid gs"]
    by (simp add: decode_submit_def request_json_def decode_member_def zero_target_def target_request_def)
qed

end
