(* ===== verification/Api.thy ===== *)
theory Api
  imports Auth Scoring Api_Body
begin

text \<open>
  The REST surface of package \<open>api\<close> (\<open>server/internal/api\<close>): the date checks, the handlers for
  attempts, puzzles and leaderboards, and the routes that \<open>Mount\<close> installs.

  A handler is given the store interface it was built with, its readings of the clock in the
  order it takes them, the data the router extracted from the request and the bytes of its body,
  the claims of the request context and the state of the store.
\<close>

section \<open>Dates\<close>

definition gracePastDays :: int where "gracePastDays = 1"

definition validDate :: "string \<Rightarrow> bool" where
  "validDate s =
     (if length s \<noteq> length dateFmt then False
      else (case time_parse s of None \<Rightarrow> False | Some _ \<Rightarrow> True))"

definition dateInWindow :: "string \<Rightarrow> gotime \<Rightarrow> bool" where
  "dateInWindow date nowUTC =
     (case time_parse date of
        None \<Rightarrow> False
      | Some d \<Rightarrow>
          (let today = midnight (civil_of nowUTC)
           in if today < d then False
              else (let earliest = add_days today (- gracePastDays) in \<not> d < earliest)))"

section \<open>Attempts\<close>

definition submit_response_json :: "int64 \<Rightarrow> bool \<Rightarrow> json" where
  "submit_response_json score won = JObj [(''score'', JNum (sint score)), (''won'', JBool won)]"

definition new_attempt :: "string \<Rightarrow> string \<Rightarrow> string list \<Rightarrow> gotime \<Rightarrow> attempt" where
  "new_attempt uid date guesses t =
     \<lparr>a_uid = uid, a_date = date, a_guesses = guesses, a_won = False, a_score = 0,
      a_completed = t, a_in_progress = False\<rparr>"

definition daily_board :: "string \<Rightarrow> string" where
  "daily_board date = ''lb:daily:'' @ date"

definition alltime_board :: string where
  "alltime_board = ''lb:global:alltime''"

definition attempts_submit ::
  "'s store_ops \<Rightarrow> (string \<Rightarrow> string) \<Rightarrow> gotime \<Rightarrow> gotime \<Rightarrow> string \<Rightarrow> 's handler"
where
  "attempts_submit ops uni now1 now2 body ctx s =
     (case ctx of
        None \<Rightarrow> (writeError 401 ''no claims'', s)
      | Some claims \<Rightarrow>
     (case decode_submit body of
        None \<Rightarrow> (writeError 400 ''invalid body'', s)
      | Some req \<Rightarrow>
     (if \<not> validDate (sr_date req) then (writeError 400 ''invalid date'', s)
      else if \<not> dateInWindow (sr_date req) now1 then (writeError 400 ''date out of submit window'', s)
      else if sr_guesses req = [] then (writeError 400 ''no guesses'', s)
      else
     (case st_GetPuzzle ops (sr_date req) s of
        (Inl err, s) \<Rightarrow>
          if errors_is err ErrNotFound then (writeError 404 ''puzzle not found'', s)
          else (writeError 500 ''store error'', s)
      | (Inr puzzle, s) \<Rightarrow>
     (let attempt = finalize uni (new_attempt (c_uid claims) (sr_date req) (sr_guesses req) now2)
                      (p_word puzzle) in
      case st_UpsertAttempt ops attempt s of
        (Inl err, s) \<Rightarrow> (writeError 500 ''persist attempt'', s)
      | (Inr _, s) \<Rightarrow>
     (let s = (if 0 < sint (a_score attempt)
               then (let s = snd (st_SubmitScore ops (daily_board (sr_date req)) (c_uid claims) (a_score attempt) s)
                     in snd (st_SubmitScore ops alltime_board (c_uid claims) (a_score attempt) s))
               else s)
      in (okJson (submit_response_json (a_score attempt) (a_won attempt)), s)))))))"

definition attempts_mine :: "'s store_ops \<Rightarrow> string \<Rightarrow> 's handler" where
  "attempts_mine ops date ctx s =
     (case ctx of
        None \<Rightarrow> (writeError 401 ''no claims'', s)
      | Some claims \<Rightarrow>
     (if \<not> validDate date then (writeError 400 ''invalid date'', s)
      else
     (case st_GetAttempt ops (c_uid claims) date s of
        (Inl err, s) \<Rightarrow>
          if errors_is err ErrNotFound then (writeError 404 ''no attempt'', s)
          else (writeError 500 ''store error'', s)
      | (Inr a, s) \<Rightarrow> (okJson (attempt_json a), s))))"

section \<open>Puzzles\<close>

text \<open>\<open>encoding/json\<close> writes the keys of a Go map in sorted order.\<close>

definition public_puzzle_json :: "puzzle \<Rightarrow> json" where
  "public_puzzle_json p = JObj
     [(''date'', JStr (p_date p)), (''difficulty'', JNum (sint (p_difficulty p))),
      (''hint'', JStr (p_hint p)), (''length'', JNum (int (length (p_word p))))]"

definition puzzles_byDate :: "'s store_ops \<Rightarrow> string \<Rightarrow> 's handler" where
  "puzzles_byDate ops date ctx s =
     (case st_GetPuzzle ops date s of
        (Inl err, s) \<Rightarrow>
          if errors_is err ErrNotFound then (writeError 404 ''puzzle not found'', s)
          else (writeError 500 ''store error'', s)
      | (Inr p, s) \<Rightarrow> (okJson (public_puzzle_json p), s))"

definition puzzles_today :: "'s store_ops \<Rightarrow> gotime \<Rightarrow> 's handler" where
  "puzzles_today ops now = puzzles_byDate ops (time_format now)"

definition puzzles_get :: "'s store_ops \<Rightarrow> string \<Rightarrow> 's handler" where
  "puzzles_get ops date ctx s =
     (if \<not> validDate date then (writeError 400 ''invalid date'', s)
      else puzzles_byDate ops date ctx s)"

definition puzzles_meByDate :: "'s store_ops \<Rightarrow> string \<Rightarrow> 's handler" where
  "puzzles_meByDate ops date ctx s =
     (case st_GetPuzzle ops date s of
        (Inl err, s) \<Rightarrow>
          if errors_is err ErrNotFound then (writeError 404 ''puzzle not found'', s)
          else (writeError 500 ''store error'', s)
      | (Inr p, s) \<Rightarrow> (okJson (puzzle_json p), s))"

definition puzzles_meToday :: "'s store_ops \<Rightarrow> gotime \<Rightarrow> 's handler" where
  "puzzles_meToday ops now = puzzles_meByDate ops (time_format now)"

definition puzzles_meGet :: "'s store_ops \<Rightarrow> string \<Rightarrow> 's handler" where
  "puzzles_meGet ops date ctx s =
     (if \<not> validDate date then (writeError 400 ''invalid date'', s)
      else puzzles_meByDate ops date ctx s)"

section \<open>Leaderboards\<close>

definition defaultTopN :: int where "defaultTopN = 50"

definition query_n :: "string \<Rightarrow> int" where
  "query_n v =
     (if v \<noteq> []
      then (case atoi v of
              Some parsed \<Rightarrow> if parsed > 0 \<and> parsed \<le> 1000 then parsed else defaultTopN
            | None \<Rightarrow> defaultTopN)
      else defaultTopN)"

definition board_response_json :: "string \<Rightarrow> string \<Rightarrow> rank list \<Rightarrow> json" where
  "board_response_json scope date rows = JObj
     [(''date'', JStr date), (''rows'', JArr (map rank_json rows)), (''scope'', JStr scope)]"

definition board_page ::
  "'s store_ops \<Rightarrow> string \<Rightarrow> string \<Rightarrow> string \<Rightarrow> string \<Rightarrow> 's \<Rightarrow> response \<times> 's"
where
  "board_page ops scope date key q s =
     (case st_TopN ops key (query_n q) s of
        (Inl err, s) \<Rightarrow> (writeError 500 ''leaderboard error'', s)
      | (Inr rows, s) \<Rightarrow> (okJson (board_response_json scope date rows), s))"

definition leaderboards_get :: "'s store_ops \<Rightarrow> gotime \<Rightarrow> string \<Rightarrow> string \<Rightarrow> string \<Rightarrow> 's handler" where
  "leaderboards_get ops now scope date q ctx s =
     (if scope = ''global'' then board_page ops scope date alltime_board q s
      else if scope = ''daily'' then
        (let date = (if date = [] then time_format now else date)
         in if \<not> validDate date then (writeError 400 ''invalid date'', s)
            else board_page ops scope date (daily_board date) q s)
      else (writeError 400 ''scope must be global or daily'', s))"

section \<open>Routes\<close>

text \<open>
  The routes of \<open>Mount\<close> with the parameters the router binds. \<open>RPuzzle\<close> is \<open>/puzzles/{date}\<close>,
  \<open>RBoard\<close> is \<open>/leaderboards/{scope}\<close>, \<open>RBoardDate\<close> the same with a date; both carry the query
  parameter \<open>n\<close> (empty when absent).
\<close>

datatype route =
    RPuzzleToday
  | RPuzzle string
  | RBoard string string
  | RBoardDate string string string
  | RSubmit string
  | RMine string
  | RMePuzzleToday
  | RMePuzzle string

record clock =
  ck_auth :: gotime
  ck_1 :: gotime
  ck_2 :: gotime

definition protect ::
  "verifier option \<Rightarrow> 's upserter option \<Rightarrow> gotime \<Rightarrow> string \<Rightarrow> 's handler \<Rightarrow> 's \<Rightarrow> response \<times> 's"
where
  "protect v up now hdr h s =
     (case v of None \<Rightarrow> h None s | Some v \<Rightarrow> Middleware v up now hdr h s)"

fun api_serve ::
  "'s store_ops \<Rightarrow> (string \<Rightarrow> string) \<Rightarrow> verifier option \<Rightarrow> 's upserter option \<Rightarrow> clock
     \<Rightarrow> string \<Rightarrow> route \<Rightarrow> 's \<Rightarrow> response \<times> 's"
where
  "api_serve ops uni v up ck hdr RPuzzleToday s = puzzles_today ops (ck_1 ck) None s"
| "api_serve ops uni v up ck hdr (RPuzzle date) s = puzzles_get ops date None s"
| "api_serve ops uni v up ck hdr (RBoard scope n) s = leaderboards_get ops (ck_1 ck) scope [] n None s"
| "api_serve ops uni v up ck hdr (RBoardDate scope date n) s =
     leaderboards_get ops (ck_1 ck) scope date n None s"
| "api_serve ops uni v up ck hdr (RSubmit body) s =
     protect v up (ck_auth ck) hdr (attempts_submit ops uni (ck_1 ck) (ck_2 ck) body) s"
| "api_serve ops uni v up ck hdr (RMine date) s =
     protect v up (ck_auth ck) hdr (attempts_mine ops date) s"
| "api_serve ops uni v up ck hdr RMePuzzleToday s =
     protect v up (ck_auth ck) hdr (puzzles_meToday ops (ck_1 ck)) s"
| "api_serve ops uni v up ck hdr (RMePuzzle date) s =
     protect v up (ck_auth ck) hdr (puzzles_meGet ops date) s"

section \<open>Facts about dates\<close>

lemma validDate_iff: "validDate s \<longleftrightarrow> (\<exists>c. parse_date s = Some c)"
  by (auto simp: validDate_def time_parse_def dateFmt_def dest: parse_date_length split: option.split)

lemma validDate_length: "validDate s \<Longrightarrow> length s = 10"
  by (simp add: validDate_def dateFmt_def split: if_splits)

text \<open>validDate accepts exactly the dates of the calendar: a string is accepted if and only if
  it is the four-digit-year rendering YYYY-MM-DD of an existing day of the years 0 to 9999 (so
  February 30 is rejected, and leap days are accepted in leap years only).\<close>

theorem validDate_spec:
  "validDate s \<longleftrightarrow>
     (\<exists>y m d. 0 \<le> y \<and> y \<le> 9999 \<and> 1 \<le> m \<and> m \<le> 12 \<and> 1 \<le> d \<and> d \<le> days_in m y
        \<and> s = append_int y 4 @ ''-'' @ append_int m 2 @ ''-'' @ append_int d 2)"
proof
  assume "validDate s"
  then obtain y m d where c: "parse_date s = Some (y, m, d)" by (auto simp: validDate_iff)
  then show "\<exists>y m d. 0 \<le> y \<and> y \<le> 9999 \<and> 1 \<le> m \<and> m \<le> 12 \<and> 1 \<le> d \<and> d \<le> days_in m y
        \<and> s = append_int y 4 @ ''-'' @ append_int m 2 @ ''-'' @ append_int d 2"
    using format_parse_date [OF c] parse_date_year [OF c] by (auto simp: format_civil_def)
next
  assume "\<exists>y m d. 0 \<le> y \<and> y \<le> 9999 \<and> 1 \<le> m \<and> m \<le> 12 \<and> 1 \<le> d \<and> d \<le> days_in m y
        \<and> s = append_int y 4 @ ''-'' @ append_int m 2 @ ''-'' @ append_int d 2"
  then obtain y m d where v: "valid_civil (y, m, d)" "0 \<le> y" "y \<le> 9999"
    and s: "s = format_civil (y, m, d)"
    by (auto simp: format_civil_def)
  then show "validDate s" using parse_format_civil [OF v] by (auto simp: validDate_iff)
qed

lemma midnight_le: "midnight (civil_of t) \<le> t \<and> t < midnight (civil_of t) + ns_per_day"
proof -
  have "t mod ns_per_day = t - midnight (civil_of t)"
    by (simp add: midnight_civil_of minus_div_mult_eq_mod)
  then show ?thesis
    using pos_mod_bound [of ns_per_day t] pos_mod_sign [of ns_per_day t]
    by (simp add: ns_per_day_def)
qed

text \<open>The submit window is today and yesterday: dateInWindow accepts exactly the dates whose day
  is the current UTC day or the day before it. The time of day does not matter, the window
  crosses month and year ends correctly, and no future date passes.\<close>

theorem dateInWindow_spec:
  "dateInWindow date now \<longleftrightarrow>
     parse_date date = Some (civil_of now) \<or> parse_date date = Some (civil_of (now - ns_per_day))"
proof (cases "parse_date date")
  case None
  then show ?thesis by (simp add: dateInWindow_def time_parse_def)
next
  case (Some c)
  define k where "k = day_number c"
  define n where "n = now div ns_per_day"
  have pos: "0 < ns_per_day" by (simp add: ns_per_day_def)
  have mid: "midnight c = k * ns_per_day" by (simp add: midnight_def k_def)
  have civ: "c = civil_of t \<longleftrightarrow> t div ns_per_day = k" for t
    using civil_of_day_inverse [of "t div ns_per_day"]
      civil_of_midnight [OF format_parse_date(2) [OF Some]] mid pos
    by (auto simp: civil_of_def k_def)
  have prev: "(now - ns_per_day) div ns_per_day = n - 1"
    using pos div_mult_self1 [of ns_per_day now "- 1"] by (simp add: n_def)
  have "dateInWindow date now \<longleftrightarrow> k \<le> n \<and> n - 1 \<le> k"
    using pos mult_less_cancel_right_pos [of ns_per_day] mult_le_cancel_right_pos [of ns_per_day "n - 1" k]
    by (simp add: dateInWindow_def time_parse_def Some mid midnight_civil_of add_days_eq gracePastDays_def
        Let_def n_def [symmetric] left_diff_distrib not_less)
  also have "\<dots> \<longleftrightarrow> k = n \<or> k = n - 1" by linarith
  finally show ?thesis
    using Some civ [of now] civ [of "now - ns_per_day"] prev by (auto simp: n_def)
qed

text \<open>The date under which \<open>/puzzles/today\<close> looks its puzzle up is a valid date that the submit
  window accepts at that moment, for every instant of the years 0 to 9999.\<close>

theorem today_is_submittable:
  assumes "0 \<le> fst (civil_of now)" and "fst (civil_of now) \<le> 9999"
  shows "validDate (time_format now) \<and> dateInWindow (time_format now) now"
proof -
  obtain y m d where c: "civil_of now = (y, m, d)" by (cases "civil_of now")
  have "valid_civil (y, m, d)"
    using civil_of_day_inverse [of "now div ns_per_day"] c by (simp add: civil_of_def)
  then have "parse_date (time_format now) = Some (civil_of now)"
    using parse_format_civil [of y m d] assms c by (simp add: time_format_def)
  then show ?thesis by (auto simp: dateInWindow_spec validDate_iff c)
qed

end
