(* ===== verification/Ws_Proto.thy ===== *)
theory Ws_Proto
  imports Store_Types
begin

text \<open>
  The messages of the WebSocket protocol (\<open>proto/dleague/v1/envelope.proto\<close> and its generated Go
  types in \<open>shared/pb/dleague/v1\<close>), as records with the fields of the messages.

  \<open>proto.Marshal\<close> and \<open>proto.Unmarshal\<close> belong to the protobuf library, which is not part of the
  repository: the record \<open>codec\<close> holds one pair of functions per message type. Marshalling
  returns bytes and an error, as in Go; some callers use the bytes without looking at the error.
  Where a property needs it, \<open>codec_ok\<close> states that library's documented behaviour: what was
  marshalled without an error is unmarshalled to the same message.
\<close>

section \<open>Messages\<close>

text \<open>proto3 enums are open: a number that names no constant is kept, as \<open>MT_OTHER\<close>.\<close>

datatype message_type =
    MT_UNSPECIFIED
  | MT_PING
  | MT_PONG
  | MT_AUTH_REQUEST
  | MT_AUTH_RESPONSE
  | MT_JOIN_ROOM
  | MT_JOIN_ROOM_ACK
  | MT_TURN
  | MT_MATCH_END
  | MT_OTHER int

record envelope =
  e_type :: message_type
  e_request_id :: string
  e_payload :: bytes

record ping =
  pi_client_ms :: int64

record pong =
  po_client_ms :: int64
  po_server_ms :: int64

record auth_request =
  aq_id_token :: string
  aq_version :: "32 word"

record auth_response =
  ar_ok :: bool
  ar_uid :: string
  ar_error :: string

record join_room =
  jr_match_id :: string

record join_room_ack =
  ja_ok :: bool
  ja_match_id :: string
  ja_role :: string
  ja_opponent :: string
  ja_error :: string

record turn =
  tu_match_id :: string
  tu_index :: "32 word"
  tu_payload :: bytes

record match_end =
  me_match_id :: string
  me_winner :: string
  me_score1 :: int64
  me_score2 :: int64

section \<open>Marshalling\<close>

record 'm pb =
  marshal :: "'m \<Rightarrow> bytes \<times> go_error option"
  unmarshal :: "bytes \<Rightarrow> 'm res"

record codec =
  pb_envelope :: "envelope pb"
  pb_ping :: "ping pb"
  pb_pong :: "pong pb"
  pb_auth_request :: "auth_request pb"
  pb_auth_response :: "auth_response pb"
  pb_join_room :: "join_room pb"
  pb_join_room_ack :: "join_room_ack pb"
  pb_turn :: "turn pb"
  pb_match_end :: "match_end pb"

definition pb_ok :: "'m pb \<Rightarrow> bool" where
  "pb_ok p \<longleftrightarrow> (\<forall>m bs. marshal p m = (bs, None) \<longrightarrow> unmarshal p bs = Inr m)"

end
