(* ===== verification/Ws_Hub.thy ===== *)
theory Ws_Hub
  imports Ws_Proto
begin

text \<open>
  The rooms, the hub and the sync-PvP handlers of package \<open>ws\<close>: \<open>rooms.go\<close>, \<open>hub.go\<close>,
  \<open>match_lifecycle.go\<close>, \<open>ping.go\<close>.

  A \<open>*Conn\<close> and a \<open>*Room\<close> are addresses (natural numbers). A world holds the objects behind
  them, the fields of the hub, the state of the store behind \<open>Hub.store\<close>, and what the server did
  to the sockets, oldest first: frames handed to \<open>websocket.Conn.Write\<close>, closing handshakes with
  code and reason, and \<open>CloseNow\<close>. Whether a write succeeds is up to the network; the broadcast
  only logs a failure, so the attempted write is what is recorded.

  The mutexes are not part of the state: every definition here is a piece of code that runs
  without interference, because it holds the hub's lock (\<open>register\<close>, \<open>unregister\<close>, \<open>join_enter\<close>)
  or the room's lock (\<open>Room_add\<close>, \<open>Room_snapshot\<close>), or is a composition of such pieces.
\<close>

section \<open>The world\<close>

record room =
  rm_id :: string
  rm_conns :: "nat list"
  rm_created :: gotime

record conn =
  cn_uid :: string
  cn_match :: string

datatype wire =
    Wrote nat bytes
  | Closed nat nat string
  | Dropped nat

record 's world =
  h_conns :: "nat set"
  h_rooms :: "nat gomap"
  h_store :: "'s store_ops option"
  w_conn :: "nat \<Rightarrow> conn"
  w_nconn :: nat
  w_room :: "nat \<Rightarrow> room"
  w_nroom :: nat
  w_db :: 's
  w_sent :: "wire list"

definition nil_room :: room where
  "nil_room = \<lparr>rm_id = [], rm_conns = [], rm_created = 0\<rparr>"

definition nil_conn :: conn where
  "nil_conn = \<lparr>cn_uid = [], cn_match = []\<rparr>"

text \<open>A hub over a store state \<open>db\<close>; without a store in the case of \<open>NewHub\<close>.\<close>

definition NewHub :: "'s \<Rightarrow> 's world" where
  "NewHub db =
     \<lparr>h_conns = {}, h_rooms = [], h_store = None, w_conn = (\<lambda>_. nil_conn), w_nconn = 0,
      w_room = (\<lambda>_. nil_room), w_nroom = 0, w_db = db, w_sent = []\<rparr>"

definition NewHubWithStore :: "'s store_ops \<Rightarrow> 's \<Rightarrow> 's world" where
  "NewHubWithStore ops db = (NewHub db)\<lparr>h_store := Some ops\<rparr>"

text \<open>\<open>&Conn{...}\<close>: a new connection object at a new address.\<close>

definition new_conn :: "string \<Rightarrow> 's world \<Rightarrow> nat \<times> 's world" where
  "new_conn uid w =
     (let c = w_nconn w
      in (c, w\<lparr>w_conn := (w_conn w)(c := \<lparr>cn_uid = uid, cn_match = []\<rparr>), w_nconn := c + 1\<rparr>))"

definition send :: "nat \<Rightarrow> bytes \<Rightarrow> 's world \<Rightarrow> 's world" where
  "send c bs w = w\<lparr>w_sent := w_sent w @ [Wrote c bs]\<rparr>"

section \<open>Rooms\<close>

definition newRoom :: "string \<Rightarrow> gotime \<Rightarrow> 's world \<Rightarrow> nat \<times> 's world" where
  "newRoom matchID now w =
     (let r = w_nroom w
      in (r, w\<lparr>w_room := (w_room w)(r := \<lparr>rm_id = matchID, rm_conns = [], rm_created = now\<rparr>),
               w_nroom := r + 1\<rparr>))"

definition Room_add :: "nat \<Rightarrow> nat \<Rightarrow> 's world \<Rightarrow> bool \<times> 's world" where
  "Room_add r c w =
     (if c \<in> set (rm_conns (w_room w r)) then (False, w)
      else (True, w\<lparr>w_room := (w_room w)(r := (w_room w r)\<lparr>rm_conns := rm_conns (w_room w r) @ [c]\<rparr>)\<rparr>))"

definition Room_remove :: "nat \<Rightarrow> nat \<Rightarrow> 's world \<Rightarrow> 's world" where
  "Room_remove r c w =
     w\<lparr>w_room := (w_room w)(r := (w_room w r)\<lparr>rm_conns := remove1 c (rm_conns (w_room w r))\<rparr>)\<rparr>"

definition Room_snapshot :: "nat \<Rightarrow> 's world \<Rightarrow> nat list" where
  "Room_snapshot r w = rm_conns (w_room w r)"

definition Room_empty :: "nat \<Rightarrow> 's world \<Rightarrow> bool" where
  "Room_empty r w \<longleftrightarrow> length (rm_conns (w_room w r)) = 0"

section \<open>The hub\<close>

definition register :: "nat \<Rightarrow> 's world \<Rightarrow> 's world" where
  "register c w = w\<lparr>h_conns := insert c (h_conns w)\<rparr>"

definition unregister :: "nat \<Rightarrow> 's world \<Rightarrow> 's world" where
  "unregister c w =
     (let w = w\<lparr>h_conns := h_conns w - {c}\<rparr>
      in if cn_match (w_conn w c) \<noteq> [] then
           (case gm_get (h_rooms w) (cn_match (w_conn w c)) of
              Some r \<Rightarrow>
                (let w = Room_remove r c w
                 in if Room_empty r w then w\<lparr>h_rooms := gm_del (cn_match (w_conn w c)) (h_rooms w)\<rparr>
                    else w)
            | None \<Rightarrow> w)
         else w)"

definition Count :: "'s world \<Rightarrow> nat" where
  "Count w = card (h_conns w)"

definition RoomCount :: "'s world \<Rightarrow> nat" where
  "RoomCount w = length (h_rooms w)"

definition broadcastRoom :: "codec \<Rightarrow> string \<Rightarrow> envelope \<Rightarrow> nat \<Rightarrow> 's world \<Rightarrow> 's world" where
  "broadcastRoom cdc matchID env exclude w =
     (case gm_get (h_rooms w) matchID of
        None \<Rightarrow> w
      | Some room \<Rightarrow>
          (case marshal (pb_envelope cdc) env of
             (_, Some err) \<Rightarrow> w
           | (out, None) \<Rightarrow>
               fold (\<lambda>peer w. if peer = exclude then w else send peer out w) (Room_snapshot room w) w))"

section \<open>Joining a room\<close>

definition ackJoin :: "codec \<Rightarrow> string \<Rightarrow> bool \<Rightarrow> string \<Rightarrow> string \<Rightarrow> string \<Rightarrow> string \<Rightarrow> envelope" where
  "ackJoin cdc requestID ok matchID role opponent errMsg =
     \<lparr>e_type = MT_JOIN_ROOM_ACK, e_request_id = requestID,
      e_payload = fst (marshal (pb_join_room_ack cdc)
        \<lparr>ja_ok = ok, ja_match_id = matchID, ja_role = role, ja_opponent = opponent, ja_error = errMsg\<rparr>)\<rparr>"

fun role_from :: "nat \<Rightarrow> string \<Rightarrow> string list \<Rightarrow> string" where
  "role_from i uid [] = []"
| "role_from i uid (p # ps) =
     (if p = uid then (if i = 0 then ''p1'' else ''p2'') else role_from (i + 1) uid ps)"

definition roleOf :: "string \<Rightarrow> string list \<Rightarrow> string" where
  "roleOf uid players = role_from 0 uid players"

fun opponentOf :: "string \<Rightarrow> string list \<Rightarrow> string" where
  "opponentOf uid [] = []"
| "opponentOf uid (p # ps) = (if p \<noteq> uid then p else opponentOf uid ps)"

text \<open>
  \<open>handleJoinRoom\<close> in its three parts: the checks, which either end the handler (\<open>Inl\<close>: its result)
  or yield the match, role and opponent to join with; the critical section under the hub's
  lock, which yields the room; and \<open>room.add\<close>, after the lock was released.
\<close>

definition join_check ::
  "codec \<Rightarrow> nat \<Rightarrow> envelope \<Rightarrow> 's world \<Rightarrow> (envelope res + string \<times> string \<times> string) \<times> 's world"
where
  "join_check cdc c env w =
     (case h_store w of
        None \<Rightarrow> (Inl (Inr (ackJoin cdc (e_request_id env) False [] [] [] ''sync-pvp disabled'')), w)
      | Some ops \<Rightarrow>
     (if cn_uid (w_conn w c) = [] then
        (Inl (Inr (ackJoin cdc (e_request_id env) False [] [] [] ''unauthenticated'')), w)
      else
     (case unmarshal (pb_join_room cdc) (e_payload env) of
        Inl err \<Rightarrow> (Inl (Inl (ErrWrap ''join_room unmarshal'' err)), w)
      | Inr req \<Rightarrow>
     (let matchID = jr_match_id req in
      if matchID = [] then
        (Inl (Inr (ackJoin cdc (e_request_id env) False [] [] [] ''missing match_id'')), w)
      else
     (case st_GetMatch ops matchID (w_db w) of
        (Inl err, db) \<Rightarrow>
          if errors_is err ErrNotFound then
            (Inl (Inr (ackJoin cdc (e_request_id env) False matchID [] [] ''match not found'')), w\<lparr>w_db := db\<rparr>)
          else (Inl (Inl (ErrWrap ''get match'' err)), w\<lparr>w_db := db\<rparr>)
      | (Inr m, db) \<Rightarrow>
     (let w = w\<lparr>w_db := db\<rparr>;
          role = roleOf (cn_uid (w_conn w c)) (m_players m)
      in if role = [] then
           (Inl (Inr (ackJoin cdc (e_request_id env) False matchID [] [] ''uid not in match.players'')), w)
         else (Inr (matchID, role, opponentOf (cn_uid (w_conn w c)) (m_players m)), w)))))))"

definition join_enter :: "gotime \<Rightarrow> nat \<Rightarrow> string \<Rightarrow> 's world \<Rightarrow> nat \<times> 's world" where
  "join_enter now c matchID w =
     (let (room, w) =
        (case gm_get (h_rooms w) matchID of
           Some room \<Rightarrow> (room, w)
         | None \<Rightarrow> (let (room, w) = newRoom matchID now w
                    in (room, w\<lparr>h_rooms := gm_put matchID room (h_rooms w)\<rparr>)))
      in (room, w\<lparr>w_conn := (w_conn w)(c := (w_conn w c)\<lparr>cn_match := matchID\<rparr>)\<rparr>))"

definition handleJoinRoom :: "codec \<Rightarrow> gotime \<Rightarrow> nat \<Rightarrow> envelope \<Rightarrow> 's world \<Rightarrow> envelope res \<times> 's world" where
  "handleJoinRoom cdc now c env w =
     (case join_check cdc c env w of
        (Inl result, w) \<Rightarrow> (result, w)
      | (Inr (matchID, role, opponent), w) \<Rightarrow>
          (let (room, w) = join_enter now c matchID w;
               w = snd (Room_add room c w)
           in (Inr (ackJoin cdc (e_request_id env) True matchID role opponent []), w)))"

section \<open>Turns\<close>

definition handleTurn :: "codec \<Rightarrow> nat \<Rightarrow> envelope \<Rightarrow> 's world \<Rightarrow> go_error option \<times> 's world" where
  "handleTurn cdc c env w =
     (if cn_match (w_conn w c) = [] then (Some (ErrText ''turn: conn not in a room''), w)
      else
     (case unmarshal (pb_turn cdc) (e_payload env) of
        Inl err \<Rightarrow> (Some (ErrWrap ''turn unmarshal'' err), w)
      | Inr req \<Rightarrow>
     (if tu_match_id req \<noteq> cn_match (w_conn w c) then (Some (ErrText ''turn: match_id mismatch''), w)
      else (None, broadcastRoom cdc (cn_match (w_conn w c)) env c w))))"

section \<open>The end of a match\<close>

definition maxScoreToTurns :: "int64 \<Rightarrow> int64 \<Rightarrow> int64" where
  "maxScoreToTurns s1 s2 = (if sint s2 < sint s1 then s1 else s2)"

definition submit_both :: "'s store_ops \<Rightarrow> string \<Rightarrow> string \<Rightarrow> int64 \<Rightarrow> 's \<Rightarrow> 's" where
  "submit_both ops date uid score db =
     (let db = snd (st_SubmitScore ops (''lb:daily:'' @ date) uid score db)
      in snd (st_SubmitScore ops ''lb:global:alltime'' uid score db))"

definition handleMatchEnd :: "codec \<Rightarrow> gotime \<Rightarrow> nat \<Rightarrow> envelope \<Rightarrow> 's world \<Rightarrow> envelope res \<times> 's world" where
  "handleMatchEnd cdc now c env w =
     (case h_store w of
        None \<Rightarrow> (Inl (ErrText ''match_end: store unwired''), w)
      | Some ops \<Rightarrow>
     (if cn_match (w_conn w c) = [] then (Inl (ErrText ''match_end: conn not in a room''), w)
      else
     (case unmarshal (pb_match_end cdc) (e_payload env) of
        Inl err \<Rightarrow> (Inl (ErrWrap ''match_end unmarshal'' err), w)
      | Inr req \<Rightarrow>
     (if me_match_id req \<noteq> cn_match (w_conn w c) then (Inl (ErrText ''match_end: match_id mismatch''), w)
      else
     (case st_GetMatch ops (cn_match (w_conn w c)) (w_db w) of
        (Inl err, db) \<Rightarrow> (Inl (ErrWrap ''match_end get'' err), w\<lparr>w_db := db\<rparr>)
      | (Inr m, db) \<Rightarrow>
     (if me_winner req \<noteq> [] \<and> roleOf (me_winner req) (m_players m) = [] then
        (Inl (ErrText ''match_end: winner not in players''), w\<lparr>w_db := db\<rparr>)
      else
     (let m = m\<lparr>m_state := ''ended'', m_winner := me_winner req,
                m_turns := maxScoreToTurns (me_score1 req) (me_score2 req), m_ended := now\<rparr>
      in case st_UpsertMatch ops m db of
        (Inl err, db) \<Rightarrow> (Inl (ErrWrap ''match_end upsert'' err), w\<lparr>w_db := db\<rparr>)
      | (Inr _, db) \<Rightarrow>
     (let db = (if length (m_players m) \<ge> 1 \<and> 0 < sint (me_score1 req)
                then submit_both ops (m_date m) (m_players m ! 0) (me_score1 req) db else db);
          db = (if length (m_players m) \<ge> 2 \<and> 0 < sint (me_score2 req)
                then submit_both ops (m_date m) (m_players m ! 1) (me_score2 req) db else db);
          w = w\<lparr>w_db := db\<rparr>
      in (Inr env, broadcastRoom cdc (cn_match (w_conn w c)) env c w)))))))))"

section \<open>Ping and dispatch\<close>

definition handlePing :: "codec \<Rightarrow> envelope \<Rightarrow> int64 \<Rightarrow> envelope res" where
  "handlePing cdc env serverNowMS =
     (case unmarshal (pb_ping cdc) (e_payload env) of
        Inl err \<Rightarrow> Inl (ErrWrap ''ping unmarshal'' err)
      | Inr ping \<Rightarrow>
          (case marshal (pb_pong cdc) \<lparr>po_client_ms = pi_client_ms ping, po_server_ms = serverNowMS\<rparr> of
             (_, Some err) \<Rightarrow> Inl (ErrWrap ''pong marshal'' err)
           | (body, None) \<Rightarrow>
               Inr \<lparr>e_type = MT_PONG, e_request_id = e_request_id env, e_payload = body\<rparr>))"

text \<open>\<open>t.UnixMilli()\<close>, with the number of seconds from year 1 to the Unix epoch.\<close>

definition unix_milli :: "gotime \<Rightarrow> int64" where
  "unix_milli t = word_of_int ((t - 62135596800 * 1000000000) div 1000000)"

text \<open>The envelope to send back (\<open>None\<close> for nil) or an error.\<close>

definition dispatch ::
  "codec \<Rightarrow> gotime \<Rightarrow> nat \<Rightarrow> envelope \<Rightarrow> int64 \<Rightarrow> 's world \<Rightarrow> envelope option res \<times> 's world"
where
  "dispatch cdc now c env serverNowMS w =
     (case e_type env of
        MT_PING \<Rightarrow> (map_sum id Some (handlePing cdc env serverNowMS), w)
      | MT_JOIN_ROOM \<Rightarrow> map_prod (map_sum id Some) id (handleJoinRoom cdc now c env w)
      | MT_TURN \<Rightarrow>
          (case handleTurn cdc c env w of
             (Some err, w) \<Rightarrow> (Inl err, w)
           | (None, w) \<Rightarrow> (Inr None, w))
      | MT_MATCH_END \<Rightarrow> map_prod (map_sum id Some) id (handleMatchEnd cdc now c env w)
      | _ \<Rightarrow> (Inr None, w))"

end
