(* ===== verification/Ws_Conn.thy ===== *)
theory Ws_Conn
  imports Ws_Hub Auth
begin

text \<open>
  The life of a WebSocket connection: \<open>conn.go\<close> and \<open>handshake.go\<close>. What the client and the
  network do is an argument: the result of each read, the readings of the clock, and whether
  the write of the answer succeeds.
\<close>

section \<open>Reads\<close>

datatype read_result =
    ReadErr go_error
  | ReadOther bytes
  | ReadBinary bytes

text \<open>One round of the read loop: the read, the clock at dispatch and in the handler, the write.\<close>

record incoming =
  in_read :: read_result
  in_dispatch_at :: gotime
  in_handler_at :: gotime
  in_write :: "go_error option"

definition DeadlineExceeded :: go_error where
  "DeadlineExceeded = ErrText ''context deadline exceeded''"

definition CloseUnauthenticated :: nat where
  "CloseUnauthenticated = 4001"

section \<open>The handshake\<close>

type_synonym 's token_verifier = "string \<Rightarrow> 's \<Rightarrow> (auth_claims \<times> go_error option) \<times> 's"

definition errHandshakeTimeout :: go_error where
  "errHandshakeTimeout = ErrText ''handshake: timeout''"
definition errHandshakeMalformed :: go_error where
  "errHandshakeMalformed = ErrText ''handshake: malformed first frame''"
definition errHandshakeWrongType :: go_error where
  "errHandshakeWrongType = ErrText ''handshake: first frame not AUTH_REQUEST''"
definition errHandshakeNoVerifier :: go_error where
  "errHandshakeNoVerifier = ErrText ''handshake: no verifier configured''"

definition buildAuthResponse :: "codec \<Rightarrow> string \<Rightarrow> auth_claims \<Rightarrow> go_error option \<Rightarrow> envelope" where
  "buildAuthResponse cdc requestID claims verifyErr =
     \<lparr>e_type = MT_AUTH_RESPONSE, e_request_id = requestID,
      e_payload = fst (marshal (pb_auth_response cdc)
        \<lparr>ar_ok = (verifyErr = None), ar_uid = c_uid claims,
         ar_error = (if verifyErr \<noteq> None then ''invalid_token'' else [])\<rparr>)\<rparr>"

text \<open>The write itself may fail (\<open>wr\<close>); it counts as attempted unless marshalling fails.\<close>

definition writeEnvelope ::
  "codec \<Rightarrow> go_error option \<Rightarrow> nat \<Rightarrow> envelope \<Rightarrow> 's world \<Rightarrow> go_error option \<times> 's world"
where
  "writeEnvelope cdc wr c env w =
     (case marshal (pb_envelope cdc) env of
        (_, Some err) \<Rightarrow> (Some err, w)
      | (out, None) \<Rightarrow> (wr, send c out w))"

definition performHandshake ::
  "codec \<Rightarrow> 's token_verifier option \<Rightarrow> read_result \<Rightarrow> go_error option \<Rightarrow> nat \<Rightarrow> 's world
     \<Rightarrow> auth_claims res \<times> 's world"
where
  "performHandshake cdc v rd wr c w =
     (case v of
        None \<Rightarrow> (Inl errHandshakeNoVerifier, w)
      | Some v \<Rightarrow>
     (case rd of
        ReadErr err \<Rightarrow>
          if errors_is err DeadlineExceeded then (Inl errHandshakeTimeout, w)
          else (Inl (ErrWrap ''handshake read'' err), w)
      | ReadOther data \<Rightarrow> (Inl errHandshakeMalformed, w)
      | ReadBinary data \<Rightarrow>
     (case unmarshal (pb_envelope cdc) data of
        Inl err \<Rightarrow> (Inl errHandshakeMalformed, w)
      | Inr env \<Rightarrow>
     (if e_type env \<noteq> MT_AUTH_REQUEST then (Inl errHandshakeWrongType, w)
      else
     (case unmarshal (pb_auth_request cdc) (e_payload env) of
        Inl err \<Rightarrow> (Inl errHandshakeMalformed, w)
      | Inr req \<Rightarrow>
     (case v (aq_id_token req) (w_db w) of
        ((claims, verifyErr), db) \<Rightarrow>
          (let w = w\<lparr>w_db := db\<rparr>;
               w = snd (writeEnvelope cdc wr c (buildAuthResponse cdc (e_request_id env) claims verifyErr) w)
           in case verifyErr of
                Some err \<Rightarrow> (Inl (ErrWrap ''handshake verify'' err), w)
              | None \<Rightarrow> (Inr claims, w))))))))"

section \<open>The upgrade\<close>

text \<open>
  The part of the handler before the read loop: accept, handshake, registration. The result is
  the connection if it was registered.
\<close>

definition open_conn ::
  "codec \<Rightarrow> 's token_verifier option \<Rightarrow> go_error option \<Rightarrow> read_result \<Rightarrow> go_error option \<Rightarrow> 's world
     \<Rightarrow> nat option \<times> 's world"
where
  "open_conn cdc v accept rd wr w =
     (case accept of
        Some err \<Rightarrow> (None, w)
      | None \<Rightarrow>
          (let (c, w) = new_conn [] w in
           case v of
             None \<Rightarrow> (Some c, register c w)
           | Some _ \<Rightarrow>
               (case performHandshake cdc v rd wr c w of
                  (Inl err, w) \<Rightarrow>
                    (None, w\<lparr>w_sent := w_sent w @ [Closed c CloseUnauthenticated ''unauthenticated'']\<rparr>)
                | (Inr claims, w) \<Rightarrow>
                    (let w = w\<lparr>w_conn := (w_conn w)(c := (w_conn w c)\<lparr>cn_uid := c_uid claims\<rparr>)\<rparr>
                     in (Some c, register c w)))))"

text \<open>The deferred calls, in the order in which they run.\<close>

definition close_conn :: "nat \<Rightarrow> 's world \<Rightarrow> 's world" where
  "close_conn c w = unregister c (w\<lparr>w_sent := w_sent w @ [Dropped c]\<rparr>)"

section \<open>The read loop\<close>

definition handle_frame :: "codec \<Rightarrow> incoming \<Rightarrow> nat \<Rightarrow> bytes \<Rightarrow> 's world \<Rightarrow> go_error option \<times> 's world" where
  "handle_frame cdc i c data w =
     (case unmarshal (pb_envelope cdc) data of
        Inl err \<Rightarrow> (Some err, w)
      | Inr env \<Rightarrow>
     (case dispatch cdc (in_handler_at i) c env (unix_milli (in_dispatch_at i)) w of
        (Inl err, w) \<Rightarrow> (Some err, w)
      | (Inr None, w) \<Rightarrow> (None, w)
      | (Inr (Some resp), w) \<Rightarrow>
     (case marshal (pb_envelope cdc) resp of
        (_, Some err) \<Rightarrow> (Some err, w)
      | (out, None) \<Rightarrow> (in_write i, send c out w))))"

text \<open>
  The loop over the reads of one connection; the flag says whether the loop has returned. It
  has not when the reads are used up: the server is then waiting for the next one.
\<close>

fun readLoop :: "codec \<Rightarrow> nat \<Rightarrow> incoming list \<Rightarrow> 's world \<Rightarrow> bool \<times> 's world" where
  "readLoop cdc c [] w = (False, w)"
| "readLoop cdc c (i # is) w =
     (case in_read i of
        ReadErr err \<Rightarrow> (True, w)
      | ReadOther data \<Rightarrow> readLoop cdc c is w
      | ReadBinary data \<Rightarrow>
          (case handle_frame cdc i c data w of
             (Some err, w) \<Rightarrow> (True, w)
           | (None, w) \<Rightarrow> readLoop cdc c is w))"

definition UpgradeHandler ::
  "codec \<Rightarrow> 's token_verifier option \<Rightarrow> go_error option \<Rightarrow> read_result \<Rightarrow> go_error option
     \<Rightarrow> incoming list \<Rightarrow> 's world \<Rightarrow> bool \<times> 's world"
where
  "UpgradeHandler cdc v accept rd wr is w =
     (case open_conn cdc v accept rd wr w of
        (None, w) \<Rightarrow> (True, w)
      | (Some c, w) \<Rightarrow>
          (case readLoop cdc c is w of
             (True, w) \<Rightarrow> (True, close_conn c w)
           | (False, w) \<Rightarrow> (False, w)))"

end
