(* ===== verification/App_Config.thy ===== *)
theory App_Config
  imports Go_Scan
begin

text \<open>
  Package \<open>config\<close> (\<open>server/internal/config/config.go\<close>): the settings read from the environment.
  \<open>getenv\<close> is \<open>os.Getenv\<close>, which answers the empty string for a variable that is not set.
\<close>

record config =
  cf_Addr :: string
  cf_WebRoot :: string
  cf_AllowedOrigins :: "string list"
  cf_FirebaseCredentialsJSON :: string
  cf_FirebaseProjectID :: string
  cf_MongoURI :: string
  cf_MongoDB :: string

definition ErrMissingFirebaseCredentials :: go_error where
  "ErrMissingFirebaseCredentials = ErrText ''FIREBASE_CREDENTIALS_JSON is required''"
definition ErrMalformedFirebaseJSON :: go_error where
  "ErrMalformedFirebaseJSON = ErrText ''FIREBASE_CREDENTIALS_JSON must be valid JSON''"
definition ErrMissingFirebaseProject :: go_error where
  "ErrMissingFirebaseProject = ErrText ''FIREBASE_PROJECT_ID is required''"
definition ErrMissingMongoURI :: go_error where
  "ErrMissingMongoURI = ErrText ''MONGODB_URI is required''"

lemmas config_errs =
  ErrMissingFirebaseCredentials_def ErrMalformedFirebaseJSON_def ErrMissingFirebaseProject_def
  ErrMissingMongoURI_def

definition envOr :: "(string \<Rightarrow> string) \<Rightarrow> string \<Rightarrow> string \<Rightarrow> string" where
  "envOr getenv key fallback = (let v = getenv key in if v \<noteq> [] then v else fallback)"

text \<open>The loop of \<open>splitCSV\<close> collects the trimmed parts that are not empty.\<close>

fun collect_parts :: "string list \<Rightarrow> string list \<Rightarrow> string list" where
  "collect_parts out [] = out"
| "collect_parts out (p # ps) =
     (let t = trim_space p in if t \<noteq> [] then collect_parts (out @ [t]) ps else collect_parts out ps)"

definition splitCSV :: "string \<Rightarrow> string list" where
  "splitCSV s = (if s = [] then [] else collect_parts [] (split_on (CHR '','') s))"

definition Load :: "(string \<Rightarrow> string) \<Rightarrow> config res" where
  "Load getenv =
     (let cfg = \<lparr>cf_Addr = envOr getenv ''DLEAGUE_ADDR'' '':8080'',
                 cf_WebRoot = envOr getenv ''DLEAGUE_WEB'' ''./web'',
                 cf_AllowedOrigins = splitCSV (getenv ''DLEAGUE_WS_ORIGINS''),
                 cf_FirebaseCredentialsJSON = getenv ''FIREBASE_CREDENTIALS_JSON'',
                 cf_FirebaseProjectID = getenv ''FIREBASE_PROJECT_ID'',
                 cf_MongoURI = getenv ''MONGODB_URI'',
                 cf_MongoDB = envOr getenv ''MONGODB_DB'' ''dleague''\<rparr>
      in if cf_Addr cfg = [] then Inl (ErrText ''DLEAGUE_ADDR must not be empty'')
         else if cf_WebRoot cfg = [] then Inl (ErrText ''DLEAGUE_WEB must not be empty'')
         else if cf_FirebaseCredentialsJSON cfg = [] then Inl ErrMissingFirebaseCredentials
         else if \<not> json_valid (cf_FirebaseCredentialsJSON cfg) then Inl ErrMalformedFirebaseJSON
         else if cf_FirebaseProjectID cfg = [] then Inl ErrMissingFirebaseProject
         else if cf_MongoURI cfg = [] then Inl ErrMissingMongoURI
         else Inr cfg)"

section \<open>Properties\<close>

lemma envOr_ne: "fallback \<noteq> [] \<Longrightarrow> envOr getenv key fallback \<noteq> []"
  by (simp add: envOr_def Let_def)

lemma collect_parts_eq:
  "collect_parts out ps = out @ filter (\<lambda>t. t \<noteq> []) (map trim_space ps)"
  by (induction ps arbitrary: out) (auto simp: Let_def)

text \<open>The list of allowed origins has exactly the comma-separated parts of the variable that are
  not blank, trimmed and in order: no entry is empty or has white space around it, splitting
  loses nothing (joining the raw parts with commas gives the variable back), and a blank
  variable gives the empty list, which means same origin only.\<close>

theorem splitCSV_spec:
  "\<exists>parts. join_with (CHR '','') parts = s \<and> (\<forall>p\<in>set parts. CHR '','' \<notin> set p)
     \<and> splitCSV s = filter (\<lambda>t. t \<noteq> []) (map trim_space parts)
     \<and> (\<forall>t\<in>set (splitCSV s). t \<noteq> [] \<and> trim_space t = t)
     \<and> (trim_space s = [] \<longrightarrow> CHR '','' \<notin> set s \<longrightarrow> splitCSV s = [])"
proof -
  let ?parts = "split_on (CHR '','') s"
  have eq: "splitCSV s = filter (\<lambda>t. t \<noteq> []) (map trim_space ?parts)"
    by (auto simp: splitCSV_def collect_parts_eq)
  have "CHR '','' \<notin> set s \<Longrightarrow> ?parts = [s]"
    by (induction s) auto
  then have "trim_space s = [] \<Longrightarrow> CHR '','' \<notin> set s \<Longrightarrow> splitCSV s = []"
    by (simp add: eq)
  moreover have "\<forall>p\<in>set ?parts. CHR '','' \<notin> set p"
    using split_on_no_sep by blast
  ultimately show ?thesis
    using join_with_split_on [of "CHR '',''" s] eq by (intro exI [of _ ?parts]) auto
qed


definition sample_getenv :: "string \<Rightarrow> string" where
  "sample_getenv k = (if k = ''FIREBASE_CREDENTIALS_JSON'' then ''{}'' else ''x'')"

lemma sample_credentials: "json_valid ''{}''" "\<not> json_valid ''{}}''"
  by code_simp+


end
