(* ===== verification/Http_Router.thy ===== *)
theory Http_Router
  imports Api Ws_Conn App_Config
begin

text \<open>
  Package \<open>http\<close> (\<open>server/internal/http\<close>) and the wiring of \<open>server/cmd/api/main.go\<close>: the health
  check, the routes of the server, and which store, verifier and hub the program is built from.

  The path functions \<open>filepath.Abs\<close> and \<open>os.Stat\<close>, the file server, the constructor of the
  database client and the Firebase SDK are arguments.
\<close>

section \<open>Health\<close>

definition text_header :: "(string \<times> string) list" where
  "text_header = [(''Content-Type'', ''text/plain; charset=utf-8'')]"

definition healthHandler :: "'s store_ops option \<Rightarrow> 's \<Rightarrow> response \<times> 's" where
  "healthHandler st s =
     (case st of
        None \<Rightarrow> (\<lparr>rs_status = 200, rs_headers = text_header, rs_body = BText ''ok''\<rparr>, s)
      | Some ops \<Rightarrow>
          (case st_Ping ops s of
             (Inl err, s) \<Rightarrow>
               (\<lparr>rs_status = 503, rs_headers = text_header,
                 rs_body = BText ''degraded: store unreachable''\<rparr>, s)
           | (Inr _, s) \<Rightarrow> (\<lparr>rs_status = 200, rs_headers = text_header, rs_body = BText ''ok''\<rparr>, s)))"

section \<open>The router\<close>

definition asUpserter :: "'s store_ops option \<Rightarrow> 's upserter option" where
  "asUpserter st = (case st of None \<Rightarrow> None | Some ops \<Rightarrow> Some (st_UpsertUserOnFirstAuth ops))"

record 's router =
  rt_web :: string
  rt_ws_verifier :: "'s gate option"
  rt_store :: "'s store_ops option"
  rt_verifier :: "verifier option"

definition NewRouter ::
  "(string \<Rightarrow> string res) \<Rightarrow> (string \<Rightarrow> bool res) \<Rightarrow> string \<Rightarrow> 's gate option \<Rightarrow> 's store_ops option
     \<Rightarrow> verifier option \<Rightarrow> 's router res"
where
  "NewRouter path_abs is_dir webRoot wsVerifier st verifier =
     (case path_abs webRoot of
        Inl err \<Rightarrow> Inl (ErrWrap ''resolve webRoot'' err)
      | Inr absPath \<Rightarrow>
          (case is_dir absPath of
             Inl err \<Rightarrow> Inl (ErrWrap ''webRoot %q'' err)
           | Inr dir \<Rightarrow>
               if \<not> dir then Inl (ErrText ''webRoot %q is not a directory'')
               else Inr \<lparr>rt_web = absPath, rt_ws_verifier = wsVerifier, rt_store = st, rt_verifier = verifier\<rparr>))"

text \<open>
  One HTTP request. Without a store the API is not mounted, and its paths go to the file
  server like any other. The upgrade of \<open>/ws\<close> is \<open>UpgradeHandler\<close>, driven by the connection.
\<close>

datatype http_route = HHealth | HApi route | HFile string

fun serve_http ::
  "'s router \<Rightarrow> (string \<Rightarrow> string) \<Rightarrow> (http_route \<Rightarrow> response) \<Rightarrow> clock \<Rightarrow> string \<Rightarrow> http_route \<Rightarrow> 's
     \<Rightarrow> response \<times> 's"
where
  "serve_http rt uni files ck hdr HHealth s = healthHandler (rt_store rt) s"
| "serve_http rt uni files ck hdr (HApi r) s =
     (case rt_store rt of
        None \<Rightarrow> (files (HApi r), s)
      | Some ops \<Rightarrow> api_serve ops uni (rt_verifier rt) (asUpserter (rt_store rt)) ck hdr r s)"
| "serve_http rt uni files ck hdr (HFile path) s = (files (HFile path), s)"

text \<open>The token verifier of the upgrade: \<open>nil\<close>, or the gate at the current time.\<close>

definition ws_verifier :: "'s router \<Rightarrow> gotime \<Rightarrow> 's token_verifier option" where
  "ws_verifier rt now = (case rt_ws_verifier rt of None \<Rightarrow> None | Some g \<Rightarrow> Some (Gate_Verify (Some g) now))"

section \<open>The program\<close>

text \<open>
  \<open>main\<close> up to the call of \<open>ListenAndServe\<close>: a fatal error with its log line and the store, if it was
  opened before the error, or the router and the world that the hub and the store form.
\<close>

definition main_boot ::
  "(string \<Rightarrow> string) \<Rightarrow> (string \<Rightarrow> string \<Rightarrow> ('s store_ops \<times> 's) res)
     \<Rightarrow> (string \<Rightarrow> string \<Rightarrow> 'app res) \<Rightarrow> ('app \<Rightarrow> 'client res) \<Rightarrow> ('client \<Rightarrow> string \<Rightarrow> fb_token res)
     \<Rightarrow> (string \<Rightarrow> string res) \<Rightarrow> (string \<Rightarrow> bool res) \<Rightarrow> (string \<times> go_error \<times> 's option) + ('s router \<times> 's world)"
where
  "main_boot getenv mongodb_New sdk_app sdk_auth sdk_verify path_abs is_dir =
     (case Load getenv of
        Inl err \<Rightarrow> Inl (''config'', err, None)
      | Inr cfg \<Rightarrow>
     (case mongodb_New (cf_MongoURI cfg) (cf_MongoDB cfg) of
        Inl err \<Rightarrow> Inl (''mongodb'', err, None)
      | Inr (st, db) \<Rightarrow>
     (case NewFirebase sdk_app sdk_auth (cf_FirebaseCredentialsJSON cfg) (cf_FirebaseProjectID cfg) of
        Inl err \<Rightarrow> Inl (''firebase auth'', err, Some db)
      | Inr client \<Rightarrow>
     (let verifier = Firebase_Verify sdk_verify (Some client);
          hub = NewHub db;
          gate = NewGate (Some verifier) (Some (st_UpsertUserOnFirstAuth st))
      in case NewRouter path_abs is_dir (cf_WebRoot cfg) (Some gate) (Some st) (Some verifier) of
           Inl err \<Rightarrow> Inl (''router'', err, Some db)
         | Inr rt \<Rightarrow> Inr (rt, hub)))))"

end
