(* ===== verification/Ws_Rooms.thy ===== *)
theory Ws_Rooms
  imports Ws_Conn
begin

text \<open>
  The room registry: its invariant \<open>hub_wf\<close> and what each piece of the hub's code does to it.

  \<^item> the registry maps the id of a match to a room object with that id, with distinct members and
    never empty;
  \<^item> a registered connection that has a match id is a member of the room of that match.

  The converse of the second point does not hold: a room can keep a connection that has moved
  on to another match, or that is gone (see \<open>Ws_Props\<close>).
\<close>

section \<open>What the hub's code leaves alone\<close>

lemma fold_send:
  "fold (\<lambda>p w. if p = ex then w else send p out w) ps w
     = w\<lparr>w_sent := w_sent w @ map (\<lambda>p. Wrote p out) (filter (\<lambda>p. p \<noteq> ex) ps)\<rparr>"
  by (induction ps arbitrary: w) (auto simp: send_def)

definition peers :: "string \<Rightarrow> nat \<Rightarrow> 's world \<Rightarrow> nat list" where
  "peers m c w =
     (case gm_get (h_rooms w) m of
        None \<Rightarrow> []
      | Some r \<Rightarrow> filter (\<lambda>p. p \<noteq> c) (rm_conns (w_room w r)))"

lemma broadcastRoom_eq:
  "broadcastRoom cdc m env c w =
     w\<lparr>w_sent := w_sent w @
        (case marshal (pb_envelope cdc) env of
           (_, Some _) \<Rightarrow> []
         | (out, None) \<Rightarrow> map (\<lambda>p. Wrote p out) (peers m c w))\<rparr>"
  by (auto simp: broadcastRoom_def peers_def fold_send Room_snapshot_def split: option.split prod.split)

lemma broadcastRoom_simps [simp]:
  "h_conns (broadcastRoom cdc m env c w) = h_conns w"
  "h_rooms (broadcastRoom cdc m env c w) = h_rooms w"
  "h_store (broadcastRoom cdc m env c w) = h_store w"
  "w_conn (broadcastRoom cdc m env c w) = w_conn w"
  "w_nconn (broadcastRoom cdc m env c w) = w_nconn w"
  "w_room (broadcastRoom cdc m env c w) = w_room w"
  "w_nroom (broadcastRoom cdc m env c w) = w_nroom w"
  "w_db (broadcastRoom cdc m env c w) = w_db w"
  by (simp_all add: broadcastRoom_eq)

lemma unregister_simps [simp]:
  "h_conns (unregister c w) = h_conns w - {c}"
  "h_store (unregister c w) = h_store w"
  "w_conn (unregister c w) = w_conn w"
  "w_nconn (unregister c w) = w_nconn w"
  "w_nroom (unregister c w) = w_nroom w"
  "w_db (unregister c w) = w_db w"
  "w_sent (unregister c w) = w_sent w"
  by (simp_all add: unregister_def Room_remove_def Let_def split: option.split)

section \<open>The invariant\<close>

definition room_ok :: "'s world \<Rightarrow> string \<Rightarrow> nat \<Rightarrow> bool" where
  "room_ok w m r \<longleftrightarrow>
     m \<noteq> [] \<and> r < w_nroom w \<and> rm_id (w_room w r) = m \<and> rm_conns (w_room w r) \<noteq> [] \<and>
     distinct (rm_conns (w_room w r)) \<and> (\<forall>c \<in> set (rm_conns (w_room w r)). c < w_nconn w)"

definition hub_wf :: "'s world \<Rightarrow> bool" where
  "hub_wf w \<longleftrightarrow>
     gm_wf (h_rooms w) \<and>
     (\<forall>m r. gm_get (h_rooms w) m = Some r \<longrightarrow> room_ok w m r) \<and>
     (\<forall>c \<in> h_conns w. c < w_nconn w \<and>
        (cn_match (w_conn w c) \<noteq> [] \<longrightarrow>
           (\<exists>r. gm_get (h_rooms w) (cn_match (w_conn w c)) = Some r \<and> c \<in> set (rm_conns (w_room w r)))))"

lemma hub_wfD:
  assumes "hub_wf w"
  shows "gm_wf (h_rooms w)"
    and "gm_get (h_rooms w) m = Some r \<Longrightarrow> room_ok w m r"
    and "c \<in> h_conns w \<Longrightarrow> c < w_nconn w"
    and "c \<in> h_conns w \<Longrightarrow> cn_match (w_conn w c) \<noteq> [] \<Longrightarrow>
      \<exists>r. gm_get (h_rooms w) (cn_match (w_conn w c)) = Some r \<and> c \<in> set (rm_conns (w_room w r))"
  using assms unfolding hub_wf_def by blast+

text \<open>Two entries of the registry never share a room object.\<close>

lemma hub_wf_inj:
  "hub_wf w \<Longrightarrow> gm_get (h_rooms w) m = Some r \<Longrightarrow> gm_get (h_rooms w) m' = Some r \<Longrightarrow> m = m'"
  using hub_wfD(2) unfolding room_ok_def by metis

lemma hub_wf_frame [simp]:
  "hub_wf (w\<lparr>w_db := db\<rparr>) = hub_wf w"
  "hub_wf (w\<lparr>w_sent := tr\<rparr>) = hub_wf w"
  by (simp_all add: hub_wf_def room_ok_def)

lemma hub_wf_broadcast [simp]: "hub_wf (broadcastRoom cdc m env c w) = hub_wf w"
  by (simp add: broadcastRoom_eq)

lemma hub_wf_send [simp]: "hub_wf (send c bs w) = hub_wf w"
  by (simp add: send_def)

lemma hub_wf_NewHub: "hub_wf (NewHub db)" "hub_wf (NewHubWithStore ops db)"
  by (simp_all add: NewHub_def NewHubWithStore_def hub_wf_def)

lemma hub_wf_new_conn:
  assumes "hub_wf w" and "new_conn uid w = (c, w')"
  shows "hub_wf w'" and "c < w_nconn w'" and "c \<notin> h_conns w'" and "cn_match (w_conn w' c) = []"
proof -
  have w': "c = w_nconn w" "w' = w\<lparr>w_conn := (w_conn w)(c := \<lparr>cn_uid = uid, cn_match = []\<rparr>), w_nconn := c + 1\<rparr>"
    using assms(2) by (auto simp: new_conn_def Let_def)
  have old: "c' < w_nconn w' \<and> c' \<noteq> c" if "c' \<in> h_conns w" for c'
    using hub_wfD(3) [OF assms(1) that] w' by simp
  have "room_ok w' m r" if "gm_get (h_rooms w) m = Some r" for m r
    using hub_wfD(2) [OF assms(1) that] w' by (auto simp: room_ok_def intro: less_SucI)
  then show "hub_wf w'"
    using assms(1) old unfolding hub_wf_def by (simp add: w'(2))
  show "c < w_nconn w'" "cn_match (w_conn w' c) = []" using w' by simp_all
  show "c \<notin> h_conns w'" using old w'(2) by auto
qed

lemma hub_wf_register:
  assumes "hub_wf w" and "c < w_nconn w" and "cn_match (w_conn w c) = []"
  shows "hub_wf (register c w)"
  using assms by (auto simp: register_def hub_wf_def room_ok_def)

lemma hub_wf_set_uid:
  "hub_wf w \<Longrightarrow> hub_wf (w\<lparr>w_conn := (w_conn w)(c := (w_conn w c)\<lparr>cn_uid := uid\<rparr>)\<rparr>)"
  by (auto simp: hub_wf_def room_ok_def)

lemma set_remove1_distinct: "distinct xs \<Longrightarrow> set (remove1 x xs) = set xs - {x}"
  by simp

lemma hub_wf_unregister:
  assumes wf: "hub_wf w"
  shows "hub_wf (unregister c w)"
proof (cases "cn_match (w_conn w c) = [] \<or> gm_get (h_rooms w) (cn_match (w_conn w c)) = None")
  case True
  then have "unregister c w = w\<lparr>h_conns := h_conns w - {c}\<rparr>"
    by (auto simp: unregister_def Let_def)
  with wf show ?thesis by (auto simp: hub_wf_def room_ok_def)
next
  case False
  let ?m = "cn_match (w_conn w c)"
  from False obtain r where r: "?m \<noteq> []" "gm_get (h_rooms w) ?m = Some r" by blast
  let ?cs = "rm_conns (w_room w r)"
  have dist: "distinct ?cs" using hub_wfD(2) [OF wf r(2)] by (simp add: room_ok_def)
  have room: "w_room (unregister c w) r' =
      (if r' = r then (w_room w r)\<lparr>rm_conns := remove1 c ?cs\<rparr> else w_room w r')" for r'
    using r by (simp add: unregister_def Room_remove_def Let_def)
  have get: "gm_get (h_rooms (unregister c w)) m' =
      (if m' = ?m \<and> remove1 c ?cs = [] then None else gm_get (h_rooms w) m')" for m'
    using r by (simp add: unregister_def Room_remove_def Room_empty_def Let_def)
  have "gm_wf (h_rooms (unregister c w))"
    using hub_wfD(1) [OF wf] r by (simp add: unregister_def Room_remove_def Let_def gm_wf_del)
  moreover have "room_ok (unregister c w) m' r'"
    if "gm_get (h_rooms (unregister c w)) m' = Some r'" for m' r'
  proof -
    from that have g: "gm_get (h_rooms w) m' = Some r'" and ne: "m' = ?m \<Longrightarrow> remove1 c ?cs \<noteq> []"
      by (auto simp: get split: if_splits)
    have "r' = r \<Longrightarrow> m' = ?m" using hub_wf_inj [OF wf] g r(2) by blast
    with hub_wfD(2) [OF wf g] ne dist show ?thesis
      by (auto simp: room_ok_def room)
  qed
  moreover have "c' < w_nconn w \<and> (cn_match (w_conn w c') \<noteq> [] \<longrightarrow>
      (\<exists>r'. gm_get (h_rooms (unregister c w)) (cn_match (w_conn w c')) = Some r'
         \<and> c' \<in> set (rm_conns (w_room (unregister c w) r'))))"
    if c': "c' \<in> h_conns w" "c' \<noteq> c" for c'
  proof (intro conjI impI)
    show "c' < w_nconn w" by (rule hub_wfD(3) [OF wf c'(1)])
    assume "cn_match (w_conn w c') \<noteq> []"
    from hub_wfD(4) [OF wf c'(1) this] obtain r'
      where r': "gm_get (h_rooms w) (cn_match (w_conn w c')) = Some r'" "c' \<in> set (rm_conns (w_room w r'))"
      by blast
    then have "r' = r \<Longrightarrow> c' \<in> set (remove1 c ?cs)"
      using c' by (simp add: set_remove1_distinct [OF dist])
    moreover have "cn_match (w_conn w c') = ?m \<Longrightarrow> r' = r" using r'(1) r(2) by simp
    ultimately show "\<exists>r'. gm_get (h_rooms (unregister c w)) (cn_match (w_conn w c')) = Some r'
         \<and> c' \<in> set (rm_conns (w_room (unregister c w) r'))"
      using r' by (intro exI [of _ r']) (auto simp: get room)
  qed
  ultimately show ?thesis by (simp add: hub_wf_def)
qed

section \<open>Entering a room\<close>

definition enter_room :: "gotime \<Rightarrow> nat \<Rightarrow> string \<Rightarrow> 's world \<Rightarrow> 's world" where
  "enter_room now c m w = (case join_enter now c m w of (r, w) \<Rightarrow> snd (Room_add r c w))"

lemma handleJoinRoom_eq:
  "handleJoinRoom cdc now c env w =
     (case join_check cdc c env w of
        (Inl result, w) \<Rightarrow> (result, w)
      | (Inr (m, role, opponent), w) \<Rightarrow>
          (Inr (ackJoin cdc (e_request_id env) True m role opponent []), enter_room now c m w))"
  by (simp add: handleJoinRoom_def enter_room_def Let_def split: prod.split sum.split)

lemma enter_room_simps [simp]:
  "h_conns (enter_room now c m w) = h_conns w"
  "h_store (enter_room now c m w) = h_store w"
  "w_nconn (enter_room now c m w) = w_nconn w"
  "w_db (enter_room now c m w) = w_db w"
  "w_sent (enter_room now c m w) = w_sent w"
  "w_conn (enter_room now c m w) = (w_conn w)(c := (w_conn w c)\<lparr>cn_match := m\<rparr>)"
  by (simp_all add: enter_room_def join_enter_def Room_add_def newRoom_def Let_def split: option.split)

text \<open>The members after a join: the old ones and the new one; the room is created if need be.\<close>

definition members :: "string \<Rightarrow> 's world \<Rightarrow> nat list" where
  "members m w = (case gm_get (h_rooms w) m of None \<Rightarrow> [] | Some r \<Rightarrow> rm_conns (w_room w r))"

lemma members_frame [simp]:
  "members m (w\<lparr>w_db := db\<rparr>) = members m w" "members m (w\<lparr>w_sent := tr\<rparr>) = members m w"
  "members m (send c bs w) = members m w" "members m (register c w) = members m w"
  by (simp_all add: members_def send_def register_def split: option.split)

lemma enter_room_registry:
  "gm_get (h_rooms (enter_room now c m w)) m' =
     (if m' = m then Some (case gm_get (h_rooms w) m of Some r \<Rightarrow> r | None \<Rightarrow> w_nroom w)
      else gm_get (h_rooms w) m')"
  by (auto simp: enter_room_def join_enter_def Room_add_def newRoom_def Let_def split: option.split)

lemma hub_wf_enter_room:
  assumes wf: "hub_wf w" and c: "c < w_nconn w" and m: "m \<noteq> []"
  shows "hub_wf (enter_room now c m w)"
    and "members m' (enter_room now c m w) =
      (if m' = m then (if c \<in> set (members m w) then members m w else members m w @ [c]) else members m' w)"
proof -
  define r where "r = (case gm_get (h_rooms w) m of Some r \<Rightarrow> r | None \<Rightarrow> w_nroom w)"
  define cs where "cs = (if c \<in> set (members m w) then members m w else members m w @ [c])"
  let ?w = "enter_room now c m w"
  have reg: "gm_get (h_rooms ?w) m' = (if m' = m then Some r else gm_get (h_rooms w) m')" for m'
    by (simp add: enter_room_registry r_def)
  have old: "gm_get (h_rooms w) m' = Some r' \<Longrightarrow> m' \<noteq> m \<Longrightarrow> r' \<noteq> r" for m' r'
    using hub_wfD(2) [OF wf] hub_wf_inj [OF wf]
    by (auto simp: r_def room_ok_def split: option.splits)
  have room: "w_room ?w r' = (if r' = r then w_room ?w r else w_room w r')" for r'
    by (auto simp: enter_room_def join_enter_def Room_add_def newRoom_def Let_def r_def split: option.split)
  have new: "rm_conns (w_room ?w r) = cs" "rm_id (w_room ?w r) = m" "r < w_nroom ?w"
    using hub_wfD(2) [OF wf, of m]
    by (auto simp: enter_room_def join_enter_def Room_add_def newRoom_def Let_def r_def cs_def members_def
        room_ok_def split: option.split)
  have nroom: "w_nroom w \<le> w_nroom ?w"
    by (auto simp: enter_room_def join_enter_def Room_add_def newRoom_def Let_def split: option.split)
  have mem: "distinct (members m w) \<and> (\<forall>c' \<in> set (members m w). c' < w_nconn w)"
    using hub_wfD(2) [OF wf, of m] by (auto simp: members_def room_ok_def split: option.split)
  have "gm_wf (h_rooms ?w)"
    using hub_wfD(1) [OF wf]
    by (auto simp: enter_room_def join_enter_def Room_add_def newRoom_def Let_def gm_wf_put split: option.split)
  moreover have "room_ok ?w m' r'" if g: "gm_get (h_rooms ?w) m' = Some r'" for m' r'
  proof (cases "m' = m")
    case True
    with g have "r' = r" by (simp add: reg)
    then show ?thesis
      using True m new mem c by (auto simp: room_ok_def cs_def)
  next
    case False
    with g have g': "gm_get (h_rooms w) m' = Some r'" by (simp add: reg)
    with hub_wfD(2) [OF wf g'] old [OF g' False] nroom show ?thesis
      by (auto simp: room_ok_def room [of r'])
  qed
  moreover have "c' < w_nconn w \<and> (cn_match (w_conn ?w c') \<noteq> [] \<longrightarrow>
      (\<exists>r'. gm_get (h_rooms ?w) (cn_match (w_conn ?w c')) = Some r' \<and> c' \<in> set (rm_conns (w_room ?w r'))))"
    if c': "c' \<in> h_conns w" for c'
  proof (intro conjI impI)
    show "c' < w_nconn w" by (rule hub_wfD(3) [OF wf c'])
    assume ne: "cn_match (w_conn ?w c') \<noteq> []"
    show "\<exists>r'. gm_get (h_rooms ?w) (cn_match (w_conn ?w c')) = Some r' \<and> c' \<in> set (rm_conns (w_room ?w r'))"
    proof (cases "c' = c")
      case True
      then show ?thesis by (simp add: reg new cs_def)
    next
      case False
      then have eq: "cn_match (w_conn ?w c') = cn_match (w_conn w c')" by simp
      with hub_wfD(4) [OF wf c'] ne obtain r' where
        r': "gm_get (h_rooms w) (cn_match (w_conn w c')) = Some r'" "c' \<in> set (rm_conns (w_room w r'))"
        by auto
      show ?thesis
      proof (cases "cn_match (w_conn w c') = m")
        case True
        with r' show ?thesis by (auto simp: eq reg new cs_def members_def)
      next
        case False
        from old [OF r'(1) this] have "w_room ?w r' = w_room w r'" by (simp add: room [of r'])
        with False r' show ?thesis by (simp only: eq reg if_False) simp
      qed
    qed
  qed
  ultimately show "hub_wf ?w" by (simp add: hub_wf_def)
  show "members m' ?w = (if m' = m then (if c \<in> set (members m w) then members m w else members m w @ [c])
      else members m' w)"
  proof (cases "m' = m")
    case True
    then show ?thesis by (simp add: members_def [of _ ?w] reg new cs_def)
  next
    case False
    show ?thesis
    proof (cases "gm_get (h_rooms w) m'")
      case None
      with False show ?thesis by (simp add: members_def reg)
    next
      case (Some r')
      from old [OF Some False] have "w_room ?w r' = w_room w r'" by (simp add: room [of r'])
      with Some False show ?thesis by (simp add: members_def reg)
    qed
  qed
qed

text \<open>The members after a departure: the connection leaves the room of the match it joined last, only.\<close>

lemma members_unregister:
  assumes wf: "hub_wf w"
  shows "members m (unregister c w) =
    (if m = cn_match (w_conn w c) then remove1 c (members m w) else members m w)"
proof (cases "cn_match (w_conn w c) = [] \<or> gm_get (h_rooms w) (cn_match (w_conn w c)) = None")
  case True
  then have "unregister c w = w\<lparr>h_conns := h_conns w - {c}\<rparr>"
    by (auto simp: unregister_def Let_def)
  moreover have "gm_get (h_rooms w) [] = None"
    using hub_wfD(2) [OF wf, of "[]"] by (cases "gm_get (h_rooms w) []") (auto simp: room_ok_def)
  ultimately show ?thesis using True by (auto simp: members_def split: option.split)
next
  case False
  then obtain r where r: "cn_match (w_conn w c) \<noteq> []" "gm_get (h_rooms w) (cn_match (w_conn w c)) = Some r"
    by blast
  then have "gm_get (h_rooms w) m = Some r \<longleftrightarrow> m = cn_match (w_conn w c)"
    using hub_wf_inj [OF wf] by blast
  with r show ?thesis
    by (auto simp: members_def unregister_def Let_def Room_remove_def Room_empty_def split: option.split)
qed

end
