(* ===== verification/Ws_Keeps.thy ===== *)
theory Ws_Keeps
  imports Ws_Rooms
begin

text \<open>
  What a frame can do. The rule \<open>frame_keeps\<close> reduces a property of worlds to the elementary
  effects that handling a frame is made of: a write to a socket, a call of the store, entering a
  room as a player of its match. The first two are enough for every frame but JOIN_ROOM
  (\<open>other_frame_keeps\<close>). All invariants of the server go through these rules.
\<close>

section \<open>Roles\<close>

lemma role_from_ne: "role_from i uid ps \<noteq> [] \<longleftrightarrow> uid \<in> set ps"
  by (induction i uid ps rule: role_from.induct) auto

lemma roleOf_ne [simp]: "roleOf uid ps = [] \<longleftrightarrow> uid \<notin> set ps"
  using role_from_ne [of 0 uid ps] by (auto simp: roleOf_def)

lemma role_from_Suc: "role_from (Suc i) uid ps = (if uid \<in> set ps then ''p2'' else [])"
  by (induction ps arbitrary: i) auto

lemma roleOf_eq:
  "roleOf uid ps = (if uid \<notin> set ps then [] else if hd ps = uid then ''p1'' else ''p2'')"
  by (cases ps) (auto simp: roleOf_def role_from_Suc)

lemma opponentOf_eq: "opponentOf uid ps = (case filter (\<lambda>p. p \<noteq> uid) ps of [] \<Rightarrow> [] | p # _ \<Rightarrow> p)"
  by (induction ps) auto

section \<open>Outcomes of the checks of a join\<close>

text \<open>A store call that was just made in world \<open>w\<close>: it ran on \<open>db\<close> and answered \<open>r\<close>.\<close>

lemma join_check_Inr:
  assumes "join_check cdc c env w = (Inr (m, role, opponent), w')"
  shows "\<exists>ops mt. h_store w = Some ops \<and> cn_uid (w_conn w c) \<noteq> [] \<and> m \<noteq> []
    \<and> unmarshal (pb_join_room cdc) (e_payload env) = Inr \<lparr>jr_match_id = m\<rparr>
    \<and> st_GetMatch ops m (w_db w) = (Inr mt, w_db w') \<and> w' = w\<lparr>w_db := w_db w'\<rparr>
    \<and> cn_uid (w_conn w c) \<in> set (m_players mt)
    \<and> role = roleOf (cn_uid (w_conn w c)) (m_players mt)
    \<and> opponent = opponentOf (cn_uid (w_conn w c)) (m_players mt)"
  using assms
  by (auto simp: join_check_def Let_def split: option.splits sum.splits if_splits prod.splits)

lemma join_check_Inl:
  assumes "join_check cdc c env w = (Inl res, w')"
  shows "w' = w \<or> (\<exists>ops m. h_store w = Some ops \<and> w' = w\<lparr>w_db := snd (st_GetMatch ops m (w_db w))\<rparr>)"
  using assms
  by (auto simp: join_check_def Let_def split: option.splits sum.splits if_splits prod.splits)
    (metis snd_conv)+

section \<open>The match record that is written back\<close>

definition ended_match :: "match_end \<Rightarrow> gotime \<Rightarrow> game_match \<Rightarrow> game_match" where
  "ended_match req now m =
     m\<lparr>m_state := ''ended'', m_winner := me_winner req,
       m_turns := maxScoreToTurns (me_score1 req) (me_score2 req), m_ended := now\<rparr>"

lemma ended_match_simps [simp]:
  "m_id (ended_match req now m) = m_id m"
  "m_players (ended_match req now m) = m_players m"
  "m_date (ended_match req now m) = m_date m"
  by (simp_all add: ended_match_def)

section \<open>The rules\<close>

locale store_effects =
  fixes P :: "'s world \<Rightarrow> bool" and c :: nat
  assumes keeps_sent: "P w \<Longrightarrow> P (w\<lparr>w_sent := tr\<rparr>)"
    and keeps_get: "P w \<Longrightarrow> h_store w = Some ops \<Longrightarrow> P (w\<lparr>w_db := snd (st_GetMatch ops m (w_db w))\<rparr>)"
    and keeps_put: "P w \<Longrightarrow> h_store w = Some ops \<Longrightarrow>
          st_GetMatch ops (cn_match (w_conn w c)) (w_db w) = (Inr mt, db) \<Longrightarrow>
          P (w\<lparr>w_db := snd (st_UpsertMatch ops (ended_match req now mt) db)\<rparr>)"
    and keeps_score: "P w \<Longrightarrow> h_store w = Some ops \<Longrightarrow> 0 < sint sc \<Longrightarrow>
          P (w\<lparr>w_db := snd (st_SubmitScore ops b u sc (w_db w))\<rparr>)"
begin

lemma keeps_broadcast: "P w \<Longrightarrow> P (broadcastRoom cdc m env c' w)"
  by (simp add: broadcastRoom_eq keeps_sent)

lemma keeps_send: "P w \<Longrightarrow> P (send c' bs w)"
  by (simp add: send_def keeps_sent)

lemma keeps_submit_both:
  assumes "P (w\<lparr>w_db := db\<rparr>)" and "h_store w = Some ops" and "0 < sint sc"
  shows "P (w\<lparr>w_db := submit_both ops d u sc db\<rparr>)"
proof -
  let ?db = "snd (st_SubmitScore ops (''lb:daily:'' @ d) u sc db)"
  have "P (w\<lparr>w_db := ?db\<rparr>)"
    using keeps_score [OF assms(1) _ assms(3), of ops "''lb:daily:'' @ d" u] assms(2) by simp
  then show ?thesis
    using keeps_score [of "w\<lparr>w_db := ?db\<rparr>" ops sc "''lb:global:alltime''" u] assms(2,3)
    by (simp add: submit_both_def Let_def)
qed

lemma turn_keeps: "P w \<Longrightarrow> P (snd (handleTurn cdc c env w))"
  by (auto simp: handleTurn_def keeps_broadcast split: sum.split)

lemma end_keeps:
  assumes "P w"
  shows "P (snd (handleMatchEnd cdc now c env w))"
proof (cases "\<exists>ops req. h_store w = Some ops \<and> cn_match (w_conn w c) \<noteq> []
    \<and> unmarshal (pb_match_end cdc) (e_payload env) = Inr req \<and> me_match_id req = cn_match (w_conn w c)")
  case False
  with assms show ?thesis by (auto simp: handleMatchEnd_def split: option.split sum.split)
next
  case True
  then obtain ops req where t: "h_store w = Some ops" "cn_match (w_conn w c) \<noteq> []"
    "unmarshal (pb_match_end cdc) (e_payload env) = Inr req" "me_match_id req = cn_match (w_conn w c)" by blast
  obtain r db where get: "st_GetMatch ops (cn_match (w_conn w c)) (w_db w) = (r, db)" by fastforce
  have Pget: "P (w\<lparr>w_db := db\<rparr>)"
    using keeps_get [OF assms t(1), of "cn_match (w_conn w c)"] get by simp
  show ?thesis
  proof (cases "\<exists>m. r = Inr m \<and> (me_winner req = [] \<or> me_winner req \<in> set (m_players m))")
    case False
    with t Pget get show ?thesis by (cases r) (auto simp: handleMatchEnd_def)
  next
    case True
    then obtain m where m: "r = Inr m" "me_winner req = [] \<or> me_winner req \<in> set (m_players m)" by blast
    obtain r2 db2 where put: "st_UpsertMatch ops (ended_match req now m) db = (r2, db2)" by fastforce
    have Pput: "P (w\<lparr>w_db := db2\<rparr>)"
      using keeps_put [OF assms t(1), of m db req now] get m put by simp
    show ?thesis
    proof (cases r2)
      case (Inl e)
      with t m get put Pput show ?thesis
        by (auto simp: handleMatchEnd_def ended_match_def [symmetric])
    next
      case (Inr u)
      define db3 where "db3 = (if length (m_players m) \<ge> 1 \<and> 0 < sint (me_score1 req)
          then submit_both ops (m_date m) (m_players m ! 0) (me_score1 req) db2 else db2)"
      define db4 where "db4 = (if length (m_players m) \<ge> 2 \<and> 0 < sint (me_score2 req)
          then submit_both ops (m_date m) (m_players m ! 1) (me_score2 req) db3 else db3)"
      have "P (w\<lparr>w_db := db3\<rparr>)"
        using Pput t(1) by (simp add: db3_def keeps_submit_both)
      then have P4: "P (w\<lparr>w_db := db4\<rparr>)"
        using t(1) by (simp add: db4_def keeps_submit_both)
      have "snd (handleMatchEnd cdc now c env w) =
          broadcastRoom cdc (cn_match (w_conn w c)) env c (w\<lparr>w_db := db4\<rparr>)"
        using t m get put Inr
        by (auto simp: handleMatchEnd_def ended_match_def [symmetric] Let_def db4_def db3_def)
      with P4 show ?thesis by (simp add: keeps_broadcast)
    qed
  qed
qed

text \<open>An answer that is sent back keeps what the dispatch keeps.\<close>

lemma answer_keeps:
  assumes "P w" and "\<And>env. unmarshal (pb_envelope cdc) data = Inr env \<Longrightarrow>
      P (snd (dispatch cdc (in_handler_at i) c env (unix_milli (in_dispatch_at i)) w))"
  shows "P (snd (handle_frame cdc i c data w))"
proof (cases "unmarshal (pb_envelope cdc) data")
  case (Inl e)
  with assms(1) show ?thesis by (simp add: handle_frame_def)
next
  case (Inr env)
  obtain r w1 where d: "dispatch cdc (in_handler_at i) c env (unix_milli (in_dispatch_at i)) w = (r, w1)"
    by fastforce
  with assms(2) [OF Inr] have "P w1" by (metis snd_conv)
  with Inr d show ?thesis
    by (auto simp: handle_frame_def keeps_send split: sum.split option.split prod.split)
qed

lemma other_dispatch_keeps:
  "P w \<Longrightarrow> e_type env \<noteq> MT_JOIN_ROOM \<Longrightarrow> P (snd (dispatch cdc now c env ms w))"
  using turn_keeps [of w] end_keeps [of w]
  by (auto simp: dispatch_def split: message_type.split prod.split option.split; metis snd_conv)

lemma other_frame_keeps:
  assumes "P w" and "\<And>env. unmarshal (pb_envelope cdc) data = Inr env \<Longrightarrow> e_type env \<noteq> MT_JOIN_ROOM"
  shows "P (snd (handle_frame cdc i c data w))"
  using assms by (intro answer_keeps other_dispatch_keeps)

text \<open>A join up to its checks.\<close>

lemma join_check_keeps:
  assumes "P w" and "join_check cdc c env w = (r, w')"
  shows "P w'"
proof (cases r)
  case (Inl res)
  with join_check_Inl [of cdc c env w res w'] assms show ?thesis by (auto intro: keeps_get)
next
  case (Inr x)
  obtain m role opponent where "x = (m, role, opponent)" by (cases x)
  with join_check_Inr [of cdc c env w m role opponent w'] assms Inr keeps_get show ?thesis
    by (metis snd_conv)
qed

end

locale world_inv = store_effects +
  assumes keeps_enter: "P w \<Longrightarrow> h_store w = Some ops \<Longrightarrow> cn_uid (w_conn w c) \<noteq> [] \<Longrightarrow> m \<noteq> [] \<Longrightarrow>
          st_GetMatch ops m (w_db w) = (Inr mt, db) \<Longrightarrow> cn_uid (w_conn w c) \<in> set (m_players mt) \<Longrightarrow>
          P (enter_room now c m (w\<lparr>w_db := db\<rparr>))"
begin

lemma join_keeps:
  assumes "P w"
  shows "P (snd (handleJoinRoom cdc now c env w))"
proof (cases "join_check cdc c env w")
  case (Pair r w1)
  show ?thesis
  proof (cases r)
    case (Inl res)
    with join_check_Inl [of cdc c env w res w1] Pair assms show ?thesis
      by (auto simp: handleJoinRoom_eq intro: keeps_get)
  next
    case (Inr x)
    obtain m role opponent where x: "x = (m, role, opponent)" by (cases x)
    from join_check_Inr [of cdc c env w m role opponent w1] Pair Inr x obtain ops mt where
      j: "h_store w = Some ops" "cn_uid (w_conn w c) \<noteq> []" "m \<noteq> []"
        "st_GetMatch ops m (w_db w) = (Inr mt, w_db w1)" "cn_uid (w_conn w c) \<in> set (m_players mt)"
      and w1: "w1 = w\<lparr>w_db := w_db w1\<rparr>"
      by blast
    have "P (enter_room now c m w1)"
      by (subst w1) (rule keeps_enter [OF assms j])
    then show ?thesis by (simp add: handleJoinRoom_eq Pair Inr x)
  qed
qed

lemma dispatch_keeps: "P w \<Longrightarrow> P (snd (dispatch cdc now c env ms w))"
  using join_keeps [of w] other_dispatch_keeps [of w env]
  by (cases "e_type env = MT_JOIN_ROOM") (auto simp: dispatch_def)

lemma frame_keeps: "P w \<Longrightarrow> P (snd (handle_frame cdc i c data w))"
  by (intro answer_keeps dispatch_keeps)

end

end
