(* ===== verification/Api_Laws.thy ===== *)
theory Api_Laws
  imports Api Mem_Store
begin

text \<open>
  What the handlers do to any store that keeps the contract of the interface. The lemmas are
  proved inside the locales of the contract, so they hold for every backend. The in-memory store
  is imported only so that its interpretations of the locales pick the new lemmas up.

  \<^item> \<open>submit_effect\<close> is the intended effect of a submitted attempt on the view;
  \<^item> \<open>view_sound\<close> is the integrity of the game data: every attempt carries the score that
    the server computes from the puzzle, every board entry is a winning score;
  \<^item> \<open>boards_cover\<close> says that the boards show at least the score of every stored win.
\<close>

section \<open>Abstract effects\<close>

definition submit_effect :: "attempt \<Rightarrow> store_view \<Rightarrow> store_view" where
  "submit_effect a v =
     (let v = view_put_attempt a v
      in if 0 < sint (a_score a)
         then view_submit alltime_board (a_uid a) (a_score a)
                (view_submit (daily_board (a_date a)) (a_uid a) (a_score a) v)
         else v)"

definition submitted_attempt ::
  "(string \<Rightarrow> string) \<Rightarrow> string \<Rightarrow> submit_request \<Rightarrow> gotime \<Rightarrow> puzzle \<Rightarrow> attempt"
where
  "submitted_attempt uni uid req t p =
     finalize uni (new_attempt uid (sr_date req) (sr_guesses req) t) (p_word p)"

definition acceptable :: "submit_request \<Rightarrow> gotime \<Rightarrow> bool" where
  "acceptable req now \<longleftrightarrow> validDate (sr_date req) \<and> dateInWindow (sr_date req) now \<and> sr_guesses req \<noteq> []"

text \<open>A handler that only reads: the view of a good store is kept.\<close>

definition reads_only :: "('s \<Rightarrow> store_view) \<Rightarrow> ('s \<Rightarrow> bool) \<Rightarrow> ('s \<Rightarrow> response \<times> 's) \<Rightarrow> bool" where
  "reads_only view ok h \<longleftrightarrow> (\<forall>s. ok s \<longrightarrow> ok (snd (h s)) \<and> view (snd (h s)) = view s)"

lemma reads_onlyI:
  "(\<And>s. ok s \<Longrightarrow> ok (snd (h s)) \<and> view (snd (h s)) = view s) \<Longrightarrow> reads_only view ok h"
  by (simp add: reads_only_def)

lemma reads_onlyD:
  "reads_only view ok h \<Longrightarrow> ok s \<Longrightarrow> ok (snd (h s)) \<and> view (snd (h s)) = view s"
  by (simp add: reads_only_def)

lemma submitted_attempt_simps [simp]:
  "a_uid (submitted_attempt uni uid req t p) = uid"
  "a_date (submitted_attempt uni uid req t p) = sr_date req"
  "a_guesses (submitted_attempt uni uid req t p) = sr_guesses req"
  "a_score (submitted_attempt uni uid req t p) = fst (Score uni (p_word p) (sr_guesses req))"
  "a_won (submitted_attempt uni uid req t p) = snd (Score uni (p_word p) (sr_guesses req))"
  by (simp_all add: submitted_attempt_def new_attempt_def)

lemma attempt_score_range:
  "0 < sint (a_score (submitted_attempt uni uid req t p)) \<Longrightarrow>
     25 \<le> sint (a_score (submitted_attempt uni uid req t p))
   \<and> sint (a_score (submitted_attempt uni uid req t p)) \<le> 100"
proof -
  have "case Score uni (p_word p) (sr_guesses req) of (score, won) \<Rightarrow>
      (if won then 25 \<le> sint score \<and> sint score \<le> 100 else score = 0)"
    by (auto simp: Score_eq Let_def sint_points)
  then show "0 < sint (a_score (submitted_attempt uni uid req t p)) \<Longrightarrow> ?thesis"
    by (auto split: prod.splits if_splits)
qed

lemma daily_board_inj [simp]: "daily_board d = daily_board d' \<longleftrightarrow> d = d'"
  by (simp add: daily_board_def)

lemma daily_not_alltime [simp]: "daily_board d \<noteq> alltime_board" "alltime_board \<noteq> daily_board d"
  by (simp_all add: daily_board_def alltime_board_def)

section \<open>Integrity of the game data\<close>

definition attempt_sound :: "(string \<Rightarrow> string) \<Rightarrow> store_view \<Rightarrow> string \<Rightarrow> string \<Rightarrow> attempt \<Rightarrow> bool" where
  "attempt_sound uni v u d a \<longleftrightarrow>
     a_uid a = u \<and> a_date a = d \<and> validDate d \<and> a_guesses a \<noteq> [] \<and>
     (\<exists>p. v_puzzles v d = Some p \<and> (a_score a, a_won a) = Score uni (p_word p) (a_guesses a))"

definition entry_sound :: "string \<Rightarrow> int64 \<Rightarrow> bool" where
  "entry_sound b sc \<longleftrightarrow>
     25 \<le> sint sc \<and> sint sc \<le> 100 \<and> (b = alltime_board \<or> (\<exists>d. validDate d \<and> b = daily_board d))"

definition view_sound :: "(string \<Rightarrow> string) \<Rightarrow> store_view \<Rightarrow> bool" where
  "view_sound uni v \<longleftrightarrow>
     (\<forall>u d a. v_attempts v u d = Some a \<longrightarrow> attempt_sound uni v u d a) \<and>
     (\<forall>b u sc. v_boards v b u = Some sc \<longrightarrow> entry_sound b sc)"

definition boards_cover :: "store_view \<Rightarrow> bool" where
  "boards_cover v \<longleftrightarrow>
     (\<forall>u d a. v_attempts v u d = Some a \<and> 0 < sint (a_score a) \<longrightarrow>
        (\<exists>sc. v_boards v (daily_board d) u = Some sc \<and> sint (a_score a) \<le> sint sc)) \<and>
     (\<forall>u d sc. v_boards v (daily_board d) u = Some sc \<longrightarrow>
        (\<exists>best. v_boards v alltime_board u = Some best \<and> sint sc \<le> sint best))"

lemma best_score_sound:
  "entry_sound b sc \<Longrightarrow> (\<And>cur. old = Some cur \<Longrightarrow> entry_sound b cur) \<Longrightarrow> entry_sound b (best_score sc old)"
  by (auto simp: best_score_def split: option.split)

lemma view_sound_auth: "view_sound uni (view_auth now c v) = view_sound uni v"
  by (simp add: view_sound_def attempt_sound_def)

lemma view_sound_put_attempt:
  assumes "view_sound uni v" and "attempt_sound uni v (a_uid a) (a_date a) a"
  shows "view_sound uni (view_put_attempt a v)"
  using assms by (auto simp: view_sound_def attempt_sound_def)

lemma view_sound_submit:
  assumes "view_sound uni v" and "entry_sound b sc"
  shows "view_sound uni (view_submit b u sc v)"
  using assms by (auto simp: view_sound_def attempt_sound_def intro!: best_score_sound)

lemma boards_cover_auth: "boards_cover (view_auth now c v) = boards_cover v"
  by (simp add: boards_cover_def)

lemma boards_cover_effect:
  assumes cover: "boards_cover v"
  shows "boards_cover (submit_effect a v)"
proof (cases "0 < sint (a_score a)")
  case False
  with cover show ?thesis by (auto simp: submit_effect_def boards_cover_def)
next
  case True
  let ?sc = "a_score a" and ?u = "a_uid a" and ?v = "submit_effect a v"
  let ?D = "v_boards v (daily_board (a_date a)) ?u" and ?A = "v_boards v alltime_board ?u"
  have boards: "v_boards ?v b u =
      (if u = ?u \<and> b = alltime_board then Some (best_score ?sc ?A)
       else if u = ?u \<and> b = daily_board (a_date a) then Some (best_score ?sc ?D)
       else v_boards v b u)" for b u
    using True by (auto simp: submit_effect_def Let_def)
  have attempts: "v_attempts ?v u d = (if u = ?u \<and> d = a_date a then Some a else v_attempts v u d)" for u d
    using True by (auto simp: submit_effect_def Let_def)
  have sc: "sint ?sc \<le> sint (best_score ?sc old)" for old
    by (rule best_score_ge)
  have new: "\<exists>sc. v_boards ?v (daily_board (a_date a)) ?u = Some sc \<and> sint ?sc \<le> sint sc"
    by (simp add: boards sc)
  have DA: "sint (best_score ?sc ?D) \<le> sint (best_score ?sc ?A)"
  proof (cases ?D)
    case None
    then show ?thesis by (simp add: best_score_def [of _ None] sc)
  next
    case (Some d)
    with cover obtain best where "?A = Some best" "sint d \<le> sint best"
      unfolding boards_cover_def by blast
    with Some show ?thesis by (auto simp: best_score_def)
  qed
  have kept: "\<exists>sc. v_boards ?v (daily_board d) u = Some sc \<and> sint x \<le> sint sc"
    if "v_boards v (daily_board d) u = Some y" "sint x \<le> sint y" for d u x y
    using that best_score_old [OF that(1), of ?sc] by (auto simp: boards)
  show ?thesis
    unfolding boards_cover_def
  proof (intro conjI allI impI)
    fix u d a' assume "v_attempts ?v u d = Some a' \<and> 0 < sint (a_score a')"
    then have "u = ?u \<and> d = a_date a \<and> a' = a
        \<or> v_attempts v u d = Some a' \<and> 0 < sint (a_score a')"
      by (auto simp: attempts split: if_splits)
    then show "\<exists>sc. v_boards ?v (daily_board d) u = Some sc \<and> sint (a_score a') \<le> sint sc"
    proof
      assume "u = ?u \<and> d = a_date a \<and> a' = a"
      with new show ?thesis by simp
    next
      assume "v_attempts v u d = Some a' \<and> 0 < sint (a_score a')"
      with cover obtain y where "v_boards v (daily_board d) u = Some y" "sint (a_score a') \<le> sint y"
        unfolding boards_cover_def by blast
      then show ?thesis by (rule kept)
    qed
  next
    fix u d sc assume "v_boards ?v (daily_board d) u = Some sc"
    then have "u = ?u \<and> d = a_date a \<and> sc = best_score ?sc ?D
        \<or> v_boards v (daily_board d) u = Some sc"
      by (auto simp: boards split: if_splits)
    then show "\<exists>best. v_boards ?v alltime_board u = Some best \<and> sint sc \<le> sint best"
    proof
      assume "u = ?u \<and> d = a_date a \<and> sc = best_score ?sc ?D"
      with DA show ?thesis by (simp add: boards)
    next
      assume "v_boards v (daily_board d) u = Some sc"
      with cover obtain best where best: "v_boards v alltime_board u = Some best" "sint sc \<le> sint best"
        unfolding boards_cover_def by blast
      then show ?thesis
        using best_score_old [OF best(1), of ?sc] by (cases "u = ?u") (auto simp: boards)
    qed
  qed
qed

section \<open>The handlers against the contract\<close>

context store_laws
begin

text \<open>The outcome of an operation in the form in which the handlers bind it.\<close>

lemma ret_puzzle: "st_GetPuzzle ops d s = (r, s') \<Longrightarrow> ok s \<Longrightarrow> ok s' \<and> view s' = view s"
  using lookup_opD(1,2) [OF puzzle_law, of s d] by auto

lemma ret_attempt:
  "st_GetAttempt ops u d s = (r, s') \<Longrightarrow> length d = 10 \<Longrightarrow> ok s \<Longrightarrow> ok s' \<and> view s' = view s"
  using lookup_opD(1,2) [OF attempt_law, of d s u] by auto

lemma ret_top: "st_TopN ops b n s = (r, s') \<Longrightarrow> ok s \<Longrightarrow> ok s' \<and> view s' = view s"
  using read_opD [OF top_read, of s b n] by auto

lemma ret_put_attempt:
  "st_UpsertAttempt ops a s = (r, s') \<Longrightarrow> length (a_date a) = 10 \<Longrightarrow> ok s
     \<Longrightarrow> ok s' \<and> (view s' = view s \<or> view s' = view_put_attempt (timed_attempt tm a) (view s))"
  using write_opD(1,2) [OF put_attempt_law, of a s] by auto

lemmas rets = ret_puzzle ret_attempt ret_top

lemma puzzles_byDate_read: "reads_only view ok (puzzles_byDate ops d ctx)"
  by (rule reads_onlyI) (auto simp: puzzles_byDate_def dest: rets split: prod.split sum.split)

lemma puzzles_meByDate_read: "reads_only view ok (puzzles_meByDate ops d ctx)"
  by (rule reads_onlyI) (auto simp: puzzles_meByDate_def dest: rets split: prod.split sum.split)

lemma board_page_read: "reads_only view ok (board_page ops scope date key q)"
  by (rule reads_onlyI) (auto simp: board_page_def dest: rets split: prod.split sum.split)

lemma attempts_mine_read: "reads_only view ok (attempts_mine ops date ctx)"
  by (rule reads_onlyI)
    (auto simp: attempts_mine_def dest: rets validDate_length split: prod.split sum.split option.split)

lemma read_handlers:
  "reads_only view ok (puzzles_today ops now ctx)"
  "reads_only view ok (puzzles_get ops d ctx)"
  "reads_only view ok (puzzles_meToday ops now ctx)"
  "reads_only view ok (puzzles_meGet ops d ctx)"
  "reads_only view ok (leaderboards_get ops now scope date q ctx)"
  "reads_only view ok (attempts_mine ops date ctx)"
  using puzzles_byDate_read puzzles_meByDate_read board_page_read attempts_mine_read
  by (auto simp: puzzles_today_def puzzles_get_def puzzles_meToday_def puzzles_meGet_def
      leaderboards_get_def Let_def reads_only_def)

text \<open>Writes of a handler that acts for one user leave the data of all others alone.\<close>

lemma ret_submit_score:
  "ok s \<Longrightarrow> ok (snd (st_SubmitScore ops b u sc s)) \<and>
     (view (snd (st_SubmitScore ops b u sc s)) = view s
      \<or> view (snd (st_SubmitScore ops b u sc s)) = view_submit b u sc (view s))"
  using write_opD(1,2) [OF submit_law] by blast

lemma submit_score_keeps:
  assumes "ok s" and "P (view s)" and "\<And>v. P v \<Longrightarrow> P (view_submit b u sc v)"
  shows "ok (snd (st_SubmitScore ops b u sc s)) \<and> P (view (snd (st_SubmitScore ops b u sc s)))"
  using ret_submit_score [OF assms(1), of b u sc] assms(2,3) by auto

text \<open>
  The rule for properties of the stored data: it is enough that the two kinds of writes of
  \<open>submit\<close> keep the property, for an attempt that was scored against the stored puzzle.
\<close>

lemma submit_keeps:
  assumes ok: "ok s" and P: "P (view s)"
    and att: "\<And>req p v. decode_submit body = Some req \<Longrightarrow> acceptable req now1 \<Longrightarrow> P v
                \<Longrightarrow> v_puzzles v (sr_date req) = Some p
                \<Longrightarrow> P (view_put_attempt (timed_attempt tm (submitted_attempt uni (c_uid claims) req now2 p)) v)"
    and sub: "\<And>req p v b sc. decode_submit body = Some req \<Longrightarrow> acceptable req now1 \<Longrightarrow> P v
                \<Longrightarrow> sc = a_score (submitted_attempt uni (c_uid claims) req now2 p) \<Longrightarrow> 0 < sint sc
                \<Longrightarrow> b = alltime_board \<or> b = daily_board (sr_date req)
                \<Longrightarrow> P (view_submit b (c_uid claims) sc v)"
  shows "ok (snd (attempts_submit ops uni now1 now2 body (Some claims) s))
       \<and> P (view (snd (attempts_submit ops uni now1 now2 body (Some claims) s)))"
proof (cases "\<exists>req. decode_submit body = Some req \<and> acceptable req now1")
  case False
  with ok P show ?thesis
    by (auto simp: attempts_submit_def acceptable_def split: option.split)
next
  case True
  then obtain req where req: "decode_submit body = Some req" "acceptable req now1" by blast
  then have len: "length (sr_date req) = 10" by (simp add: acceptable_def validDate_length)
  note open_req = attempts_submit_def req(1) acceptable_def [of req now1]
  obtain r s1 where get: "st_GetPuzzle ops (sr_date req) s = (r, s1)" by fastforce
  from ret_puzzle [OF get ok] have s1: "ok s1" "view s1 = view s" by simp_all
  show ?thesis
  proof (cases r)
    case (Inl e)
    with req s1 P show ?thesis by (simp add: open_req get)
  next
    case (Inr p)
    have p: "v_puzzles (view s) (sr_date req) = Some p"
      using lookup_opD(3) [OF puzzle_law ok, of "sr_date req" p] get Inr by simp
    let ?a = "submitted_attempt uni (c_uid claims) req now2 p"
    obtain r2 s2 where put: "st_UpsertAttempt ops ?a s1 = (r2, s2)" by fastforce
    have s2: "ok s2" "P (view s2)"
      using ret_put_attempt [OF put _ s1(1)] len s1(2) P att [OF req P p] by auto
    let ?s3 = "snd (st_SubmitScore ops (daily_board (sr_date req)) (c_uid claims) (a_score ?a) s2)"
    let ?s4 = "snd (st_SubmitScore ops alltime_board (c_uid claims) (a_score ?a) ?s3)"
    have s3: "ok ?s3 \<and> P (view ?s3)" if "0 < sint (a_score ?a)"
      by (rule submit_score_keeps [where P = P, OF s2]) (rule sub [OF req _ refl that], simp_all)
    have s4: "ok ?s4 \<and> P (view ?s4)" if "0 < sint (a_score ?a)"
      by (rule submit_score_keeps [where P = P]) (use s3 that sub [OF req _ refl that] in auto)
    show ?thesis
      using req s2 s4 put
      by (cases r2) (auto simp: open_req get Inr submitted_attempt_def [symmetric] Let_def
          simp del: submitted_attempt_simps)
  qed
qed

lemma submit_sound:
  assumes "ok s" and "view_sound uni (view s)"
  shows "ok (snd (attempts_submit ops uni now1 now2 body (Some claims) s))
       \<and> view_sound uni (view (snd (attempts_submit ops uni now1 now2 body (Some claims) s)))"
proof (rule submit_keeps [where P = "view_sound uni"])
  fix req p v assume "acceptable req now1" "view_sound uni v" "v_puzzles v (sr_date req) = Some p"
  then show "view_sound uni (view_put_attempt (timed_attempt tm (submitted_attempt uni (c_uid claims) req now2 p)) v)"
    by (intro view_sound_put_attempt) (auto simp: attempt_sound_def acceptable_def)
next
  fix req p v b sc
  assume "acceptable req now1" "view_sound uni v" "0 < sint sc"
    and "sc = a_score (submitted_attempt uni (c_uid claims) req now2 p)"
    and "b = alltime_board \<or> b = daily_board (sr_date req)"
  then show "view_sound uni (view_submit b (c_uid claims) sc v)"
    using attempt_score_range [of uni "c_uid claims" req now2 p]
    by (intro view_sound_submit) (auto simp: entry_sound_def acceptable_def simp del: submitted_attempt_simps)
qed (rule assms)+

end

section \<open>Requests\<close>

text \<open>The claims with which a request to a protected route runs, if it gets past the middleware.\<close>

definition accepted :: "verifier option \<Rightarrow> string \<Rightarrow> auth_claims option" where
  "accepted v hdr =
     (case v of
        None \<Rightarrow> None
      | Some v \<Rightarrow>
          (case bearerFromHeader hdr of
             Inl _ \<Rightarrow> None
           | Inr tok \<Rightarrow> (case v tok of (c, None) \<Rightarrow> Some c | _ \<Rightarrow> None)))"

lemma protect_cases:
  obtains "v = None" "protect v up now hdr h s = h None s" "accepted v hdr = None"
  | reason where "v \<noteq> None" "accepted v hdr = None" "protect v up now hdr h s = (unauthorized reason, s)"
  | c where "accepted v hdr = Some c" "protect v up now hdr h s = h (Some c) (run_upserter up now c s)"
proof (cases v)
  case None
  then show ?thesis by (intro that(1)) (simp_all add: protect_def accepted_def)
next
  case (Some f)
  show ?thesis
  proof (cases "bearerFromHeader hdr")
    case (Inl e)
    with Some show ?thesis by (intro that(2)) (simp_all add: protect_def accepted_def Middleware_def)
  next
    case (Inr tok)
    obtain c e where f: "f tok = (c, e)" by fastforce
    show ?thesis
    proof (cases e)
      case None
      with Some Inr f show ?thesis
        by (intro that(3) [of c]) (simp_all add: protect_def accepted_def Middleware_def)
    next
      case (Some e')
      with \<open>v = Some f\<close> Inr f show ?thesis
        by (intro that(2)) (simp_all add: protect_def accepted_def Middleware_def)
    qed
  qed
qed

definition own_upserter :: "'s store_ops \<Rightarrow> 's upserter option \<Rightarrow> bool" where
  "own_upserter ops up \<longleftrightarrow> up = None \<or> up = Some (st_UpsertUserOnFirstAuth ops)"

fun is_protected :: "route \<Rightarrow> bool" where
  "is_protected (RSubmit _) = True"
| "is_protected (RMine _) = True"
| "is_protected RMePuzzleToday = True"
| "is_protected (RMePuzzle _) = True"
| "is_protected _ = False"

definition api_handler :: "'s store_ops \<Rightarrow> (string \<Rightarrow> string) \<Rightarrow> clock \<Rightarrow> route \<Rightarrow> 's handler" where
  "api_handler ops uni ck r =
     (case r of
        RPuzzleToday \<Rightarrow> puzzles_today ops (ck_1 ck)
      | RPuzzle date \<Rightarrow> puzzles_get ops date
      | RBoard scope n \<Rightarrow> leaderboards_get ops (ck_1 ck) scope [] n
      | RBoardDate scope date n \<Rightarrow> leaderboards_get ops (ck_1 ck) scope date n
      | RSubmit body \<Rightarrow> attempts_submit ops uni (ck_1 ck) (ck_2 ck) body
      | RMine date \<Rightarrow> attempts_mine ops date
      | RMePuzzleToday \<Rightarrow> puzzles_meToday ops (ck_1 ck)
      | RMePuzzle date \<Rightarrow> puzzles_meGet ops date)"

lemma api_serve_eq:
  "api_serve ops uni v up ck hdr r s =
     (if is_protected r then protect v up (ck_auth ck) hdr (api_handler ops uni ck r) s
      else api_handler ops uni ck r None s)"
  by (cases r) (simp_all add: api_handler_def)

lemma submit_no_claims [simp]:
  "attempts_submit ops uni now1 now2 body None s = (writeError 401 ''no claims'', s)"
  by (simp add: attempts_submit_def)

context store_laws
begin

lemma upserter_keeps:
  assumes "own_upserter ops up" and "ok s" and "P (view s)" and "\<And>v. P v \<Longrightarrow> P (view_auth (tm now) c v)"
  shows "ok (run_upserter up now c s) \<and> P (view (run_upserter up now c s))"
  using assms write_opD(1,2) [OF auth_law, of s now c]
  by (auto simp: own_upserter_def run_upserter_def)

lemma read_route:
  "\<forall>body. r \<noteq> RSubmit body \<Longrightarrow> reads_only view ok (api_handler ops uni ck r ctx)"
  by (cases r) (simp_all add: api_handler_def read_handlers)

text \<open>The rule of \<open>submit\<close>, lifted to requests.\<close>

lemma serve_keeps:
  assumes up: "own_upserter ops up" and ok: "ok s" and P: "P (view s)"
    and auth: "\<And>c v'. accepted v hdr = Some c \<Longrightarrow> P v' \<Longrightarrow> P (view_auth (tm (ck_auth ck)) c v')"
    and subm: "\<And>c body s. accepted v hdr = Some c \<Longrightarrow> r = RSubmit body \<Longrightarrow> ok s \<Longrightarrow> P (view s) \<Longrightarrow>
        ok (snd (attempts_submit ops uni (ck_1 ck) (ck_2 ck) body (Some c) s))
        \<and> P (view (snd (attempts_submit ops uni (ck_1 ck) (ck_2 ck) body (Some c) s)))"
  shows "ok (snd (api_serve ops uni v up ck hdr r s)) \<and> P (view (snd (api_serve ops uni v up ck hdr r s)))"
proof -
  let ?h = "api_handler ops uni ck r"
  have handler: "ok (snd (?h ctx s')) \<and> P (view (snd (?h ctx s')))"
    if "ok s'" "P (view s')" "ctx = None \<or> ctx = accepted v hdr" for ctx s'
  proof (cases "\<exists>body. r = RSubmit body")
    case False
    then show ?thesis using reads_onlyD [OF read_route, of r s' uni ck ctx] that by auto
  next
    case True
    then obtain body where r: "r = RSubmit body" by blast
    show ?thesis
    proof (cases ctx)
      case None
      with r that show ?thesis by (simp add: api_handler_def)
    next
      case (Some c)
      with r that subm [of c body s'] show ?thesis by (simp add: api_handler_def)
    qed
  qed
  show ?thesis
  proof (cases "is_protected r")
    case False
    then show ?thesis using handler [OF ok P, of None] by (simp add: api_serve_eq)
  next
    case True
    show ?thesis
    proof (rule protect_cases [of v up "ck_auth ck" hdr ?h s])
      assume "protect v up (ck_auth ck) hdr ?h s = ?h None s"
      then show ?thesis using True handler [OF ok P, of None] by (simp add: api_serve_eq)
    next
      fix reason assume "protect v up (ck_auth ck) hdr ?h s = (unauthorized reason, s)"
      then show ?thesis using True ok P by (simp add: api_serve_eq)
    next
      fix c assume c: "accepted v hdr = Some c"
        "protect v up (ck_auth ck) hdr ?h s = ?h (Some c) (run_upserter up (ck_auth ck) c s)"
      from upserter_keeps [where P = P, OF up ok P auth [OF c(1)]]
      show ?thesis using True handler [of _ "Some c"] c by (simp add: api_serve_eq)
    qed
  qed
qed

lemma serve_sound:
  assumes "own_upserter ops up" and "ok s" and "view_sound uni (view s)"
  shows "ok (snd (api_serve ops uni v up ck hdr r s))
       \<and> view_sound uni (view (snd (api_serve ops uni v up ck hdr r s)))"
  by (rule serve_keeps [where P = "view_sound uni"])
    (use assms submit_sound in \<open>auto simp: view_sound_auth\<close>)

end

section \<open>A store that does not fail\<close>

context store_strict
begin

text \<open>Every branch of \<open>submit\<close> on an open store.\<close>

lemma submit_bad:
  assumes "\<And>req. decode_submit body = Some req \<Longrightarrow> \<not> acceptable req now1"
  shows "snd (attempts_submit ops uni now1 now2 body (Some claims) s) = s
       \<and> rs_status (fst (attempts_submit ops uni now1 now2 body (Some claims) s)) = 400"
  using assms by (cases "decode_submit body") (auto simp: attempts_submit_def acceptable_def)

lemma submit_outcome:
  assumes ok: "ok s" and opened: "opened s" and dec: "decode_submit body = Some req" and acc: "acceptable req now1"
  shows "case v_puzzles (view s) (sr_date req) of
      None \<Rightarrow> fst (attempts_submit ops uni now1 now2 body (Some claims) s) = writeError 404 ''puzzle not found''
        \<and> view (snd (attempts_submit ops uni now1 now2 body (Some claims) s)) = view s
    | Some p \<Rightarrow> (let a = submitted_attempt uni (c_uid claims) req now2 p in
        fst (attempts_submit ops uni now1 now2 body (Some claims) s)
          = okJson (submit_response_json (a_score a) (a_won a))
        \<and> view (snd (attempts_submit ops uni now1 now2 body (Some claims) s)) = submit_effect a (view s))"
proof -
  from acc have len: "length (sr_date req) = 10" by (simp add: acceptable_def validDate_length)
  note open_req = attempts_submit_def dec acceptable_def [of req now1]
  obtain r s1 where get: "st_GetPuzzle ops (sr_date req) s = (r, s1)" by fastforce
  have s1: "ok s1" "view s1 = view s" "opened s1"
    using ret_puzzle [OF get ok] stays_opened(2) [of "sr_date req" s] get opened by simp_all
  have r: "r = (case v_puzzles (view s) (sr_date req) of Some p \<Rightarrow> Inr p | None \<Rightarrow> Inl ErrNotFound)"
    using puzzle_opened [OF opened, of "sr_date req"] get by simp
  show ?thesis
  proof (cases "v_puzzles (view s) (sr_date req)")
    case None
    with acc r s1 show ?thesis by (simp add: open_req get)
  next
    case (Some p)
    let ?a = "submitted_attempt uni (c_uid claims) req now2 p"
    obtain s2 where put: "st_UpsertAttempt ops ?a s1 = (Inr (), s2)"
      using put_attempt_opened [OF s1(3), of ?a] by (metis prod.collapse)
    have s2: "ok s2" "view s2 = view_put_attempt ?a (view s)" "opened s2"
      using put_attempt_view [OF s1(1,3), of ?a] len s1 put stays_opened(4) [of ?a s1]
        write_opD(1) [OF put_attempt_law s1(1), of ?a]
      by simp_all
    let ?s3 = "snd (st_SubmitScore ops (daily_board (sr_date req)) (c_uid claims) (a_score ?a) s2)"
    have s3: "ok ?s3" "opened ?s3"
      "view ?s3 = view_submit (daily_board (sr_date req)) (c_uid claims) (a_score ?a) (view s2)"
      using submit_view [OF s2(1,3)] write_opD(1) [OF submit_law s2(1)] s2 by (simp_all add: stays_opened)
    note s4 = submit_view [OF s3(1,2), of alltime_board "c_uid claims" "a_score ?a"]
    have "attempts_submit ops uni now1 now2 body (Some claims) s =
        (okJson (submit_response_json (a_score ?a) (a_won ?a)),
         if 0 < sint (a_score ?a)
         then snd (st_SubmitScore ops alltime_board (c_uid claims) (a_score ?a) ?s3) else s2)"
      using acc put by (simp add: open_req get r Some submitted_attempt_def [symmetric] Let_def
          del: submitted_attempt_simps)
    then show ?thesis
      by (simp add: Some Let_def submit_effect_def s2(2) s3(3) s4 del: submitted_attempt_simps(4,5))
  qed
qed

lemma submit_cover:
  assumes "ok s" and "opened s" and "boards_cover (view s)"
  shows "boards_cover (view (snd (attempts_submit ops uni now1 now2 body (Some claims) s)))"
proof (cases "\<exists>req. decode_submit body = Some req \<and> acceptable req now1")
  case False
  then have "snd (attempts_submit ops uni now1 now2 body (Some claims) s) = s"
    by (intro submit_bad [THEN conjunct1]) auto
  with assms show ?thesis by simp
next
  case True
  then obtain req where req: "decode_submit body = Some req" "acceptable req now1" by blast
  show ?thesis
    using submit_outcome [OF assms(1,2) req, of uni now2 claims] boards_cover_effect assms(3)
    by (auto simp: Let_def split: option.splits)
qed

lemma submit_live:
  assumes "ok s" and "opened s"
  shows "ok (snd (attempts_submit ops uni now1 now2 body (Some claims) s))
       \<and> opened (snd (attempts_submit ops uni now1 now2 body (Some claims) s))"
  using live.submit_keeps [where P = "\<lambda>_. True"] assms by blast

lemma serve_cover:
  assumes up: "own_upserter ops up" and s: "ok s" "opened s"
    and v: "view_sound uni (view s)" "boards_cover (view s)"
  shows "ok (snd (api_serve ops uni v up ck hdr r s)) \<and> opened (snd (api_serve ops uni v up ck hdr r s))
       \<and> view_sound uni (view (snd (api_serve ops uni v up ck hdr r s)))
       \<and> boards_cover (view (snd (api_serve ops uni v up ck hdr r s)))"
proof -
  have "(ok (snd (api_serve ops uni v up ck hdr r s)) \<and> opened (snd (api_serve ops uni v up ck hdr r s)))
       \<and> (view_sound uni (view (snd (api_serve ops uni v up ck hdr r s)))
       \<and> boards_cover (view (snd (api_serve ops uni v up ck hdr r s))))"
  proof (rule live.serve_keeps [where P = "\<lambda>v. view_sound uni v \<and> boards_cover v"])
    fix c body s
    assume "ok s \<and> opened s" "view_sound uni (view s) \<and> boards_cover (view s)"
    then show "(ok (snd (attempts_submit ops uni (ck_1 ck) (ck_2 ck) body (Some c) s))
          \<and> opened (snd (attempts_submit ops uni (ck_1 ck) (ck_2 ck) body (Some c) s)))
        \<and> view_sound uni (view (snd (attempts_submit ops uni (ck_1 ck) (ck_2 ck) body (Some c) s)))
        \<and> boards_cover (view (snd (attempts_submit ops uni (ck_1 ck) (ck_2 ck) body (Some c) s)))"
      using live.submit_sound [of s uni "ck_1 ck" "ck_2 ck" body c] submit_cover by blast
  qed (use assms in \<open>auto simp: view_sound_auth boards_cover_auth\<close>)
  then show ?thesis by blast
qed

end

end
