(* ===== verification/Api_Props.thy ===== *)
theory Api_Props
  imports Api_Laws Mem_Runs
begin

text \<open>
  The properties of the REST surface, on the in-memory store: what one request does, and what
  every sequence of requests preserves. The proofs apply the lemmas that \<open>Api_Laws\<close> proves
  from the contract, through the interpretations \<open>mem\<close>.
\<close>

abbreviation mem_upserter :: "mem_store upserter option" where
  "mem_upserter \<equiv> Some mem_UpsertUserOnFirstAuth"

lemma own_mem_upserter [simp]: "own_upserter mem_iface mem_upserter"
  by (simp add: own_upserter_def mem_ops_def)

section \<open>Submitting\<close>

text \<open>C2: Submitting an attempt to an open store, branch by branch: a missing or invalid body, an
  invalid date, a date outside the window or an empty list of guesses is answered 400 and
  changes nothing; an unknown puzzle is answered 404 and changes nothing; otherwise the
  answer is the score that the server derives from the stored puzzle, the attempt is
  stored under the authenticated user, and a winning score is entered on the daily and on
  the all-time board, where it replaces a lower one only.\<close>

theorem submit_spec:
  assumes "mem_wf s" and "\<not> ms_closed s"
  shows "case attempts_submit mem_iface uni tcheck tdone body (Some claims) s of (resp, s') \<Rightarrow>
     (if decode_submit body = None \<or> \<not> acceptable (the (decode_submit body)) tcheck then rs_status resp = 400 \<and> s' = s
      else case v_puzzles (mem_view s) (sr_date (the (decode_submit body))) of
          None \<Rightarrow> resp = writeError 404 ''puzzle not found'' \<and> mem_view s' = mem_view s
        | Some p \<Rightarrow>
            (let a = finalize uni (new_attempt (c_uid claims) (sr_date (the (decode_submit body))) (sr_guesses (the (decode_submit body))) tdone)
                       (p_word p)
             in resp = okJson (JObj [(''score'', JNum (sint (a_score a))), (''won'', JBool (a_won a))])
                \<and> mem_view s' = submit_effect a (mem_view s)))"
proof (cases "decode_submit body = None \<or> \<not> acceptable (the (decode_submit body)) tcheck")
  case True
  then have "\<And>req. decode_submit body = Some req \<Longrightarrow> \<not> acceptable req tcheck" by auto
  from mem.submit_bad [OF this] True show ?thesis by (simp add: split_beta)
next
  case False
  then obtain req where req: "decode_submit body = Some req" "acceptable req tcheck" by auto
  show ?thesis
    using mem.submit_outcome [OF assms req, of uni tdone claims] req
    by (auto simp: split_beta Let_def submit_response_json_def submitted_attempt_def split: option.split)
qed

definition sample_puzzle :: puzzle where
  "sample_puzzle = \<lparr>p_date = ''2025-11-29'', p_word = ''league'', p_hint = [], p_difficulty = 2\<rparr>"

definition sample_store :: mem_store where
  "sample_store = mem_run [CPutPuzzle sample_puzzle] mem_New"

definition sample_request :: submit_request where
  "sample_request = \<lparr>sr_date = ''2025-11-29'', sr_guesses = [''legend'', ''League'']\<rparr>"

definition sample_body :: string where
  "sample_body = json_text (request_json ''2025-11-29'' [''legend'', ''League''])"

lemma sample_decoded: "decode_submit sample_body = Some sample_request"
proof -
  have "to_valid ''2025-11-29'' = ''2025-11-29'' \<and> to_valid ''legend'' = ''legend'' \<and> to_valid ''League'' = ''League''"
    by code_simp
  then show ?thesis
    using submit_body_decoded [of "''2025-11-29''" "[''legend'', ''League'']" "[]"]
    by (simp add: sample_body_def sample_request_def)
qed

definition sample_now :: gotime where
  "sample_now = 63900000000000000000"

lemma sample_store: "mem_wf sample_store" "\<not> ms_closed sample_store"
  unfolding sample_store_def
  by (rule mem_run_invariant) (simp add: mem_New_def mem_PutPuzzle_def)

lemma sample_puzzle_stored: "v_puzzles (mem_view sample_store) ''2025-11-29'' = Some sample_puzzle"
  by (simp add: sample_store_def mem_New_def mem_PutPuzzle_def sample_puzzle_def)

lemma sample_acceptable: "acceptable sample_request sample_now"
  by code_simp

lemma sample_score:
  "(case finalize (\<lambda>s. s) (new_attempt ''u1'' (sr_date sample_request) (sr_guesses sample_request) sample_now)
      (p_word sample_puzzle) of a \<Rightarrow> (sint (a_score a), a_won a)) = (85, True)"
  by code_simp

theorem submit_spec_witness:
  "fst (attempts_submit mem_iface (\<lambda>s. s) sample_now sample_now sample_body
      (Some (sample_claims ''u1'')) sample_store)
   = okJson (JObj [(''score'', JNum 85), (''won'', JBool True)])"
  using submit_spec [OF sample_store, where uni = "\<lambda>s. s" and tcheck = sample_now and tdone = sample_now
      and body = sample_body and claims = "sample_claims ''u1''"] sample_acceptable sample_decoded sample_score
  by (simp add: split_beta Let_def sample_claims_def sample_request_def sample_puzzle_stored
      del: mem_view_simps)

text \<open>A submitted attempt can be read back: after a submission that is answered 200, the same
  user's request for that date is answered with exactly the finalized attempt.\<close>

theorem submit_then_mine:
  assumes "mem_wf s" and "\<not> ms_closed s"
    and "rs_status (fst (attempts_submit mem_iface uni now1 now2 body (Some claims) s)) = 200"
  shows "\<exists>req p. decode_submit body = Some req \<and> v_puzzles (mem_view s) (sr_date req) = Some p \<and>
     fst (attempts_mine mem_iface (sr_date req) (Some claims)
            (snd (attempts_submit mem_iface uni now1 now2 body (Some claims) s)))
     = okJson (attempt_json
         (finalize uni (new_attempt (c_uid claims) (sr_date req) (sr_guesses req) now2) (p_word p)))"
proof -
  let ?s' = "snd (attempts_submit mem_iface uni now1 now2 body (Some claims) s)"
  obtain req where dec: "decode_submit body = Some req" and acc: "acceptable req now1"
    using mem.submit_bad [of body now1 uni now2 claims s] assms(3) by fastforce
  then have valid: "validDate (sr_date req)" by (simp add: acceptable_def)
  obtain p where p: "v_puzzles (mem_view s) (sr_date req) = Some p"
    using mem.submit_outcome [OF assms(1,2) dec acc, of uni now2 claims] assms(3)
    by (cases "v_puzzles (mem_view s) (sr_date req)") auto
  let ?a = "submitted_attempt uni (c_uid claims) req now2 p"
  have view: "mem_view ?s' = submit_effect ?a (mem_view s)"
    using mem.submit_outcome [OF assms(1,2) dec acc, of uni now2 claims] p by (simp add: Let_def)
  have opened: "\<not> ms_closed ?s'"
    using mem.submit_live [OF assms(1,2)] by blast
  have "v_attempts (mem_view ?s') (c_uid claims) (sr_date req) = Some ?a"
    unfolding view by (simp add: submit_effect_def Let_def)
  then have "fst (st_GetAttempt mem_iface (c_uid claims) (sr_date req) ?s') = Inr ?a"
    using mem.attempt_opened [OF opened validDate_length [OF valid], of "c_uid claims"] by simp
  then show ?thesis
    using valid p dec by (cases "st_GetAttempt mem_iface (c_uid claims) (sr_date req) ?s'")
      (simp add: attempts_mine_def submitted_attempt_def del: mem_view_simps)
qed

theorem submit_then_mine_witness:
  "fst (attempts_mine mem_iface ''2025-11-29'' (Some (sample_claims ''u1''))
     (snd (attempts_submit mem_iface (\<lambda>s. s) sample_now sample_now sample_body
        (Some (sample_claims ''u1'')) sample_store)))
   = okJson (attempt_json (finalize (\<lambda>s. s)
       (new_attempt ''u1'' ''2025-11-29'' [''legend'', ''League''] sample_now) ''league''))"
proof -
  have "rs_status (fst (attempts_submit mem_iface (\<lambda>s. s) sample_now sample_now sample_body
      (Some (sample_claims ''u1'')) sample_store)) = 200"
    using mem.submit_outcome [OF sample_store sample_decoded sample_acceptable, of "\<lambda>s. s" sample_now "sample_claims ''u1''"]
      sample_puzzle_stored
    by (simp add: sample_request_def Let_def del: mem_view_simps)
  from submit_then_mine [OF sample_store this] show ?thesis
    using sample_puzzle_stored sample_decoded
    by (auto simp: sample_request_def sample_claims_def sample_puzzle_def simp del: mem_view_simps)
qed

section \<open>Integrity\<close>

type_synonym request = "clock \<times> string \<times> route"

definition api_run ::
  "'s store_ops \<Rightarrow> (string \<Rightarrow> string) \<Rightarrow> verifier option \<Rightarrow> 's upserter option \<Rightarrow> request list \<Rightarrow> 's \<Rightarrow> 's"
where
  "api_run ops uni v up reqs s =
     fold (\<lambda>(ck, hdr, r) s. snd (api_serve ops uni v up ck hdr r s)) reqs s"

lemma mem_api_run_keeps:
  assumes "mem_wf s" "\<not> ms_closed s" "view_sound uni (mem_view s)" "boards_cover (mem_view s)"
  shows "view_sound uni (mem_view (api_run mem_iface uni v mem_upserter reqs s))
       \<and> boards_cover (mem_view (api_run mem_iface uni v mem_upserter reqs s))"
  using assms
proof (induction reqs arbitrary: s)
  case Nil
  then show ?case by (simp add: api_run_def)
next
  case (Cons q reqs)
  obtain ck hdr r where q: "q = (ck, hdr, r)" by (cases q)
  from mem.serve_cover [OF own_mem_upserter Cons.prems(1,2,3,4), where v = v and ck = ck and hdr = hdr and r = r]
  show ?case using Cons.IH by (simp add: q api_run_def)
qed

lemma seeded_store:
  assumes s_def: "s = mem_run (map CPutPuzzle ps) mem_New"
  shows "mem_wf s" "\<not> ms_closed s" "view_sound uni (mem_view s)" "boards_cover (mem_view s)"
proof -
  have "mem_wf s \<and> \<not> ms_closed s \<and> ms_attempts s = [] \<and> ms_leaderboards s = []"
    if "mem_wf s0 \<and> \<not> ms_closed s0 \<and> ms_attempts s0 = [] \<and> ms_leaderboards s0 = []"
      "s = mem_run (map CPutPuzzle ps) s0" for s0 s
    using that
  proof (induction ps arbitrary: s0)
    case (Cons p ps)
    show ?case
      by (rule Cons.IH [of "snd (mem_PutPuzzle p s0)"]) (use Cons.prems in \<open>simp_all add: mem_wf_ops, simp_all add: mem_PutPuzzle_def\<close>)
  qed simp
  from this [of mem_New s] have e: "mem_wf s" "\<not> ms_closed s" "ms_attempts s = []" "ms_leaderboards s = []"
    by (simp_all add: s_def) (simp_all add: mem_New_def)
  show "mem_wf s" "\<not> ms_closed s" by (rule e)+
  have none: "v_attempts (mem_view s) u d = None" "v_boards (mem_view s) b u = None" for u d b
    by (simp_all add: mem_view_def board_of_def e)
  show "view_sound uni (mem_view s)" "boards_cover (mem_view s)"
    by (simp_all add: view_sound_def boards_cover_def none del: mem_view_simps)
qed

text \<open>C1: A client cannot inflate a score: take any in-memory store seeded with puzzles and any
  sequence of API requests, with any bodies, tokens and verifier. Afterwards every stored attempt
  carries exactly the score and win flag that the scoring function gives for its guesses and
  the stored puzzle of its valid date, every entry of every board is between 25 and 100 points
  on the all-time board or the board of a valid date, a stored win is on its daily board with at
  least its score, and a daily entry never exceeds the user's all-time entry.\<close>

theorem api_integrity:
  "let v = mem_view (api_run mem_iface uni verifier mem_upserter reqs
                       (mem_run (map CPutPuzzle ps) mem_New))
   in view_sound uni v \<and> boards_cover v"
  unfolding Let_def by (rule mem_api_run_keeps) (rule seeded_store [OF refl])+

section \<open>Isolation and access\<close>

definition other_data_kept :: "(string \<Rightarrow> bool) \<Rightarrow> store_view \<Rightarrow> store_view \<Rightarrow> bool" where
  "other_data_kept mine v v' \<longleftrightarrow>
     v_puzzles v' = v_puzzles v \<and> v_matches v' = v_matches v \<and>
     (\<forall>u. \<not> mine u \<longrightarrow> v_users v' u = v_users v u \<and> v_attempts v' u = v_attempts v u
        \<and> (\<forall>b. v_boards v' b u = v_boards v b u))"

text \<open>C35: No request touches the data of another user: whatever the request, puzzles and matches
  stay as they are, and the user record, the attempts and the board entries of every user
  other than the one whose token was accepted are unchanged (of all users, when no token was).\<close>

theorem api_isolation:
  assumes "mem_wf s"
  shows "other_data_kept (\<lambda>u. \<exists>c. accepted verifier hdr = Some c \<and> u = c_uid c) (mem_view s)
      (mem_view (snd (api_serve mem_iface uni verifier mem_upserter ck hdr r s)))"
proof -
  let ?P = "other_data_kept (\<lambda>u. \<exists>c. accepted verifier hdr = Some c \<and> u = c_uid c) (mem_view s)"
  have "mem_wf (snd (api_serve mem_iface uni verifier mem_upserter ck hdr r s)) \<and>
      ?P (mem_view (snd (api_serve mem_iface uni verifier mem_upserter ck hdr r s)))"
  proof (rule mem.serve_keeps [where P = ?P])
    fix c body s' assume "accepted verifier hdr = Some c" "mem_wf s'" "?P (mem_view s')"
    then show "mem_wf (snd (attempts_submit mem_iface uni (ck_1 ck) (ck_2 ck) body (Some c) s')) \<and>
        ?P (mem_view (snd (attempts_submit mem_iface uni (ck_1 ck) (ck_2 ck) body (Some c) s')))"
      by (intro mem.submit_keeps [where P = ?P])
        (auto simp: other_data_kept_def fun_eq_iff simp del: mem_view_simps)
  qed (use assms in \<open>auto simp: other_data_kept_def view_auth_def simp del: mem_view_simps\<close>)
  then show ?thesis by blast
qed

theorem api_isolation_witness:
  "v_puzzles (mem_view (snd (api_serve mem_iface (\<lambda>s. s) None mem_upserter
     \<lparr>ck_auth = 0, ck_1 = sample_now, ck_2 = sample_now\<rparr> [] (RSubmit sample_body) sample_store)))
   = v_puzzles (mem_view sample_store)"
  using api_isolation [OF sample_store(1), of None "[]" "\<lambda>s. s"
      "\<lparr>ck_auth = 0, ck_1 = sample_now, ck_2 = sample_now\<rparr>" "RSubmit sample_body"]
  unfolding other_data_kept_def by blast

text \<open>With a verifier configured, the four protected routes answer 401 to every request whose
  token is missing or rejected, without touching the store.\<close>

theorem api_unauthenticated:
  assumes "is_protected r" and "verifier \<noteq> None" and "accepted verifier hdr = None"
  shows "rs_status (fst (api_serve ops uni verifier up ck hdr r s)) = 401
       \<and> snd (api_serve ops uni verifier up ck hdr r s) = s"
  using assms
  by (cases rule: protect_cases [of verifier up "ck_auth ck" hdr "api_handler ops uni ck r" s])
    (simp_all add: api_serve_eq unauthorized_def)

theorem api_unauthenticated_witness:
  "rs_status (fst (api_serve mem_iface (\<lambda>s. s) (Some reject_all) mem_upserter
     \<lparr>ck_auth = 0, ck_1 = 0, ck_2 = 0\<rparr> ''Bearer abc'' RMePuzzleToday mem_New)) = 401"
proof -
  have "accepted (Some reject_all) ''Bearer abc'' = None" by code_simp
  then show ?thesis
    by (intro api_unauthenticated [THEN conjunct1]) simp_all
qed

text \<open>C38: The public routes do not leak a solution: replacing the word of a stored puzzle by any other
  word of the same length changes the answer of no public request.\<close>

theorem public_routes_hide_word:
  assumes wf: "mem_wf s" and p: "gm_get (ms_puzzles s) d = Some p" and len: "length w = length (p_word p)"
    and public: "\<not> is_protected r"
  shows "fst (api_serve mem_iface uni verifier up ck hdr r (snd (mem_PutPuzzle (p\<lparr>p_word := w\<rparr>) s)))
       = fst (api_serve mem_iface uni verifier up ck hdr r s)"
proof -
  let ?s = "snd (mem_PutPuzzle (p\<lparr>p_word := w\<rparr>) s)"
  have d: "p_date p = d" using wf p by (auto simp: mem_wf_def keyed_def)
  have page: "fst (board_page mem_iface scope date key q ?s) = fst (board_page mem_iface scope date key q s)"
    for scope date key q
    by (auto simp: board_page_def mem_TopN_def mem_PutPuzzle_def mem_ops_def Let_def split: option.split)
  have puzzle: "fst (puzzles_byDate mem_iface e ctx ?s) = fst (puzzles_byDate mem_iface e ctx s)" for e ctx
    using p d len
    by (auto simp: puzzles_byDate_def mem_GetPuzzle_def mem_PutPuzzle_def mem_ops_def public_puzzle_json_def
        split: option.split)
  show ?thesis
    using public page puzzle
    by (cases r) (simp_all add: puzzles_today_def puzzles_get_def leaderboards_get_def Let_def)
qed

theorem public_routes_hide_word_witness:
  "fst (api_serve mem_iface (\<lambda>s. s) None None \<lparr>ck_auth = 0, ck_1 = 0, ck_2 = 0\<rparr> [] (RPuzzle ''2025-11-29'')
      (snd (mem_PutPuzzle (sample_puzzle\<lparr>p_word := ''legend''\<rparr>) sample_store)))
   = fst (api_serve mem_iface (\<lambda>s. s) None None \<lparr>ck_auth = 0, ck_1 = 0, ck_2 = 0\<rparr> [] (RPuzzle ''2025-11-29'')
      sample_store)"
  by (rule public_routes_hide_word [OF sample_store(1), of "''2025-11-29''"])
    (use sample_puzzle_stored in \<open>simp_all add: sample_puzzle_def\<close>)

section \<open>Leaderboards\<close>

text \<open>A leaderboard request to an open store is answered 400 exactly when the scope is neither
  global nor daily or a daily date is invalid; otherwise it is answered with the best rows of
  the board it names, highest score first: as many as the parameter n asks for when n is a
  decimal number from 1 to 1000, and 50 when it is anything else.\<close>

theorem leaderboards_get_spec:
  assumes wf: "mem_wf s" "\<not> ms_closed s"
  shows "case leaderboards_get mem_iface now scope date q ctx s of (resp, s') \<Rightarrow>
    (let day = (if date = [] then time_format now else date) in
     mem_view s' = mem_view s \<and>
     (if scope = ''global'' \<or> scope = ''daily'' \<and> validDate day
      then \<exists>rows. rs_status resp = 200
             \<and> rs_body resp = BJson (board_response_json scope (if scope = ''global'' then date else day) rows)
             \<and> is_top_n (v_boards (mem_view s) (if scope = ''global'' then alltime_board else daily_board day))
                 (case atoi q of Some n \<Rightarrow> if 1 \<le> n \<and> n \<le> 1000 then n else 50 | None \<Rightarrow> 50) rows
      else rs_status resp = 400))"
proof -
  have q: "query_n q = (case atoi q of Some n \<Rightarrow> if 1 \<le> n \<and> n \<le> 1000 then n else 50 | None \<Rightarrow> 50)"
    by (auto simp: query_n_def defaultTopN_def atoi_def split: option.split)
  have pos: "0 < query_n q"
    by (auto simp: query_n_def defaultTopN_def split: option.split)
  have page: "\<exists>rows. fst (board_page mem_iface sc d key q s) = okJson (board_response_json sc d rows)
      \<and> is_top_n (v_boards (mem_view s) key) (query_n q) rows" for sc d key
  proof -
    obtain rows where rows: "fst (st_TopN mem_iface key (query_n q) s) = Inr rows"
      using mem.top_opened [OF wf(2)] by blast
    then have "is_top_n (v_boards (mem_view s) key) (query_n q) rows"
      by (rule mem.top_law [OF wf(1) pos])
    moreover have "fst (board_page mem_iface sc d key q s) = okJson (board_response_json sc d rows)"
      using rows by (cases "st_TopN mem_iface key (query_n q) s") (simp add: board_page_def)
    ultimately show ?thesis by blast
  qed
  have view: "mem_view (snd (leaderboards_get mem_iface now scope date q ctx s)) = mem_view s"
    using reads_onlyD [OF mem.read_handlers(5) wf(1)] by blast
  show ?thesis
    using page [of scope date alltime_board]
      page [of scope "if date = [] then time_format now else date"
          "daily_board (if date = [] then time_format now else date)"] view
    by (auto simp: split_beta Let_def leaderboards_get_def q simp del: mem_view_simps)
qed

theorem leaderboards_get_spec_witness:
  "rs_status (fst (leaderboards_get mem_iface sample_now ''weekly'' [] ''10'' None sample_store)) = 400"
  using leaderboards_get_spec [OF sample_store, where now = sample_now and scope = "''weekly''"
      and date = "[]" and q = "''10''" and ctx = None]
  by (simp add: split_beta Let_def)

end
