(* ===== verification/Server.thy ===== *)
theory Server
  imports Http_Router Ws_Keeps Api_Props
begin

text \<open>
  The whole server as a step relation. A step is one HTTP request, the upgrade of one WebSocket
  connection (accept, handshake, registration), the handling of one frame of a registered
  connection, or the end of a connection; the steps of all clients interleave freely, with any
  arguments. The invariants proved here hold in every reachable world.
\<close>

section \<open>Steps\<close>

record 's env =
  ev_router :: "'s router"
  ev_uni :: "string \<Rightarrow> string"
  ev_codec :: codec
  ev_files :: "http_route \<Rightarrow> response"

inductive server_step :: "'s env \<Rightarrow> 's world \<Rightarrow> 's world \<Rightarrow> bool" for e :: "'s env" where
  Step_Http:
    "server_step e w
       (w\<lparr>w_db := snd (serve_http (ev_router e) (ev_uni e) (ev_files e) ck hdr r (w_db w))\<rparr>)"
| Step_Open:
    "server_step e w (snd (open_conn (ev_codec e) (ws_verifier (ev_router e) now) accept rd wr w))"
| Step_Frame:
    "c \<in> h_conns w \<Longrightarrow> server_step e w (snd (handle_frame (ev_codec e) i c data w))"
| Step_Close:
    "c \<in> h_conns w \<Longrightarrow> server_step e w (close_conn c w)"

inductive_cases server_stepE: "server_step e w w'"

inductive reachable :: "'s env \<Rightarrow> 's world \<Rightarrow> 's world \<Rightarrow> bool" for e :: "'s env" and w0 :: "'s world" where
  Reach_init: "reachable e w0 w0"
| Reach_step: "reachable e w0 w \<Longrightarrow> server_step e w w' \<Longrightarrow> reachable e w0 w'"

text \<open>What the upgrade does: nothing, or a new connection object, refused or registered.\<close>

definition fresh_conn :: "string \<Rightarrow> 's world \<Rightarrow> 's world" where
  "fresh_conn uid w =
     w\<lparr>w_conn := (w_conn w)(w_nconn w := \<lparr>cn_uid = uid, cn_match = []\<rparr>), w_nconn := w_nconn w + 1\<rparr>"

lemma writeEnvelope_world: "\<exists>tr. snd (writeEnvelope cdc wr c env w) = w\<lparr>w_sent := tr\<rparr>"
proof (cases "marshal (pb_envelope cdc) env")
  case (Pair out e)
  have "snd (writeEnvelope cdc wr c env w) =
      w\<lparr>w_sent := (case e of None \<Rightarrow> w_sent w @ [Wrote c out] | Some _ \<Rightarrow> w_sent w)\<rparr>"
    using Pair by (cases e) (simp_all add: writeEnvelope_def send_def)
  then show ?thesis by blast
qed

lemma handshake_world:
  assumes "performHandshake cdc (Some f) rd wr c w = (r, w1)"
  shows "\<exists>db tr. w1 = w\<lparr>w_db := db, w_sent := tr\<rparr> \<and>
    (case r of
       Inl err \<Rightarrow> db = w_db w \<or> (\<exists>tok. db = snd (f tok (w_db w)))
     | Inr claims \<Rightarrow> (\<exists>tok. f tok (w_db w) = ((claims, None), db)))"
proof (cases "\<exists>data env req. rd = ReadBinary data \<and> unmarshal (pb_envelope cdc) data = Inr env
    \<and> e_type env = MT_AUTH_REQUEST \<and> unmarshal (pb_auth_request cdc) (e_payload env) = Inr req")
  case False
  with assms have "w1 = w" "\<exists>err. r = Inl err"
    by (auto simp: performHandshake_def split: read_result.splits sum.splits if_splits)
  then have "w1 = w\<lparr>w_db := w_db w, w_sent := w_sent w\<rparr>" by simp
  with \<open>\<exists>err. r = Inl err\<close> show ?thesis by (intro exI [of _ "w_db w"] exI [of _ "w_sent w"]) auto
next
  case True
  then obtain data env req where t: "rd = ReadBinary data" "unmarshal (pb_envelope cdc) data = Inr env"
    "e_type env = MT_AUTH_REQUEST" "unmarshal (pb_auth_request cdc) (e_payload env) = Inr req" by blast
  obtain claims ve db where f: "f (aq_id_token req) (w_db w) = ((claims, ve), db)"
    by (metis prod.collapse)
  let ?env = "buildAuthResponse cdc (e_request_id env) claims ve"
  obtain tr where tr: "snd (writeEnvelope cdc wr c ?env (w\<lparr>w_db := db\<rparr>)) = w\<lparr>w_db := db, w_sent := tr\<rparr>"
    using writeEnvelope_world by blast
  show ?thesis
  proof (cases ve)
    case None
    with assms t f tr have "r = Inr claims" "w1 = w\<lparr>w_db := db, w_sent := tr\<rparr>"
      by (simp_all add: performHandshake_def Let_def)
    with f None show ?thesis by auto
  next
    case (Some err)
    have "db = snd (f (aq_id_token req) (w_db w))" by (simp add: f)
    moreover from Some assms t f tr
    have "r = Inl (ErrWrap ''handshake verify'' err)" "w1 = w\<lparr>w_db := db, w_sent := tr\<rparr>"
      by (simp_all add: performHandshake_def Let_def)
    ultimately show ?thesis by auto
  qed
qed

lemma open_conn_cases:
  obtains "open_conn cdc v accept rd wr w = (None, w)"
  | f db tr where "v = Some f" "open_conn cdc v accept rd wr w = (None, (fresh_conn [] w)\<lparr>w_db := db, w_sent := tr\<rparr>)"
      "db = w_db w \<or> (\<exists>tok. db = snd (f tok (w_db w)))"
  | "v = None" "open_conn cdc v accept rd wr w = (Some (w_nconn w), register (w_nconn w) (fresh_conn [] w))"
  | f tok claims db tr where "v = Some f" "f tok (w_db w) = ((claims, None), db)"
      "open_conn cdc v accept rd wr w =
         (Some (w_nconn w), register (w_nconn w) ((fresh_conn (c_uid claims) w)\<lparr>w_db := db, w_sent := tr\<rparr>))"
proof (cases "accept = None")
  case False
  then show ?thesis by (intro that(1)) (auto simp: open_conn_def)
next
  case True
  have nc: "new_conn [] w = (w_nconn w, fresh_conn [] w)"
    by (simp add: new_conn_def fresh_conn_def Let_def)
  have db: "w_db (fresh_conn u w) = w_db w" for u by (simp add: fresh_conn_def)
  show ?thesis
  proof (cases v)
    case None
    with True nc show ?thesis by (intro that(3)) (simp_all add: open_conn_def)
  next
    case (Some f)
    obtain r w1 where hs: "performHandshake cdc (Some f) rd wr (w_nconn w) (fresh_conn [] w) = (r, w1)" by fastforce
    from handshake_world [OF hs] obtain db tr where w1: "w1 = (fresh_conn [] w)\<lparr>w_db := db, w_sent := tr\<rparr>"
      and r: "case r of Inl err \<Rightarrow> db = w_db w \<or> (\<exists>tok. db = snd (f tok (w_db w)))
               | Inr claims \<Rightarrow> (\<exists>tok. f tok (w_db w) = ((claims, None), db))"
      unfolding db by blast
    show ?thesis
    proof (cases r)
      case (Inl err)
      with r have "db = w_db w \<or> (\<exists>tok. db = snd (f tok (w_db w)))" by simp
      moreover have "open_conn cdc v accept rd wr w =
          (None, w1\<lparr>w_sent := tr @ [Closed (w_nconn w) CloseUnauthenticated ''unauthenticated'']\<rparr>)"
        using True nc Some hs Inl w1 by (simp add: open_conn_def)
      ultimately show ?thesis using Some by (intro that(2)) (simp_all add: w1)
    next
      case (Inr claims)
      with r obtain tok where "f tok (w_db w) = ((claims, None), db)" by auto
      moreover have "w1\<lparr>w_conn := (w_conn w1)(w_nconn w := (w_conn w1 (w_nconn w))\<lparr>cn_uid := c_uid claims\<rparr>)\<rparr>
          = (fresh_conn (c_uid claims) w)\<lparr>w_db := db, w_sent := tr\<rparr>"
        by (rule world.equality) (simp_all add: w1 fresh_conn_def)
      then have "open_conn cdc v accept rd wr w =
         (Some (w_nconn w), register (w_nconn w) ((fresh_conn (c_uid claims) w)\<lparr>w_db := db, w_sent := tr\<rparr>))"
        using True nc Some hs Inr by (simp add: open_conn_def)
      ultimately show ?thesis using Some by (intro that(4))
    qed
  qed
qed

end
