(* ===== verification/Server_Inv.thy ===== *)
theory Server_Inv
  imports Server
begin

text \<open>
  The invariants of the running server: the room registry is well-formed, members of a room are
  players of its match, connections keep the user they authenticated as, stored attempts stay
  sound. Each is an instance of \<open>world_inv\<close>, the rule for frames, plus the cases of the other
  steps.
\<close>

section \<open>The registry\<close>

interpretation hub: world_inv "\<lambda>w. hub_wf w \<and> c < w_nconn w" c for c
  by unfold_locales (auto intro: hub_wf_enter_room(1))

lemma open_conn_hub_wf:
  assumes wf: "hub_wf w"
  shows "hub_wf (snd (open_conn cdc v accept rd wr w))"
proof -
  have nc: "new_conn uid w = (w_nconn w, fresh_conn uid w)" for uid
    by (simp add: new_conn_def fresh_conn_def Let_def)
  note fresh = hub_wf_new_conn [OF wf nc]
  have "hub_wf ((fresh_conn uid w)\<lparr>w_db := db, w_sent := tr\<rparr>)" for uid db tr
    using fresh(1) by simp
  then have "hub_wf (register (w_nconn w) ((fresh_conn uid w)\<lparr>w_db := db, w_sent := tr\<rparr>))" for uid db tr
    by (rule hub_wf_register) (use fresh in simp_all)
  moreover have "hub_wf (register (w_nconn w) (fresh_conn uid w))" for uid
    by (rule hub_wf_register) (use fresh in simp_all)
  ultimately show ?thesis
    using wf fresh(1) by (cases rule: open_conn_cases [of cdc v accept rd wr w]) simp_all
qed

lemma step_hub_wf:
  assumes "server_step e w w'" and "hub_wf w"
  shows "hub_wf w'"
  using assms
proof cases
  case (Step_Frame c i data)
  then show ?thesis using hub.frame_keeps [of w c] assms(2) hub_wfD(3) by blast
qed (simp_all add: open_conn_hub_wf close_conn_def hub_wf_unregister)


section \<open>Who sits in a room\<close>

definition is_player :: "('s \<Rightarrow> store_view) \<Rightarrow> 's world \<Rightarrow> string \<Rightarrow> nat \<Rightarrow> bool" where
  "is_player view w m c \<longleftrightarrow>
     cn_uid (w_conn w c) \<noteq> [] \<and>
     (\<exists>mt. v_matches (view (w_db w)) m = Some mt \<and> cn_uid (w_conn w c) \<in> set (m_players mt))"

definition room_auth :: "('s \<Rightarrow> store_view) \<Rightarrow> 's world \<Rightarrow> bool" where
  "room_auth view w \<longleftrightarrow>
     (\<forall>m c. c \<in> set (members m w) \<longrightarrow> is_player view w m c) \<and>
     (\<forall>c. cn_match (w_conn w c) \<noteq> [] \<longrightarrow> is_player view w (cn_match (w_conn w c)) c)"

definition players_kept :: "store_view \<Rightarrow> store_view \<Rightarrow> bool" where
  "players_kept v v' \<longleftrightarrow>
     (\<forall>m mt. v_matches v m = Some mt \<longrightarrow> (\<exists>mt'. v_matches v' m = Some mt' \<and> m_players mt' = m_players mt))"

definition keyed_matches :: "store_view \<Rightarrow> bool" where
  "keyed_matches v \<longleftrightarrow> (\<forall>i m. v_matches v i = Some m \<longrightarrow> m_id m = i)"

lemma room_auth_db:
  "room_auth view w \<Longrightarrow> players_kept (view (w_db w)) (view db) \<Longrightarrow> room_auth view (w\<lparr>w_db := db\<rparr>)"
proof -
  assume auth: "room_auth view w" and kept: "players_kept (view (w_db w)) (view db)"
  have "is_player view (w\<lparr>w_db := db\<rparr>) m c" if "is_player view w m c" for m c
    using that kept by (auto simp: is_player_def players_kept_def) metis
  moreover have "members m (w\<lparr>w_db := db\<rparr>) = members m w" for m
    by (simp add: members_def split: option.split)
  ultimately show ?thesis using auth by (simp add: room_auth_def)
qed

lemma room_auth_sent [simp]: "room_auth view (w\<lparr>w_sent := tr\<rparr>) = room_auth view w"
  by (simp add: room_auth_def is_player_def members_def)

lemma players_kept_refl [simp]: "players_kept v v"
  by (simp add: players_kept_def)

lemma room_auth_enter:
  assumes wf: "hub_wf w" "c < w_nconn w" "m \<noteq> []" and auth: "room_auth view w" and new: "is_player view w m c"
  shows "room_auth view (enter_room now c m w)"
  using auth new hub_wf_enter_room(2) [OF wf]
  by (auto simp: room_auth_def is_player_def)

lemma members_less: "hub_wf w \<Longrightarrow> c \<in> set (members m w) \<Longrightarrow> c < w_nconn w"
  using hub_wfD(2) [of w m] by (cases "gm_get (h_rooms w) m") (auto simp: members_def room_ok_def)

lemma fresh_conn_simps [simp]:
  "h_conns (fresh_conn uid w) = h_conns w" "w_nconn (fresh_conn uid w) = Suc (w_nconn w)"
  "members m (fresh_conn uid w) = members m w" "h_store (fresh_conn uid w) = h_store w"
  "w_db (fresh_conn uid w) = w_db w"
  by (simp_all add: fresh_conn_def members_def split: option.split)

lemma room_auth_fresh:
  assumes "hub_wf w" and "room_auth view w"
  shows "room_auth view (fresh_conn uid w)"
proof -
  have "is_player view (fresh_conn uid w) m c = is_player view w m c" if "c \<noteq> w_nconn w" for m c
    using that by (simp add: is_player_def fresh_conn_def)
  moreover have "cn_match (w_conn (fresh_conn uid w) c) = (if c = w_nconn w then [] else cn_match (w_conn w c))" for c
    by (simp add: fresh_conn_def)
  ultimately show ?thesis
    using assms members_less [OF assms(1)] unfolding room_auth_def fresh_conn_simps by (metis less_irrefl)
qed

lemma register_simps [simp]:
  "h_store (register c w) = h_store w" "w_db (register c w) = w_db w" "w_conn (register c w) = w_conn w"
  "h_rooms (register c w) = h_rooms w" "w_room (register c w) = w_room w"
  "h_conns (register c w) = insert c (h_conns w)" "w_nconn (register c w) = w_nconn w"
  by (simp_all add: register_def)

lemma room_auth_register [simp]: "room_auth view (register c w) = room_auth view w"
  by (simp add: room_auth_def is_player_def members_def register_def)

lemma room_auth_unregister:
  assumes "hub_wf w" and "room_auth view w"
  shows "room_auth view (unregister c w)"
proof -
  have "set (members m (unregister c w)) \<subseteq> set (members m w)" for m
    using set_remove1_subset [of c "members m w"] by (auto simp: members_unregister [OF assms(1)])
  then show ?thesis
    using assms(2) unfolding room_auth_def is_player_def by (simp add: subset_iff) blast
qed

section \<open>The invariant of the server\<close>

definition attempts_sound :: "(string \<Rightarrow> string) \<Rightarrow> store_view \<Rightarrow> bool" where
  "attempts_sound uni v \<longleftrightarrow> (\<forall>u d a. v_attempts v u d = Some a \<longrightarrow> attempt_sound uni v u d a)"

lemma attempts_sound_simps [simp]:
  "attempts_sound uni (view_auth now c v) = attempts_sound uni v"
  "attempts_sound uni (view_submit b u sc v) = attempts_sound uni v"
  "attempts_sound uni (view_put_match m v) = attempts_sound uni v"
  by (simp_all add: attempts_sound_def attempt_sound_def)

lemma attempts_sound_put:
  "attempts_sound uni v \<Longrightarrow> attempt_sound uni v (a_uid a) (a_date a) a \<Longrightarrow> attempts_sound uni (view_put_attempt a v)"
  by (auto simp: attempts_sound_def attempt_sound_def)

lemma end_match_view:
  assumes "keyed_matches v" and "v_matches v m = Some mt"
  shows "keyed_matches (view_put_match (timed_match tm (ended_match req now mt)) v)"
    and "players_kept v (view_put_match (timed_match tm (ended_match req now mt)) v)"
  using assms by (auto simp: keyed_matches_def players_kept_def split: if_splits)

text \<open>The part of the invariant that concerns the store alone.\<close>

definition store_inv :: "('s \<Rightarrow> store_view) \<Rightarrow> ('s \<Rightarrow> bool) \<Rightarrow> (string \<Rightarrow> string) \<Rightarrow> 's \<Rightarrow> bool" where
  "store_inv view ok uni db \<longleftrightarrow> ok db \<and> keyed_matches (view db) \<and> attempts_sound uni (view db)"

definition server_inv ::
  "'s store_ops \<Rightarrow> ('s \<Rightarrow> store_view) \<Rightarrow> ('s \<Rightarrow> bool) \<Rightarrow> (string \<Rightarrow> string) \<Rightarrow> 's world \<Rightarrow> bool"
where
  "server_inv ops view ok uni w \<longleftrightarrow>
     store_inv view ok uni (w_db w) \<and> hub_wf w \<and> room_auth view w \<and>
     (h_store w = None \<or> h_store w = Some ops)"

text \<open>A change of the store that the invariant survives.\<close>

definition harmless :: "('s \<Rightarrow> store_view) \<Rightarrow> ('s \<Rightarrow> bool) \<Rightarrow> (string \<Rightarrow> string) \<Rightarrow> 's \<Rightarrow> 's \<Rightarrow> bool" where
  "harmless view ok uni db db' \<longleftrightarrow>
     (store_inv view ok uni db \<longrightarrow> store_inv view ok uni db' \<and> players_kept (view db) (view db'))"

lemma harmless_refl [simp]: "harmless view ok uni db db"
  by (simp add: harmless_def)

lemma server_inv_db:
  "server_inv ops view ok uni w \<Longrightarrow> harmless view ok uni (w_db w) db \<Longrightarrow> server_inv ops view ok uni (w\<lparr>w_db := db\<rparr>)"
  by (auto simp: server_inv_def harmless_def room_auth_db)

lemma server_inv_sent: "server_inv ops view ok uni w \<Longrightarrow> server_inv ops view ok uni (w\<lparr>w_sent := tr\<rparr>)"
  by (simp add: server_inv_def)

lemma server_inv_ops: "server_inv ops view ok uni w \<Longrightarrow> h_store w = Some ops' \<Longrightarrow> ops' = ops"
  by (auto simp: server_inv_def)

definition good_env :: "'s store_ops \<Rightarrow> 's env \<Rightarrow> bool" where
  "good_env ops e \<longleftrightarrow>
     rt_store (ev_router e) = Some ops \<and>
     (\<forall>g. rt_ws_verifier (ev_router e) = Some g \<longrightarrow> own_upserter ops (gt_upserter g))"

context store_laws
begin

lemma harmless_get: "harmless view ok uni db (snd (st_GetMatch ops m db))"
  using lookup_opD(1,2) [OF match_law, of db m] by (auto simp: harmless_def store_inv_def)

lemma harmless_auth: "harmless view ok uni db (snd (st_UpsertUserOnFirstAuth ops now c db))"
  using write_opD(1,2) [OF auth_law, of db now c]
  by (auto simp: harmless_def store_inv_def keyed_matches_def players_kept_def)

lemma harmless_score: "harmless view ok uni db (snd (st_SubmitScore ops b u sc db))"
  using ret_submit_score [of db b u sc]
  by (auto simp: harmless_def store_inv_def keyed_matches_def players_kept_def)

lemma harmless_put:
  assumes get: "st_GetMatch ops m db = (Inr mt, db1)"
  shows "harmless view ok uni db (snd (st_UpsertMatch ops (ended_match req now mt) db1))"
  unfolding harmless_def
proof
  assume inv: "store_inv view ok uni db"
  then have ok: "ok db" by (simp add: store_inv_def)
  have db1: "ok db1" "view db1 = view db"
    using lookup_opD(1,2) [OF match_law ok, of m] get by simp_all
  have mt: "v_matches (view db) m = Some mt"
    using lookup_opD(3) [OF match_law ok, of m mt] get by simp
  have put: "keyed_matches (view_put_match (timed_match tm (ended_match req now mt)) (view db))"
    "players_kept (view db) (view_put_match (timed_match tm (ended_match req now mt)) (view db))"
    using end_match_view [OF _ mt] inv by (simp_all add: store_inv_def)
  show "store_inv view ok uni (snd (st_UpsertMatch ops (ended_match req now mt) db1)) \<and>
      players_kept (view db) (view (snd (st_UpsertMatch ops (ended_match req now mt) db1)))"
    using write_opD(1,2) [OF put_match_law db1(1), of "ended_match req now mt"] inv db1(2) put
    by (auto simp: store_inv_def)
qed

lemma harmless_upserter: "own_upserter ops up \<Longrightarrow> harmless view ok uni db (run_upserter up now c db)"
  using harmless_auth by (auto simp: own_upserter_def run_upserter_def)

lemma harmless_gate:
  "own_upserter ops (gt_upserter g) \<Longrightarrow> harmless view ok uni db (snd (Gate_Verify (Some g) now tok db))"
  by (auto simp: Gate_Verify_def harmless_upserter split: option.split prod.split)

lemma submit_attempts_sound:
  assumes "ok s" and "attempts_sound uni (view s) \<and> v_matches (view s) = M"
  shows "ok (snd (attempts_submit ops uni now1 now2 body (Some claims) s)) \<and>
    (attempts_sound uni (view (snd (attempts_submit ops uni now1 now2 body (Some claims) s))) \<and>
     v_matches (view (snd (attempts_submit ops uni now1 now2 body (Some claims) s))) = M)"
proof (rule submit_keeps [where P = "\<lambda>v. attempts_sound uni v \<and> v_matches v = M"])
  fix req p v
  assume "acceptable req now1" "attempts_sound uni v \<and> v_matches v = M" "v_puzzles v (sr_date req) = Some p"
  then show "attempts_sound uni (view_put_attempt (timed_attempt tm (submitted_attempt uni (c_uid claims) req now2 p)) v)
      \<and> v_matches (view_put_attempt (timed_attempt tm (submitted_attempt uni (c_uid claims) req now2 p)) v) = M"
    by (auto intro!: attempts_sound_put simp: attempt_sound_def acceptable_def)
qed (use assms in simp_all)

lemma harmless_http:
  assumes "rt_store rt = Some ops"
  shows "harmless view ok uni db (snd (serve_http rt uni files ck hdr r db))"
  unfolding harmless_def
proof
  assume inv: "store_inv view ok uni db"
  then have ok: "ok db" by (simp add: store_inv_def)
  have up: "own_upserter ops (asUpserter (rt_store rt))"
    by (simp add: own_upserter_def asUpserter_def assms)
  show "store_inv view ok uni (snd (serve_http rt uni files ck hdr r db)) \<and>
      players_kept (view db) (view (snd (serve_http rt uni files ck hdr r db)))"
  proof (cases r)
    case HHealth
    then show ?thesis
      using read_opD [OF ping_law ok] inv assms
      by (auto simp: healthHandler_def store_inv_def split: prod.split sum.split)
  next
    case (HApi r')
    have "ok (snd (api_serve ops uni (rt_verifier rt) (asUpserter (rt_store rt)) ck hdr r' db)) \<and>
        (attempts_sound uni (view (snd (api_serve ops uni (rt_verifier rt) (asUpserter (rt_store rt)) ck hdr r' db)))
         \<and> v_matches (view (snd (api_serve ops uni (rt_verifier rt) (asUpserter (rt_store rt)) ck hdr r' db)))
             = v_matches (view db))"
      by (rule serve_keeps [where P = "\<lambda>v. attempts_sound uni v \<and> v_matches v = v_matches (view db)", OF up ok])
        (use inv in \<open>auto simp: store_inv_def dest: submit_attempts_sound\<close>)
    then show ?thesis
      using inv by (auto simp: HApi assms store_inv_def keyed_matches_def players_kept_def)
  qed (use inv in simp_all)
qed

text \<open>The steps.\<close>

lemma server_inv_frame: "world_inv (\<lambda>w. server_inv ops view ok uni w \<and> c < w_nconn w) c"
proof
  fix w ops' m and mt :: game_match and db and now :: gotime
  assume inv: "server_inv ops view ok uni w \<and> c < w_nconn w" and st: "h_store w = Some ops'"
    and uid: "cn_uid (w_conn w c) \<noteq> []" and m: "m \<noteq> []" and get: "st_GetMatch ops' m (w_db w) = (Inr mt, db)"
    and player: "cn_uid (w_conn w c) \<in> set (m_players mt)"
  from inv st have ops: "ops' = ops" by (auto simp: server_inv_def)
  have ok: "ok (w_db w)" using inv by (simp add: server_inv_def store_inv_def)
  have db: "db = snd (st_GetMatch ops m (w_db w))" using get ops by simp
  let ?w = "w\<lparr>w_db := db\<rparr>"
  have inv': "server_inv ops view ok uni ?w"
    unfolding db using inv harmless_get by (intro server_inv_db) auto
  have "is_player view ?w m c"
    using lookup_opD(2,3) [OF match_law ok, of m] get ops player uid by (simp add: is_player_def)
  then show "server_inv ops view ok uni (enter_room now c m ?w) \<and> c < w_nconn (enter_room now c m ?w)"
    using inv inv' m hub_wf_enter_room(1) [of ?w c m now] room_auth_enter [of ?w c m view now]
    by (simp add: server_inv_def)
next
  fix w ops' db req now and mt :: game_match
  assume inv: "server_inv ops view ok uni w \<and> c < w_nconn w" and st: "h_store w = Some ops'"
    and get: "st_GetMatch ops' (cn_match (w_conn w c)) (w_db w) = (Inr mt, db)"
  from inv st have "ops' = ops" by (auto simp: server_inv_def)
  with inv harmless_put get
  show "server_inv ops view ok uni (w\<lparr>w_db := snd (st_UpsertMatch ops' (ended_match req now mt) db)\<rparr>)
      \<and> c < w_nconn (w\<lparr>w_db := snd (st_UpsertMatch ops' (ended_match req now mt) db)\<rparr>)"
    by (auto intro!: server_inv_db)
qed (auto dest: server_inv_ops intro!: server_inv_sent server_inv_db harmless_get harmless_score)

lemma server_inv_open:
  assumes inv: "server_inv ops view ok uni w"
    and v: "\<And>f tok. v = Some f \<Longrightarrow> harmless view ok uni (w_db w) (snd (f tok (w_db w)))"
  shows "server_inv ops view ok uni (snd (open_conn cdc v accept rd wr w))"
proof -
  have wf: "hub_wf (snd (open_conn cdc v accept rd wr w))"
    using inv by (simp add: server_inv_def open_conn_hub_wf)
  have keep: "store_inv view ok uni db \<and> room_auth view ((fresh_conn uid w)\<lparr>w_db := db, w_sent := tr\<rparr>)
      \<and> h_store (fresh_conn uid w) = h_store w"
    if "harmless view ok uni (w_db w) db" for db uid tr
    using inv that room_auth_fresh [of w view uid] room_auth_db [of view "fresh_conn uid w" db]
    by (auto simp: server_inv_def harmless_def fresh_conn_def)
  have keep': "room_auth view (fresh_conn uid w) \<and> h_store (fresh_conn uid w) = h_store w
      \<and> w_db (fresh_conn uid w) = w_db w" for uid
    using inv room_auth_fresh [of w view uid] by (simp add: server_inv_def fresh_conn_def)
  have h: "harmless view ok uni (w_db w) db" if "v = Some f" "f tok (w_db w) = (r, db)" for f tok r db
    using v [OF that(1), of tok] that(2) by simp
  show ?thesis
  proof (cases rule: open_conn_cases [of cdc v accept rd wr w])
    case 1
    then show ?thesis using inv by simp
  next
    case (2 f db tr)
    then have "harmless view ok uni (w_db w) db" using v by auto
    from keep [OF this, where uid = "[]" and tr = tr] show ?thesis using inv wf 2 by (simp add: server_inv_def)
  next
    case 3
    then show ?thesis using inv wf keep' [of "[]"] by (auto simp: server_inv_def)
  next
    case (4 f tok claims db tr)
    from keep [OF h [OF 4(1,2)], where uid = "c_uid claims" and tr = tr] show ?thesis
      using inv wf 4 by (auto simp: server_inv_def)
  qed
qed

lemma server_inv_close: "server_inv ops view ok uni w \<Longrightarrow> server_inv ops view ok uni (close_conn c w)"
  by (auto simp: close_conn_def server_inv_def hub_wf_unregister room_auth_unregister)

lemma server_inv_step:
  assumes step: "server_step e w w'" and env: "good_env ops e"
    and inv: "server_inv ops view ok (ev_uni e) w"
  shows "server_inv ops view ok (ev_uni e) w'"
  using step
proof cases
  case (Step_Http ck hdr r)
  then show ?thesis
    using env inv harmless_http by (auto simp: good_env_def intro!: server_inv_db)
next
  case (Step_Open now accept rd wr)
  have "harmless view ok (ev_uni e) (w_db w) (snd (f tok (w_db w)))"
    if "ws_verifier (ev_router e) now = Some f" for f tok
    using that env harmless_gate by (auto simp: ws_verifier_def good_env_def split: option.splits)
  with Step_Open server_inv_open [OF inv] show ?thesis by blast
next
  case (Step_Frame c i data)
  have "c < w_nconn w" using Step_Frame(2) inv hub_wfD(3) by (auto simp: server_inv_def)
  with Step_Frame inv show ?thesis
    using world_inv.frame_keeps [OF server_inv_frame, of "ev_uni e" w c "ev_codec e" i data] by simp
next
  case (Step_Close c)
  then show ?thesis using inv server_inv_close by simp
qed

lemma server_inv_reachable:
  assumes "reachable e w0 w" and "good_env ops e" and "server_inv ops view ok (ev_uni e) w0"
  shows "server_inv ops view ok (ev_uni e) w"
  using assms(1) by induction (use assms(2,3) server_inv_step in blast)+

end

end
