(* ===== verification/Server_Props.thy ===== *)
theory Server_Props
  imports Server_Inv
begin

text \<open>
  What holds in every reachable state of a server that runs on the in-memory store: who is in a
  room, under which user a connection acts, which scores attempts carry, and what becomes of
  sync-PvP in the server as \<open>main\<close> wires it.
\<close>

section \<open>Seeded stores\<close>

text \<open>A new store into which only puzzles and matches have been put.\<close>

definition seeded :: "mem_call list \<Rightarrow> mem_store" where
  "seeded cs = mem_run (filter (\<lambda>c. case c of CPutPuzzle _ \<Rightarrow> True | CUpsertMatch _ \<Rightarrow> True | _ \<Rightarrow> False) cs) mem_New"

lemma seed_keeps:
  "ms_attempts s = [] \<and> \<not> ms_closed s \<Longrightarrow>
   ms_attempts (mem_run (filter (\<lambda>c. case c of CPutPuzzle _ \<Rightarrow> True | CUpsertMatch _ \<Rightarrow> True | _ \<Rightarrow> False) cs) s) = []
   \<and> \<not> ms_closed (mem_run (filter (\<lambda>c. case c of CPutPuzzle _ \<Rightarrow> True | CUpsertMatch _ \<Rightarrow> True | _ \<Rightarrow> False) cs) s)"
  by (induction cs arbitrary: s)
    (auto simp: mem_PutPuzzle_def mem_UpsertMatch_def split: mem_call.splits)

lemma keyed_matches_mem: "mem_wf db \<Longrightarrow> keyed_matches (mem_view db)"
  by (auto simp: keyed_matches_def mem_wf_def keyed_def)

lemma seeded_store_inv: "store_inv mem_view mem_wf uni (seeded cs)"
proof -
  have "ms_attempts (seeded cs) = []"
    unfolding seeded_def by (rule seed_keeps [THEN conjunct1]) (simp add: mem_New_def)
  then have "attempts_sound uni (mem_view (seeded cs))"
    by (simp add: attempts_sound_def mem_view_def)
  moreover have "mem_wf (seeded cs)"
    unfolding seeded_def by (rule mem_run_wf_from) simp
  ultimately show ?thesis by (simp add: store_inv_def keyed_matches_mem)
qed

lemma hub_room_auth: "room_auth view (NewHub db)" "room_auth view (NewHubWithStore ops db)"
  by (simp_all add: room_auth_def members_def NewHub_def NewHubWithStore_def nil_conn_def)

lemma seeded_server_inv:
  "server_inv mem_iface mem_view mem_wf uni (NewHubWithStore mem_iface (seeded cs))"
proof -
  have "w_db (NewHubWithStore mem_iface (seeded cs)) = seeded cs"
    "h_store (NewHubWithStore mem_iface (seeded cs)) = Some mem_iface"
    by (simp_all add: NewHubWithStore_def NewHub_def)
  then show ?thesis
    by (simp add: server_inv_def seeded_store_inv hub_room_auth hub_wf_NewHub)
qed

lemma mem_reachable_inv:
  assumes "reachable e (NewHubWithStore mem_iface (seeded cs)) w" and "good_env mem_iface e"
  shows "server_inv mem_iface mem_view mem_wf (ev_uni e) w"
  by (rule mem.server_inv_reachable [OF assms seeded_server_inv])

section \<open>Rooms\<close>

text \<open>C4: Only players sit in a room: in every reachable state, every member of the room of a match
  is a connection whose user id is not empty and is listed among the players of that match as the
  store has it; the same holds for the match that a connection has joined last. So a frame
  relayed to a room reaches players of that match only.\<close>

theorem room_members_are_players:
  assumes "reachable e (NewHubWithStore mem_iface (seeded cs)) w" and "good_env mem_iface e"
    and "c \<in> set (members m w) \<or> m \<noteq> [] \<and> cn_match (w_conn w c) = m"
  shows "cn_uid (w_conn w c) \<noteq> [] \<and>
    (\<exists>mt. gm_get (ms_matches (w_db w)) m = Some mt \<and> cn_uid (w_conn w c) \<in> set (m_players mt))"
proof -
  have "room_auth mem_view w"
    using mem_reachable_inv [OF assms(1,2)] by (simp add: server_inv_def)
  then have "is_player mem_view w m c" using assms(3) by (auto simp: room_auth_def)
  then show ?thesis by (simp add: is_player_def)
qed

section \<open>Scores\<close>

text \<open>C9: Stored attempts stay honest on the whole server: whatever HTTP requests and WebSocket frames
  interleave, in every reachable state each stored attempt belongs to the user and the valid
  date under which it is found and carries exactly the score and win flag that the scoring
  function gives for its guesses and the stored puzzle of that date.\<close>

theorem server_attempts_sound:
  assumes "reachable e (NewHubWithStore mem_iface (seeded cs)) w" and "good_env mem_iface e"
    and "v_attempts (mem_view (w_db w)) u d = Some a"
  shows "a_uid a = u \<and> a_date a = d \<and> validDate d \<and>
    (\<exists>p. v_puzzles (mem_view (w_db w)) d = Some p
       \<and> (a_score a, a_won a) = Score (ev_uni e) (p_word p) (a_guesses a))"
  using mem_reachable_inv [OF assms(1,2)] assms(3)
  by (auto simp: server_inv_def store_inv_def attempts_sound_def attempt_sound_def simp del: mem_view_simps)

section \<open>Users of connections\<close>

definition verified :: "'s router \<Rightarrow> string \<Rightarrow> bool" where
  "verified rt uid \<longleftrightarrow>
     (case rt_ws_verifier rt of
        None \<Rightarrow> uid = []
      | Some g \<Rightarrow> (\<exists>v tok claims. gt_v g = Some v \<and> tok \<noteq> [] \<and> v tok = (claims, None) \<and> c_uid claims = uid))"

definition conns_verified :: "'s router \<Rightarrow> 's world \<Rightarrow> bool" where
  "conns_verified rt w \<longleftrightarrow> (\<forall>c \<in> h_conns w. c < w_nconn w \<and> verified rt (cn_uid (w_conn w c)))"

interpretation uids: world_inv "\<lambda>w. conns_verified rt w \<and> c < w_nconn w" c for rt c
  by unfold_locales (auto simp: conns_verified_def)

lemma gate_verified:
  assumes "ws_verifier rt now = Some f" and "f tok db = ((claims, None), db')"
  shows "verified rt (c_uid claims)"
  using assms
  by (auto simp: ws_verifier_def verified_def Gate_Verify_def split: option.splits if_splits prod.splits) blast

lemma conns_verified_step:
  assumes "server_step e w w'" and "conns_verified (ev_router e) w"
  shows "conns_verified (ev_router e) w'"
  using assms(1)
proof cases
  case (Step_Http ck hdr r)
  then show ?thesis using assms(2) by (simp add: conns_verified_def)
next
  case (Step_Open now accept rd wr)
  have old: "c \<in> h_conns w \<Longrightarrow> c \<noteq> w_nconn w" for c using assms(2) by (auto simp: conns_verified_def)
  show ?thesis
    using assms(2) old gate_verified [of "ev_router e" now]
    by (cases rule: open_conn_cases [of "ev_codec e" "ws_verifier (ev_router e) now" accept rd wr w])
      (auto simp: Step_Open conns_verified_def fresh_conn_def verified_def ws_verifier_def split: option.splits)
next
  case (Step_Frame c i data)
  then have "c < w_nconn w" using assms(2) by (simp add: conns_verified_def)
  then show ?thesis using uids.frame_keeps [of _ w c] assms(2) Step_Frame(1) by blast
next
  case (Step_Close c)
  then show ?thesis using assms(2) by (simp add: conns_verified_def close_conn_def)
qed

lemma conns_verified_reachable:
  assumes "reachable e w0 w" and "h_conns w0 = {}"
  shows "conns_verified (ev_router e) w"
  using assms(1)
proof induction
  case Reach_init
  then show ?case using assms(2) by (simp add: conns_verified_def)
qed (rule conns_verified_step)

text \<open>C10: No impersonation over WebSocket: with a gate configured, in every reachable state each
  registered connection acts under a user id that the gate's verifier has returned, without an
  error, for some non-empty token; without a gate every connection is anonymous.\<close>

theorem connections_are_verified:
  assumes "reachable e w0 w" and "h_conns w0 = {}" and "c \<in> h_conns w"
  shows "verified (ev_router e) (cn_uid (w_conn w c))"
  using conns_verified_reachable [OF assms(1,2)] assms(3) by (simp add: conns_verified_def)

section \<open>Sessions\<close>

interpretation conns: world_inv "\<lambda>w. h_conns w = cs" c for cs c
  by unfold_locales auto

lemma reachable_trans: "reachable e w w' \<Longrightarrow> reachable e w0 w \<Longrightarrow> reachable e w0 w'"
  by (induction rule: reachable.induct) (auto intro: Reach_step)

lemma readLoop_steps:
  "c \<in> h_conns w \<Longrightarrow> readLoop (ev_codec e) c is w = (d, w') \<Longrightarrow> reachable e w w' \<and> h_conns w' = h_conns w"
proof (induction "is" arbitrary: w)
  case Nil
  then show ?case by (simp add: Reach_init)
next
  case (Cons i "is")
  show ?case
  proof (cases "in_read i")
    case (ReadBinary data)
    obtain err w1 where f: "handle_frame (ev_codec e) i c data w = (err, w1)" by fastforce
    have step: "reachable e w w1"
      using Step_Frame [OF Cons.prems(1), of e i data] f by (auto intro: Reach_step Reach_init)
    have same: "h_conns w1 = h_conns w"
      using conns.frame_keeps [of w "h_conns w" "ev_codec e" i c data] f by simp
    show ?thesis
    proof (cases err)
      case None
      then have "readLoop (ev_codec e) c is w1 = (d, w')" using Cons.prems(2) ReadBinary f by simp
      with Cons.IH [of w1] Cons.prems(1) same have "reachable e w1 w'" "h_conns w' = h_conns w" by simp_all
      then show ?thesis using reachable_trans [OF _ step] by blast
    next
      case (Some e')
      then show ?thesis using Cons.prems(2) ReadBinary f step same by simp
    qed
  qed (use Cons in \<open>auto simp: Reach_init\<close>)
qed

lemma upgrade_run:
  assumes "UpgradeHandler (ev_codec e) (ws_verifier (ev_router e) now) accept rd wr is w = (d, w')"
    and "\<And>c. c \<in> h_conns w \<Longrightarrow> c < w_nconn w"
  shows "reachable e w w' \<and> h_conns w' = (if d then h_conns w else insert (w_nconn w) (h_conns w))"
proof -
  let ?open = "open_conn (ev_codec e) (ws_verifier (ev_router e) now) accept rd wr w"
  have new: "w_nconn w \<notin> h_conns w" using assms(2) by blast
  have step: "reachable e w (snd ?open)" by (blast intro: Reach_step Reach_init Step_Open)
  show ?thesis
  proof (cases "fst ?open")
    case None
    then have "d \<and> w' = snd ?open" using assms(1) by (simp add: UpgradeHandler_def split: prod.splits)
    moreover have "h_conns (snd ?open) = h_conns w"
      using None by (cases rule: open_conn_cases [of "ev_codec e" "ws_verifier (ev_router e) now" accept rd wr w])
        simp_all
    ultimately show ?thesis using step by simp
  next
    case (Some c)
    then have c: "c = w_nconn w" "h_conns (snd ?open) = insert c (h_conns w)"
      by (cases rule: open_conn_cases [of "ev_codec e" "ws_verifier (ev_router e) now" accept rd wr w]; simp)+
    obtain d' w1 where loop: "readLoop (ev_codec e) c is (snd ?open) = (d', w1)" by fastforce
    have r: "reachable e (snd ?open) w1" "h_conns w1 = insert c (h_conns w)"
      using readLoop_steps [OF _ loop] c(2) by simp_all
    have w': "(d, w') = (d', if d' then close_conn c w1 else w1)"
      using assms(1) Some loop by (cases ?open; cases d') (simp_all add: UpgradeHandler_def)
    have "reachable e w1 (close_conn c w1)"
      using r(2) by (blast intro: Reach_step Reach_init Step_Close)
    then have "reachable e w w'"
      using w' reachable_trans [OF r(1) step] by (auto intro: reachable_trans)
    moreover have "h_conns w' = (if d then h_conns w else insert (w_nconn w) (h_conns w))"
      using w' r(2) c(1) new by (auto simp: close_conn_def)
    ultimately show ?thesis ..
  qed
qed

text \<open>C18: The handler of a WebSocket connection is a run of the server: whatever the client sends, its
  effect is a sequence of steps (the upgrade, frames, and the close when it returns). While it
  has not returned, exactly the new connection is registered in addition; once it has
  returned, whether the handshake was refused or the read loop ended, the set of registered
  connections is what it was before.\<close>

theorem upgrade_session:
  assumes "UpgradeHandler (ev_codec e) (ws_verifier (ev_router e) now) accept rd wr is w = (d, w')"
    and "\<And>c. c \<in> h_conns w \<Longrightarrow> c < w_nconn w"
  shows "reachable e w w' \<and> h_conns w' = (if d then h_conns w else insert (w_nconn w) (h_conns w))"
  by (rule upgrade_run [OF assms])

lemma readLoop_ends:
  assumes "in_read i = ReadErr err"
  shows "readLoop cdc c (is @ i # js) w = readLoop cdc c (is @ [i]) w" "fst (readLoop cdc c (is @ [i]) w)"
proof -
  show "readLoop cdc c (is @ i # js) w = readLoop cdc c (is @ [i]) w"
    by (induction "is" arbitrary: w) (auto simp: assms split: read_result.split prod.split option.split)
  show "fst (readLoop cdc c (is @ [i]) w)"
    by (induction "is" arbitrary: w) (auto simp: assms split: read_result.split prod.split option.split)
qed


section \<open>The program as it is wired\<close>

definition pvp_off :: "'s world \<Rightarrow> bool" where
  "pvp_off w \<longleftrightarrow> h_store w = None \<and> h_rooms w = [] \<and> (\<forall>c. cn_match (w_conn w c) = [])"

interpretation off: world_inv "pvp_off :: 's world \<Rightarrow> bool" c for c
  by unfold_locales (auto simp: pvp_off_def)

lemma pvp_off_step: "server_step e w w' \<Longrightarrow> pvp_off w \<Longrightarrow> pvp_off w'"
proof (induction rule: server_step.induct)
  case (Step_Http w ck hdr r)
  then show ?case by (simp add: pvp_off_def)
next
  case (Step_Open w now accept rd wr)
  then show ?case
    by (cases rule: open_conn_cases [of "ev_codec e" "ws_verifier (ev_router e) now" accept rd wr w])
      (auto simp: pvp_off_def fresh_conn_def)
next
  case (Step_Frame c w i data)
  from Step_Frame(2) show ?case by (rule off.frame_keeps)
next
  case (Step_Close c w)
  then show ?case by (simp add: pvp_off_def close_conn_def unregister_def)
qed

lemma pvp_off_reachable: "reachable e w0 w \<Longrightarrow> pvp_off w0 \<Longrightarrow> pvp_off w"
  by (induction rule: reachable.induct) (auto intro: pvp_off_step)

text \<open>What a start that succeeds has built.\<close>

lemma main_boot_result:
  assumes "main_boot getenv mongodb_New sdk_app sdk_auth sdk_verify path_abs is_dir = Inr (rt, w0)"
  shows "\<exists>uri database st db client. mongodb_New uri database = Inr (st, db) \<and> w0 = NewHub db
    \<and> rt_store rt = Some st \<and> rt_ws_verifier rt =
        Some (NewGate (Some (Firebase_Verify sdk_verify (Some client))) (Some (st_UpsertUserOnFirstAuth st)))"
  using assms by (auto simp: main_boot_def NewRouter_def Let_def split: sum.splits prod.splits if_splits) blast

text \<open>C11: Sync-PvP is off in the program as \<open>main\<close> wires it: once it has started, in every state it
  can reach there are no rooms, every JOIN_ROOM is answered "sync-pvp disabled" and every TURN and
  MATCH_END is an error, none of them with any effect, because the hub is built without the store.\<close>

theorem main_disables_pvp:
  assumes "main_boot getenv mongodb_New sdk_app sdk_auth sdk_verify path_abs is_dir
             = Inr (ev_router e, w0)"
    and "reachable e w0 w"
  shows "RoomCount w = 0
    \<and> handleJoinRoom cdc now c env w =
        (Inr (ackJoin cdc (e_request_id env) False [] [] [] ''sync-pvp disabled''), w)
    \<and> (\<exists>err. handleTurn cdc c env w = (Some err, w)) \<and> (\<exists>err. handleMatchEnd cdc now c env w = (Inl err, w))"
proof -
  have "\<exists>db. w0 = NewHub db"
    using main_boot_result [OF assms(1)] by blast
  then have "pvp_off w0" by (auto simp: pvp_off_def NewHub_def nil_conn_def)
  then have "pvp_off w" by (rule pvp_off_reachable [OF assms(2)])
  then show ?thesis
    by (simp add: pvp_off_def RoomCount_def handleJoinRoom_def join_check_def handleTurn_def handleMatchEnd_def)
qed

end
