(* ===== verification/Ws_Wire.thy ===== *)
theory Ws_Wire
  imports Ws_Proto Go_Strings
begin

text \<open>
  A concrete codec: the protobuf wire format for the messages of \<open>envelope.proto\<close> (varints and
  length-delimited fields, fields with their default value omitted, the last occurrence of a
  field wins). It is not a model of the protobuf library, which also skips groups and fixed-width
  fields and checks UTF-8; it shows that the documented behaviour \<open>pb_ok\<close> of a codec can be had,
  and it is the codec of the concrete scenarios of the development.
\<close>

section \<open>Varints\<close>

fun put_varint :: "nat \<Rightarrow> bytes" where
  "put_varint n = (if n < 128 then [char_of n] else char_of (n mod 128 + 128) # put_varint (n div 128))"

declare put_varint.simps [simp del]

fun get_varint :: "bytes \<Rightarrow> (nat \<times> bytes) option" where
  "get_varint [] = None"
| "get_varint (b # bs) =
     (if ord8 b < 128 then Some (ord8 b, bs)
      else (case get_varint bs of
              None \<Rightarrow> None
            | Some (n, rest) \<Rightarrow> Some (ord8 b - 128 + 128 * n, rest)))"

lemma get_put_varint [simp]: "get_varint (put_varint n @ bs) = Some (n, bs)"
proof (induction n rule: put_varint.induct)
  case (1 n)
  show ?case
  proof (cases "n < 128")
    case True
    then show ?thesis by (simp add: put_varint.simps [of n] ord8_char_of)
  next
    case False
    then show ?thesis
      using 1 by (simp add: put_varint.simps [of n] ord8_char_of)
  qed
qed

lemma get_varint_shorter: "get_varint bs = Some (n, rest) \<Longrightarrow> length rest < length bs"
  by (induction bs arbitrary: n) (auto split: if_splits option.splits)

section \<open>Fields\<close>

datatype field = FNum nat "64 word" | FBytes nat bytes

fun put_field :: "field \<Rightarrow> bytes" where
  "put_field (FNum k v) = put_varint (8 * k) @ put_varint (unat v)"
| "put_field (FBytes k bs) = put_varint (8 * k + 2) @ put_varint (length bs) @ bs"

function get_fields :: "bytes \<Rightarrow> field list option" where
  "get_fields bs =
     (if bs = [] then Some []
      else (case get_varint bs of
              None \<Rightarrow> None
            | Some (key, r) \<Rightarrow>
                (case get_varint r of
                   None \<Rightarrow> None
                 | Some (v, r') \<Rightarrow>
                     if key mod 8 = 0 then
                       map_option (Cons (FNum (key div 8) (of_nat v))) (get_fields r')
                     else if key mod 8 = 2 \<and> v \<le> length r' then
                       map_option (Cons (FBytes (key div 8) (take v r'))) (get_fields (drop v r'))
                     else None)))"
  by pat_completeness auto
termination
  by (relation "measure length") (fastforce dest: get_varint_shorter)+

declare get_fields.simps [simp del]

lemma put_varint_ne [simp]: "put_varint n \<noteq> []"
  by (simp add: put_varint.simps [of n])

lemma get_put_field: "get_fields (put_field f @ bs) = map_option (Cons f) (get_fields bs)"
proof -
  have "(8 * k + 2) mod 8 = 2" "(8 * k + 2) div 8 = k" for k :: nat by presburger+
  then show ?thesis
    by (cases f) (simp_all add: get_fields.simps [of "put_varint n @ b" for n b] del: add_2_eq_Suc add_2_eq_Suc')
qed

lemma get_put_fields: "get_fields (concat (map put_field fs)) = Some fs"
proof (induction fs)
  case Nil
  then show ?case by (simp add: get_fields.simps [of "[]"])
qed (simp add: get_put_field)

definition num_fields :: "nat \<Rightarrow> 64 word \<Rightarrow> field list" where
  "num_fields k v = (if v = 0 then [] else [FNum k v])"

definition byte_fields :: "nat \<Rightarrow> bytes \<Rightarrow> field list" where
  "byte_fields k bs = (if bs = [] then [] else [FBytes k bs])"

fun num_of :: "nat \<Rightarrow> field list \<Rightarrow> 64 word" where
  "num_of k fs = fold (\<lambda>f v. case f of FNum k' v' \<Rightarrow> if k' = k then v' else v | _ \<Rightarrow> v) fs 0"

fun bytes_of :: "nat \<Rightarrow> field list \<Rightarrow> bytes" where
  "bytes_of k fs = fold (\<lambda>f v. case f of FBytes k' v' \<Rightarrow> if k' = k then v' else v | _ \<Rightarrow> v) fs []"

section \<open>Messages\<close>

definition wire_pb :: "('m \<Rightarrow> field list option) \<Rightarrow> (field list \<Rightarrow> 'm) \<Rightarrow> 'm pb" where
  "wire_pb to_fields of_fields =
     \<lparr>marshal = (\<lambda>m. case to_fields m of
                   Some fs \<Rightarrow> (concat (map put_field fs), None)
                 | None \<Rightarrow> ([], Some (ErrText ''proto: marshal''))),
      unmarshal = (\<lambda>bs. case get_fields bs of
                     Some fs \<Rightarrow> Inr (of_fields fs)
                   | None \<Rightarrow> Inl (ErrText ''proto: unmarshal''))\<rparr>"

lemma pb_ok_wire:
  "(\<And>m fs. to_fields m = Some fs \<Longrightarrow> of_fields fs = m) \<Longrightarrow> pb_ok (wire_pb to_fields of_fields)"
  by (auto simp: pb_ok_def wire_pb_def get_put_fields split: option.splits)

fun type_num :: "message_type \<Rightarrow> int option" where
  "type_num MT_UNSPECIFIED = Some 0"
| "type_num MT_PING = Some 1"
| "type_num MT_PONG = Some 2"
| "type_num MT_AUTH_REQUEST = Some 3"
| "type_num MT_AUTH_RESPONSE = Some 4"
| "type_num MT_JOIN_ROOM = Some 5"
| "type_num MT_JOIN_ROOM_ACK = Some 6"
| "type_num MT_TURN = Some 7"
| "type_num MT_MATCH_END = Some 8"
| "type_num (MT_OTHER n) = (if 9 \<le> n \<and> n < 2 ^ 31 then Some n else None)"

definition type_of_num :: "int \<Rightarrow> message_type" where
  "type_of_num n =
     (if n = 0 then MT_UNSPECIFIED else if n = 1 then MT_PING else if n = 2 then MT_PONG
      else if n = 3 then MT_AUTH_REQUEST else if n = 4 then MT_AUTH_RESPONSE
      else if n = 5 then MT_JOIN_ROOM else if n = 6 then MT_JOIN_ROOM_ACK
      else if n = 7 then MT_TURN else if n = 8 then MT_MATCH_END else MT_OTHER n)"

lemma type_of_num: "type_num t = Some n \<Longrightarrow> type_of_num n = t \<and> 0 \<le> n \<and> n < 2 ^ 31"
  by (cases t) (auto simp: type_of_num_def split: if_splits)

definition wire_codec :: codec where
  "wire_codec =
     \<lparr>pb_envelope = wire_pb
        (\<lambda>e. map_option (\<lambda>n. num_fields 1 (word_of_int n) @ byte_fields 2 (e_request_id e)
                 @ byte_fields 3 (e_payload e)) (type_num (e_type e)))
        (\<lambda>fs. \<lparr>e_type = type_of_num (uint (num_of 1 fs)), e_request_id = bytes_of 2 fs,
               e_payload = bytes_of 3 fs\<rparr>),
      pb_ping = wire_pb (\<lambda>m. Some (num_fields 1 (pi_client_ms m))) (\<lambda>fs. \<lparr>pi_client_ms = num_of 1 fs\<rparr>),
      pb_pong = wire_pb
        (\<lambda>m. Some (num_fields 1 (po_client_ms m) @ num_fields 2 (po_server_ms m)))
        (\<lambda>fs. \<lparr>po_client_ms = num_of 1 fs, po_server_ms = num_of 2 fs\<rparr>),
      pb_auth_request = wire_pb
        (\<lambda>m. Some (byte_fields 1 (aq_id_token m) @ num_fields 2 (ucast (aq_version m))))
        (\<lambda>fs. \<lparr>aq_id_token = bytes_of 1 fs, aq_version = ucast (num_of 2 fs)\<rparr>),
      pb_auth_response = wire_pb
        (\<lambda>m. Some (num_fields 1 (if ar_ok m then 1 else 0) @ byte_fields 2 (ar_uid m)
                   @ byte_fields 3 (ar_error m)))
        (\<lambda>fs. \<lparr>ar_ok = (num_of 1 fs \<noteq> 0), ar_uid = bytes_of 2 fs, ar_error = bytes_of 3 fs\<rparr>),
      pb_join_room = wire_pb (\<lambda>m. Some (byte_fields 1 (jr_match_id m))) (\<lambda>fs. \<lparr>jr_match_id = bytes_of 1 fs\<rparr>),
      pb_join_room_ack = wire_pb
        (\<lambda>m. Some (num_fields 1 (if ja_ok m then 1 else 0) @ byte_fields 2 (ja_match_id m)
                   @ byte_fields 3 (ja_role m) @ byte_fields 4 (ja_opponent m) @ byte_fields 5 (ja_error m)))
        (\<lambda>fs. \<lparr>ja_ok = (num_of 1 fs \<noteq> 0), ja_match_id = bytes_of 2 fs, ja_role = bytes_of 3 fs,
               ja_opponent = bytes_of 4 fs, ja_error = bytes_of 5 fs\<rparr>),
      pb_turn = wire_pb
        (\<lambda>m. Some (byte_fields 1 (tu_match_id m) @ num_fields 2 (ucast (tu_index m))
                   @ byte_fields 3 (tu_payload m)))
        (\<lambda>fs. \<lparr>tu_match_id = bytes_of 1 fs, tu_index = ucast (num_of 2 fs), tu_payload = bytes_of 3 fs\<rparr>),
      pb_match_end = wire_pb
        (\<lambda>m. Some (byte_fields 1 (me_match_id m) @ byte_fields 2 (me_winner m)
                   @ num_fields 3 (me_score1 m) @ num_fields 4 (me_score2 m)))
        (\<lambda>fs. \<lparr>me_match_id = bytes_of 1 fs, me_winner = bytes_of 2 fs, me_score1 = num_of 3 fs,
               me_score2 = num_of 4 fs\<rparr>)\<rparr>"

lemma fields_simps [simp]:
  "num_of k [] = 0" "bytes_of k [] = []"
  "num_of k (fs @ num_fields k' v) = (if k' = k then (if v = 0 then num_of k fs else v) else num_of k fs)"
  "num_of k (fs @ byte_fields k' bs) = num_of k fs"
  "bytes_of k (fs @ byte_fields k' bs) = (if k' = k then (if bs = [] then bytes_of k fs else bs) else bytes_of k fs)"
  "bytes_of k (fs @ num_fields k' v) = bytes_of k fs"
  by (simp_all add: num_fields_def byte_fields_def)

declare num_of.simps [simp del] bytes_of.simps [simp del]

lemma field_single [simp]:
  "num_of k (num_fields k' v) = (if k' = k then v else 0)"
  "bytes_of k (byte_fields k' bs) = (if k' = k then bs else [])"
  "num_of k (byte_fields k' bs) = 0"
  "bytes_of k (num_fields k' v) = []"
  by (simp_all add: num_fields_def byte_fields_def num_of.simps bytes_of.simps)

lemma ucast_32_64 [simp]: "(ucast (ucast (x :: 32 word) :: 64 word) :: 32 word) = x"
  by (rule bit_word_eqI) (simp add: bit_ucast_iff)

lemma ucast_32_64_0 [simp]: "(ucast (x :: 32 word) :: 64 word) = 0 \<longleftrightarrow> x = 0"
  by (metis ucast_32_64 ucast_0)

lemma uint_small: "0 \<le> n \<Longrightarrow> n < 2147483648 \<Longrightarrow> uint (word_of_int n :: 64 word) = n"
  by (simp add: uint_word_of_int)

lemma wire_codec_ok:
  "pb_ok (pb_envelope wire_codec)" "pb_ok (pb_ping wire_codec)" "pb_ok (pb_pong wire_codec)"
  "pb_ok (pb_auth_request wire_codec)" "pb_ok (pb_auth_response wire_codec)"
  "pb_ok (pb_join_room wire_codec)" "pb_ok (pb_join_room_ack wire_codec)"
  "pb_ok (pb_turn wire_codec)" "pb_ok (pb_match_end wire_codec)"
  by (auto simp: wire_codec_def type_of_num uint_small append_assoc [symmetric] dest!: type_of_num simp del: append_assoc
      intro!: pb_ok_wire)

end
