(* ===== verification/Mongo_Props.thy ===== *)
theory Mongo_Props
  imports Mongo_Ref Mem_Queries Server_Props Ws_Wire
begin

text \<open>
  What holds of the MongoDB store on every driver that behaves as documented: it keeps the
  contract of the interface, so the server is safe on it; it agrees with the in-memory store;
  presence and cache entries do not outlive their time. The concrete runs use the driver of
  \<open>Mongo_Ref\<close>.
\<close>

section \<open>The contract\<close>



section \<open>The server on MongoDB\<close>

context mongo_driver
begin

lemma match_found:
  assumes "wf c" and "look id_key (docs (mc_db c) collMatches) (Some (BStr i)) = Some d"
  obtains m where "match_doc d m" "m_id m = i" "v_matches (view c) i = Some m"
proof -
  have k: "kdocs id_key (\<lambda>d. \<exists>m. match_doc d m) (docs (mc_db c) collMatches)"
    using assms(1) by (simp add: mongo_wf_def docs_wf_def)
  then obtain m where m: "match_doc d m" "id_key d = Some (BStr i)" using look_good [OF k assms(2)] by blast
  then have "m_id m = i" by (simp add: match_doc_def has_str_def id_key_def)
  moreover have "v_matches (view c) i = Some m"
    using assms(2) match_dec [OF m(1)] by (simp add: mongo_view_def docs_view_def decoded_def)
  ultimately show ?thesis using m(1) that by blast
qed

lemma matches_keyed: "wf c \<Longrightarrow> keyed_matches (view c)"
  unfolding keyed_matches_def
proof (intro allI impI)
  fix i m assume wf: "wf c" and m: "v_matches (view c) i = Some m"
  then obtain d where "look id_key (docs (mc_db c) collMatches) (Some (BStr i)) = Some d"
    by (auto simp: mongo_view_def docs_view_def bind_eq_Some_conv)
  from match_found [OF wf this] m show "m_id m = i" by auto
qed

lemma server_inv_mongo:
  assumes "wf c" and "attempts_sound (ev_uni e) (view c)" and "good_env (mongo_ops dr bc) e"
    and "reachable e w0 w" and "w0 = NewHub c \<or> w0 = NewHubWithStore (mongo_ops dr bc) c"
  shows "server_inv (mongo_ops dr bc) view wf (ev_uni e) w"
proof (rule store_laws.server_inv_reachable [OF store_contract assms(4,3)])
  have "w_db w0 = c" "h_store w0 = None \<or> h_store w0 = Some (mongo_ops dr bc)"
    using assms(5) by (auto simp: NewHubWithStore_def NewHub_def)
  moreover have "room_auth view w0" "hub_wf w0"
    using assms(5) by (auto simp: hub_room_auth hub_wf_NewHub)
  ultimately show "server_inv (mongo_ops dr bc) view wf (ev_uni e) w0"
    using assms(1,2) matches_keyed [OF assms(1)] by (simp add: server_inv_def store_inv_def)
qed

end

text \<open>The server is safe on MongoDB: started on a well-formed database whose attempts are honest, with
  a driver that behaves as documented and may fail any call, after any interleaving of requests
  every member of a room is a player of that match as the database has it, and every stored
  attempt has exactly the score and win flag of its guesses against the stored puzzle.\<close>

theorem mongo_server_safe:
  assumes "mongo_driver dr bc docs" and "mongo_wf docs c0" and "attempts_sound (ev_uni e) (mongo_view bc docs c0)"
    and "good_env (mongo_ops dr bc) e" and "reachable e (NewHubWithStore (mongo_ops dr bc) c0) w"
  shows "(c \<in> set (members m w) \<longrightarrow> cn_uid (w_conn w c) \<noteq> [] \<and>
      (\<exists>mt. v_matches (mongo_view bc docs (w_db w)) m = Some mt \<and> cn_uid (w_conn w c) \<in> set (m_players mt)))
    \<and> (v_attempts (mongo_view bc docs (w_db w)) u d = Some a \<longrightarrow> a_uid a = u \<and> a_date a = d \<and> validDate d \<and>
      (\<exists>p. v_puzzles (mongo_view bc docs (w_db w)) d = Some p
         \<and> (a_score a, a_won a) = Score (ev_uni e) (p_word p) (a_guesses a)))"
  using mongo_driver.server_inv_mongo [OF assms disjI2 [OF refl]]
  by (auto simp: server_inv_def room_auth_def is_player_def store_inv_def attempts_sound_def attempt_sound_def)

section \<open>The two stores agree\<close>

datatype store_write =
    WAuth gotime auth_claims
  | WPuzzle puzzle
  | WAttempt attempt
  | WMatch game_match
  | WScore string string int64

fun run_write :: "'s store_ops \<Rightarrow> store_write \<Rightarrow> 's \<Rightarrow> bool \<times> 's" where
  "run_write ops (WAuth now c) s = (case st_UpsertUserOnFirstAuth ops now c s of (r, s') \<Rightarrow> (\<not> isl r, s'))"
| "run_write ops (WPuzzle p) s = (case st_PutPuzzle ops p s of (r, s') \<Rightarrow> (\<not> isl r, s'))"
| "run_write ops (WAttempt a) s = (case st_UpsertAttempt ops a s of (r, s') \<Rightarrow> (\<not> isl r, s'))"
| "run_write ops (WMatch m) s = (case st_UpsertMatch ops m s of (r, s') \<Rightarrow> (\<not> isl r, s'))"
| "run_write ops (WScore b u sc) s = (case st_SubmitScore ops b u sc s of (r, s') \<Rightarrow> (\<not> isl r, s'))"

text \<open>A list of writes: whether all of them succeeded, and the state after them.\<close>

fun run_writes :: "'s store_ops \<Rightarrow> store_write list \<Rightarrow> 's \<Rightarrow> bool \<times> 's" where
  "run_writes ops [] s = (True, s)"
| "run_writes ops (w # ws) s =
     (case run_write ops w s of (okay, s') \<Rightarrow> (case run_writes ops ws s' of (okay', s'') \<Rightarrow> (okay \<and> okay', s'')))"

fun write_view :: "(gotime \<Rightarrow> gotime) \<Rightarrow> store_write \<Rightarrow> store_view \<Rightarrow> store_view" where
  "write_view tm (WAuth now c) = view_auth (tm now) c"
| "write_view tm (WPuzzle p) = view_put_puzzle p"
| "write_view tm (WAttempt a) = view_put_attempt (timed_attempt tm a)"
| "write_view tm (WMatch m) = view_put_match (timed_match tm m)"
| "write_view tm (WScore b u sc) = view_submit b u sc"

fun dated :: "store_write \<Rightarrow> bool" where
  "dated (WAttempt a) \<longleftrightarrow> length (a_date a) = 10"
| "dated _ \<longleftrightarrow> True"

text \<open>The same write with its instants cut to the millisecond.\<close>

fun ms_write :: "store_write \<Rightarrow> store_write" where
  "ms_write (WAuth now c) = WAuth (floor_ms now) c"
| "ms_write (WAttempt a) = WAttempt (timed_attempt floor_ms a)"
| "ms_write (WMatch m) = WMatch (timed_match floor_ms m)"
| "ms_write w = w"

lemma ms_write_view: "write_view (\<lambda>t. t) (ms_write w) = write_view floor_ms w"
  by (cases w) (simp_all add: fun_eq_iff)

lemma ms_write_dated: "dated (ms_write w) = dated w"
  by (cases w) simp_all

lemma write_op_ran:
  assumes "write_op view ok g f" and "ok s" and "f s = (r, s')"
  shows "ok s' \<and> (\<not> isl r \<longrightarrow> view s' = g (view s))"
  using write_opD(1,3) [OF assms(1,2)] assms(3) by (cases r) auto

context store_laws
begin

lemma run_write_view:
  assumes "ok s" and "dated w" and "run_write ops w s = (okay, s')"
  shows "ok s' \<and> (okay \<longrightarrow> view s' = write_view tm w (view s))"
proof (cases w)
  case (WAuth now c)
  with assms show ?thesis using write_op_ran [OF auth_law assms(1)] by (auto split: prod.splits)
next
  case (WPuzzle p)
  with assms show ?thesis using write_op_ran [OF put_puzzle_law assms(1)] by (auto split: prod.splits)
next
  case (WAttempt a)
  with assms show ?thesis using write_op_ran [OF put_attempt_law assms(1)] by (auto split: prod.splits)
next
  case (WMatch m)
  with assms show ?thesis using write_op_ran [OF put_match_law assms(1)] by (auto split: prod.splits)
next
  case (WScore b u sc)
  with assms show ?thesis using write_op_ran [OF submit_law assms(1)] by (auto split: prod.splits)
qed

lemma run_writes_view:
  assumes "ok s" and "list_all dated ws" and "run_writes ops ws s = (True, s')"
  shows "ok s' \<and> view s' = fold (write_view tm) ws (view s)"
  using assms
proof (induction ws arbitrary: s)
  case (Cons w ws)
  obtain okay s1 where w: "run_write ops w s = (okay, s1)" by fastforce
  with Cons.prems(3) have "okay" "run_writes ops ws s1 = (True, s')" by (auto split: prod.splits)
  with run_write_view [OF Cons.prems(1) _ w] Cons.prems(2) Cons.IH [of s1] show ?case by simp
qed simp

end

lemma mem_run_write:
  "\<not> ms_closed s \<Longrightarrow> \<exists>s'. run_write mem_iface w s = (True, s') \<and> \<not> ms_closed s'"
  by (cases w)
    (auto simp: mem_UpsertUserOnFirstAuth_def mem_PutPuzzle_def mem_UpsertAttempt_def mem_UpsertMatch_def
      mem_SubmitScore_def Let_def split: option.split)

lemma mem_run_writes:
  "\<not> ms_closed s \<Longrightarrow> \<exists>s'. run_writes mem_iface ws s = (True, s')"
proof (induction ws arbitrary: s)
  case (Cons w ws)
  from mem_run_write [OF Cons.prems] obtain s1 where "run_write mem_iface w s = (True, s1)" "\<not> ms_closed s1" by blast
  with Cons.IH [of s1] show ?case by auto
qed simp


section \<open>Presence and cache\<close>

text \<open>
  Documents of these collections have the user id or the key as their \<open>_id\<close>. MongoDB keeps \<open>_id\<close>
  unique in every collection.
\<close>

definition id_docs :: "doc list \<Rightarrow> bool" where
  "id_docs ds \<longleftrightarrow> kdocs id_key (\<lambda>d. \<exists>x. has_str d ''_id'' x) ds"

lemma selects_id: "selects id_key (\<lambda>d. \<exists>x. has_str d ''_id'' x) [(''_id'', BStr x)] (Some (BStr x))"
  by (auto simp: selects_def matches_def field_holds_def id_key_def has_str_def)

text \<open>After an upsert by \<open>_id\<close>, the document with that id, if it is still there, is the one written.\<close>

lemma upsert_by_id:
  assumes docs: "id_docs (docs s c)"
    and writes: "writes docs c (\<lambda>ds. \<exists>d. updates [(''_id'', BStr x)] upd True (docs s c) n d ds) s s'"
    and id_kept: "\<And>ins y. gm_get (apply_update ins upd y) ''_id'' = gm_get y ''_id''"
    and old: "\<And>y. Q (apply_update False upd y)"
    and new: "Q (apply_update True upd [(''_id'', BStr x)])"
    and d: "d \<in> set (docs s' c)"
  shows "\<exists>z. gm_get d ''_id'' = Some (BStr z) \<and> (z = x \<longrightarrow> Q d)"
proof -
  let ?good = "\<lambda>d. \<exists>x. has_str d ''_id'' x" and ?F = "[(''_id'', BStr x)]"
  have ins: "insert_doc i (apply_update True upd ?F) = apply_update True upd ?F" for i
    by (simp add: insert_doc_def id_kept)
  have seed: "seed ?F = ?F" by (simp add: seed_def)
  obtain ds d' where u: "updates ?F upd True (docs s c) n d' ds" and settled: "settles c ds (docs s' c)"
    using writes by (auto simp: writes_def)
  have "kdocs id_key ?good ds \<and> look id_key ds = (look id_key (docs s c))(Some (BStr x) \<mapsto> d') \<and>
    (case look id_key (docs s c) (Some (BStr x)) of
       Some y \<Rightarrow> d' = apply_update False upd y
     | None \<Rightarrow> \<exists>i. d' = insert_doc i (apply_update True upd (seed ?F)))"
    by (rule updates_keyed [OF docs [unfolded id_docs_def] selects_id u])
      (simp_all add: seed ins has_str_def id_key_def id_kept)
  then have ds: "kdocs id_key ?good ds" "look id_key ds (Some (BStr x)) = Some d'" and d': "Q d'"
    using old new by (auto simp: seed ins split: option.splits)
  have "d \<in> set ds" using settled d by (auto simp: settles_def split: if_splits)
  then obtain z where z: "gm_get d ''_id'' = Some (BStr z)" using ds(1) by (auto simp: kdocs_def has_str_def)
  moreover have "Q d" if "z = x"
  proof -
    have "look id_key ds (Some (BStr x)) = Some d"
      using look_Some [OF ds(1)] \<open>d \<in> set ds\<close> z that by (simp add: id_key_def)
    with ds(2) d' show ?thesis by simp
  qed
  ultimately show ?thesis by blast
qed

lemma collect_error: "collect decode m1 m2 ds (Some e) out \<noteq> Inr rows"
  by (induction ds arbitrary: out) (auto split: sum.split)

lemma quiet_docs: "quiet docs s s' \<Longrightarrow> d \<in> set (docs s' c) \<Longrightarrow> d \<in> set (docs s c)"
  by (auto simp: quiet_def settles_def split: if_splits)

lemma on_db_open: "on_db f c = (r, c') \<Longrightarrow> f (mc_db c) = (r, mc_db c') \<and> mc_open c' = mc_open c"
  by (auto simp: on_db_def split: prod.splits)

lemma matches_id:
  "matches ((''_id'', BStr x) # f) d \<Longrightarrow> gm_get d ''_id'' = Some (BStr z) \<Longrightarrow> z = x \<and> matches f d"
  by (auto simp: matches_def field_holds_def)

lemma matches_gt:
  "matches [(k, BDoc [(''$gt'', BTime t)])] d \<Longrightarrow> k \<noteq> ''$or'' \<Longrightarrow> gm_get d k = Some (BTime t') \<Longrightarrow> t < t'"
  by (simp add: matches_def field_holds_def)

lemma floor_ms_less: "floor_ms t < floor_ms t' \<Longrightarrow> t < t'"
  using zdiv_mono1 [of t' t 1000000] by (fastforce simp: floor_ms_def)

context mongo_driver
begin

lemma MarkOnline_wrote:
  assumes "mongo_MarkOnline dr now u ttl c = (Inr (), c1)" and "id_docs (docs (mc_db c) collPresence)"
    and "d \<in> set (docs (mc_db c1) collPresence)"
  shows "\<exists>z. gm_get d ''_id'' = Some (BStr z) \<and>
    (z = u \<longrightarrow> gm_get d ''expireAt'' = Some (BTime (floor_ms (time_add now ttl))))"
proof -
  let ?u = "[(''$set'', BDoc [(''expireAt'', BTime (time_add now ttl))])]"
  obtain n where "dr_UpdateOne dr collPresence [(''_id'', BStr u)] ?u True (mc_db c) = (Inr n, mc_db c1)"
    using assms(1) by (auto simp: mongo_MarkOnline_def split: if_splits prod.splits sum.splits dest!: on_db_open)
  from update_law [OF this] have "writes docs collPresence
      (\<lambda>ds. \<exists>d. updates [(''_id'', BStr u)] (marsh_doc ?u) True (docs (mc_db c) collPresence) (unat n) d ds)
      (mc_db c) (mc_db c1)" by simp
  from upsert_by_id [where docs = docs and c = collPresence, OF assms(2) this _ _ _ assms(3),
      of "\<lambda>d. gm_get d ''expireAt'' = Some (BTime (floor_ms (time_add now ttl)))"]
  show ?thesis by (simp add: apply_update_def)
qed

lemma IsOnline_found:
  assumes "fst (mongo_IsOnline dr now u c) = Inr True"
  shows "\<exists>d. d \<in> set (docs (mc_db c) collPresence)
    \<and> matches [(''_id'', BStr u), (''expireAt'', BDoc [(''$gt'', BTime (floor_ms now))])] d"
proof -
  let ?f = "[(''_id'', BStr u), (''expireAt'', BDoc [(''$gt'', BTime now)])]"
  obtain n s where "dr_CountDocuments dr collPresence ?f (mc_db c) = (Inr n, s)" "0 < sint n"
    using assms by (auto simp: mongo_IsOnline_def split: if_splits prod.splits sum.splits dest!: on_db_open)
  with count_law obtain ds where ds: "settles collPresence (docs (mc_db c) collPresence) ds"
    "0 < length (filter (matches (marsh_doc ?f)) ds)" by fastforce
  then obtain d where "d \<in> set ds" "matches (marsh_doc ?f) d" by (auto simp: filter_empty_conv)
  moreover have "set ds \<subseteq> set (docs (mc_db c) collPresence)" using ds(1) by (auto simp: settles_def split: if_splits)
  ultimately show ?thesis by auto
qed

end

text \<open>Presence does not outlive its time: after a successful MarkOnline, as long as nobody else writes to
  the database (its TTL monitor may delete documents), IsOnline answers true only at instants
  before the mark expires; the mark a user had before, however long, no longer counts.\<close>

theorem mongo_presence_expires:
  assumes "mongo_driver dr bc docs" and "id_docs (docs (mc_db c) collPresence)"
    and "mongo_MarkOnline dr now u ttl c = (Inr (), c1)" and "quiet docs (mc_db c1) (mc_db c2)"
    and "fst (mongo_IsOnline dr now2 u c2) = Inr True"
  shows "now2 < time_add now ttl"
proof -
  obtain d where d: "d \<in> set (docs (mc_db c2) collPresence)"
    "matches [(''_id'', BStr u), (''expireAt'', BDoc [(''$gt'', BTime (floor_ms now2))])] d"
    using mongo_driver.IsOnline_found [OF assms(1,5)] by blast
  obtain z where z: "gm_get d ''_id'' = Some (BStr z)"
    "z = u \<longrightarrow> gm_get d ''expireAt'' = Some (BTime (floor_ms (time_add now ttl)))"
    using mongo_driver.MarkOnline_wrote [OF assms(1,3,2) quiet_docs [OF assms(4) d(1)]] by blast
  from matches_id [OF d(2) z(1)] z(2) have "floor_ms now2 < floor_ms (time_add now ttl)"
    by (auto dest: matches_gt)
  then show ?thesis by (rule floor_ms_less)
qed

context mongo_driver
begin

lemma CacheSet_wrote:
  assumes "mongo_CacheSet dr now k val ttl c = (Inr (), c1)" and "id_docs (docs (mc_db c) collCache)"
    and "d \<in> set (docs (mc_db c1) collCache)"
  shows "\<exists>z. gm_get d ''_id'' = Some (BStr z) \<and>
    (z = k \<longrightarrow> gm_get d ''val'' = Some (BBin val) \<and> gm_get d ''expireAt'' =
       (if sint ttl \<le> 0 then None else Some (BTime (floor_ms (time_add now ttl)))))"
proof -
  let ?u = "if sint ttl \<le> 0 then
              [(''$set'', BDoc [(''val'', BBin val)]), (''$unset'', BDoc [(''expireAt'', BStr [])])]
            else [(''$set'', BDoc [(''val'', BBin val), (''expireAt'', BTime (time_add now ttl))])]"
  obtain n where "dr_UpdateOne dr collCache [(''_id'', BStr k)] ?u True (mc_db c) = (Inr n, mc_db c1)"
    using assms(1) unfolding mongo_CacheSet_def Let_def
    by (auto simp only: split: if_splits prod.splits sum.splits dest!: on_db_open) (auto split: if_splits)
  from update_law [OF this] have "writes docs collCache
      (\<lambda>ds. \<exists>d. updates [(''_id'', BStr k)] (marsh_doc ?u) True (docs (mc_db c) collCache) (unat n) d ds)
      (mc_db c) (mc_db c1)" by simp
  from upsert_by_id [where docs = docs and c = collCache, OF assms(2) this _ _ _ assms(3),
      of "\<lambda>d. gm_get d ''val'' = Some (BBin val) \<and> gm_get d ''expireAt'' =
       (if sint ttl \<le> 0 then None else Some (BTime (floor_ms (time_add now ttl))))"]
  show ?thesis by (simp add: apply_update_def)
qed

lemma CacheGet_found:
  assumes "fst (mongo_CacheGet dr bc now k c) = Inr (v, True)"
  shows "\<exists>d. d \<in> set (docs (mc_db c) collCache) \<and> of_cache bc d = Inr v
    \<and> matches [(''_id'', BStr k), (''$or'', BArr
               [BDoc [(''expireAt'', BDoc [(''$gt'', BTime (floor_ms now))])],
                BDoc [(''expireAt'', BDoc [(''$exists'', BBool False)])]])] d"
proof -
  let ?f = "[(''_id'', BStr k), (''$or'', BArr
               [BDoc [(''expireAt'', BDoc [(''$gt'', BTime now)])],
                BDoc [(''expireAt'', BDoc [(''$exists'', BBool False)])]])]"
  obtain d s where "dr_FindOne dr collCache ?f (mc_db c) = (Inr d, s)" "of_cache bc d = Inr v"
    using assms
    by (auto simp: mongo_CacheGet_def Let_def split: if_splits prod.splits sum.splits dest!: on_db_open)
  with find_one_law [of collCache ?f "mc_db c"] show ?thesis by fastforce
qed

end

text \<open>The cache never serves another value or an expired one: after a successful CacheSet, as long as
  nobody else writes to the database, a hit of CacheGet for the key returns exactly the bytes
  that were set, at an instant before they expire if the ttl is positive. A value that was set
  before under the key with any ttl, or without one, is gone.\<close>

theorem mongo_cache_fresh:
  assumes "mongo_driver dr bc docs" and "id_docs (docs (mc_db c) collCache)"
    and "mongo_CacheSet dr now k val ttl c = (Inr (), c1)" and "quiet docs (mc_db c1) (mc_db c2)"
    and "fst (mongo_CacheGet dr bc now2 k c2) = Inr (v, True)"
  shows "v = val \<and> (0 < sint ttl \<longrightarrow> now2 < time_add now ttl)"
proof -
  obtain d where d: "d \<in> set (docs (mc_db c2) collCache)" "of_cache bc d = Inr v"
    "matches [(''_id'', BStr k), (''$or'', BArr
               [BDoc [(''expireAt'', BDoc [(''$gt'', BTime (floor_ms now2))])],
                BDoc [(''expireAt'', BDoc [(''$exists'', BBool False)])]])] d"
    using mongo_driver.CacheGet_found [OF assms(1,5)] by blast
  obtain z where z: "gm_get d ''_id'' = Some (BStr z)"
    "z = k \<longrightarrow> gm_get d ''val'' = Some (BBin val) \<and> gm_get d ''expireAt'' =
       (if sint ttl \<le> 0 then None else Some (BTime (floor_ms (time_add now ttl))))"
    using mongo_driver.CacheSet_wrote [OF assms(1,3,2) quiet_docs [OF assms(4) d(1)]] by blast
  note m = matches_id [OF d(3) z(1)]
  have "of_cache bc d = Inr val"
    by (rule mongo_driver.cache_dec [OF assms(1)]) (use m z(2) in auto)
  moreover have "floor_ms now2 < floor_ms (time_add now ttl)" if "0 < sint ttl"
    using m z(2) that by (simp add: matches_def field_holds_def)
  ultimately show ?thesis using d(2) floor_ms_less by auto
qed

section \<open>Lists of matches\<close>

context mongo_driver
begin

lemma match_rows:
  assumes wf: "wf c" and "0 < n"
    and find: "find_result (marsh_doc [(''players'', BStr u)])
          \<lparr>fo_sort = [(''createdAt'', BInt (-1))], fo_limit = n, fo_projection = []\<rparr>
          (docs (mc_db c) collMatches) ds"
  shows "\<exists>all. collect (of_match bc) m1 m2 ds None [] = Inr (take (nat n) all)
    \<and> sorted_wrt (\<lambda>m m'. m_created m' \<le> m_created m) all
    \<and> (\<forall>m. m \<in> set all \<longleftrightarrow> u \<in> set (m_players m) \<and> v_matches (view c) (m_id m) = Some m)"
proof -
  let ?ds = "docs (mc_db c) collMatches"
  obtain found where found: "mset found = mset (filter (matches [(''players'', BStr u)]) ?ds)"
    "sorted_docs [(''createdAt'', BInt (-1))] found" "ds = map (project []) (take (nat n) found)"
    using find assms(2) by (auto simp: find_result_def)
  define row where "row d = (case of_match bc d of Inr m \<Rightarrow> m)" for d
  have k: "kdocs id_key (\<lambda>d. \<exists>m. match_doc d m) ?ds" using wf by (simp add: mongo_wf_def docs_wf_def)
  have row: "row d = m" if "match_doc d m" for d m using match_dec [OF that] by (simp add: row_def)
  have set: "d \<in> set found \<longleftrightarrow> d \<in> set ?ds \<and> u \<in> set (m_players m)" if "match_doc d m" for d m
  proof -
    have "set found = set (filter (matches [(''players'', BStr u)]) ?ds)" by (rule mset_eq_setD [OF found(1)])
    moreover have "matches [(''players'', BStr u)] d \<longleftrightarrow> u \<in> set (m_players m)"
      using that by (auto simp: matches_def field_holds_def match_doc_def has_strs_def)
    ultimately show ?thesis by auto
  qed
  have good: "\<exists>m. match_doc d m" if "d \<in> set found" for d
    using mset_eq_setD [OF found(1)] that k by (auto simp: kdocs_def)
  have md: "match_doc d (row d)" if "d \<in> set found" for d using good [OF that] row by auto
  have "collect (of_match bc) m1 m2 ds None [] = Inr (take (nat n) (map row found))"
  proof -
    have "of_match bc (project [] d) = Inr (row d)" if "d \<in> set (take (nat n) found)" for d
      using match_dec [OF md [OF in_set_takeD [OF that]]] by (simp add: project_def)
    then show ?thesis
      unfolding found(3) using collect_decoded [of "take (nat n) found" "of_match bc" "project []" row m1 m2 "[]"]
      by (simp add: take_map)
  qed
  moreover have "sorted_wrt (\<lambda>m m'. m_created m' \<le> m_created m) (map row found)"
  proof -
    have created: "gm_get d ''createdAt'' = Some (BTime (m_created (row d)))" if "d \<in> set found" for d
      using md [OF that] by (simp add: match_doc_def has_time_def)
    then have "same_typed ''createdAt'' found" unfolding same_typed_def by blast
    with found(2) have "sorted_wrt (\<lambda>d d'. sort_value (gm_get d' ''createdAt'') \<le> sort_value (gm_get d ''createdAt'')) found"
      by (simp add: sorted_docs_def)
    then show ?thesis unfolding sorted_wrt_map by (rule sorted_wrt_mono_rel [rotated]) (simp add: created)
  qed
  moreover have "m \<in> set (map row found) \<longleftrightarrow> u \<in> set (m_players m) \<and> v_matches (view c) (m_id m) = Some m" for m
  proof
    assume "m \<in> set (map row found)"
    then obtain d where d: "d \<in> set found" "m = row d" by auto
    with md have m: "match_doc d m" by simp
    with d set have "d \<in> set ?ds" "u \<in> set (m_players m)" by blast+
    moreover have "look id_key ?ds (Some (BStr (m_id m))) = Some d"
      using look_Some [OF k] m \<open>d \<in> set ?ds\<close> by (simp add: id_key_def match_doc_def has_str_def)
    ultimately show "u \<in> set (m_players m) \<and> v_matches (view c) (m_id m) = Some m"
      using match_dec [OF m] by (simp add: mongo_view_def docs_view_def decoded_def)
  next
    assume m: "u \<in> set (m_players m) \<and> v_matches (view c) (m_id m) = Some m"
    then obtain d where d: "look id_key ?ds (Some (BStr (m_id m))) = Some d"
      by (auto simp: mongo_view_def docs_view_def bind_eq_Some_conv)
    from match_found [OF wf d] m have "match_doc d m" by auto
    moreover have "d \<in> set ?ds" using d look_Some [OF k] by blast
    ultimately show "m \<in> set (map row found)" using set m row by (metis image_eqI list.set_map)
  qed
  ultimately show ?thesis by blast
qed

lemma ListUserMatches_rows:
  assumes "wf c" and "fst (mongo_ListUserMatches dr bc u n c) = Inr out" and "0 < n"
  shows "\<exists>all. out = take (nat n) all \<and> sorted_wrt (\<lambda>m m'. m_created m' \<le> m_created m) all
    \<and> (\<forall>m. m \<in> set all \<longleftrightarrow> u \<in> set (m_players m) \<and> v_matches (view c) (m_id m) = Some m)"
proof -
  let ?f = "[(''players'', BStr u)]" and ?o = "\<lparr>fo_sort = [(''createdAt'', BInt (-1))], fo_limit = n, fo_projection = []\<rparr>"
  obtain r s where call: "dr_Find dr collMatches ?f ?o (mc_db c) = (r, s)"
    "on_db (dr_Find dr collMatches ?f ?o) c = (r, c\<lparr>mc_db := s\<rparr>)" by (rule on_dbE)
  obtain ds err ce where r: "r = Inr (ds, err, ce)"
    "collect (of_match bc) ''mongodb: list user matches decode'' ''mongodb: list user matches cursor'' ds err [] = Inr out"
    using assms(2,3) call(2)
    by (auto simp: mongo_ListUserMatches_def split: if_splits sum.splits prod.splits)
  then have "err = None" by (cases err) (auto simp: collect_error)
  with find_law [OF call(1)] r(1) have "find_result (marsh_doc ?f) ?o (docs (mc_db c) collMatches) ds"
    by (auto simp: settles_def)
  from match_rows [OF assms(1,3) this, of "''mongodb: list user matches decode''"
      "''mongodb: list user matches cursor''"] r(2) \<open>err = None\<close>
  show ?thesis by auto
qed

end

text \<open>A player's history on MongoDB: a successful ListUserMatches returns only stored matches in which the
  user plays, newest first, at most n of them and none for n <= 0, and every match of the user
  that it leaves out is no newer than any it returns.\<close>

theorem mongo_ListUserMatches_spec:
  assumes "mongo_driver dr bc docs" and "mongo_wf docs c" and "fst (mongo_ListUserMatches dr bc u n c) = Inr out"
  shows "sorted_wrt (\<lambda>m m'. m_created m' \<le> m_created m) out
    \<and> (\<forall>m \<in> set out. u \<in> set (m_players m) \<and> v_matches (mongo_view bc docs c) (m_id m) = Some m)
    \<and> length out \<le> nat n
    \<and> (\<forall>k m. 0 < n \<and> v_matches (mongo_view bc docs c) k = Some m \<and> u \<in> set (m_players m) \<longrightarrow>
         m \<in> set out \<or> (\<forall>m' \<in> set out. m_created m \<le> m_created m'))"
proof (cases "0 < n")
  case False
  then have "out = []" using assms(3) by (auto simp: mongo_ListUserMatches_def split: if_splits)
  with False show ?thesis by simp
next
  case True
  from mongo_driver.ListUserMatches_rows [OF assms True]
  obtain all where out: "out = take (nat n) all" and sorted: "sorted_wrt (\<lambda>m m'. m_created m' \<le> m_created m) all"
    and all: "\<And>m. m \<in> set all \<longleftrightarrow> u \<in> set (m_players m) \<and> v_matches (mongo_view bc docs c) (m_id m) = Some m"
    by blast
  have "m \<in> set out \<or> (\<forall>m' \<in> set out. m_created m \<le> m_created m')"
    if "v_matches (mongo_view bc docs c) k = Some m" "u \<in> set (m_players m)" for k m
  proof -
    have "m_id m = k"
      using mongo_driver.matches_keyed [OF assms(1,2)] that(1) by (simp add: keyed_matches_def)
    with that all have "m \<in> set all" by simp
    then show ?thesis
      using sorted_take_drop [OF sorted, of _ "nat n" m] unfolding out
      by (metis append_take_drop_id Un_iff set_append)
  qed
  moreover have "sorted_wrt (\<lambda>m m'. m_created m' \<le> m_created m) out"
    unfolding out by (rule take_sorted_wrt [OF sorted])
  moreover have "u \<in> set (m_players m) \<and> v_matches (mongo_view bc docs c) (m_id m) = Some m" if "m \<in> set out" for m
    using that all by (auto simp: out dest: in_set_takeD)
  moreover have "length out \<le> nat n" by (simp add: out)
  ultimately show ?thesis by blast
qed

section \<open>Closing\<close>

text \<open>A closed client does nothing: after Close every operation answers ErrClosed without touching
  the database, whatever the driver does, and a second Close succeeds and has no effect.\<close>

theorem mongo_close_final:
  "let c' = snd (mongo_Close dr c) in
     mongo_UpsertUserOnFirstAuth dr bc now claims c' = (Inl ErrClosed, c') \<and> mongo_GetUser dr bc u c' = (Inl ErrClosed, c')
   \<and> mongo_TouchLastSeen dr u now c' = (Inl ErrClosed, c') \<and> mongo_GetPuzzle dr bc d c' = (Inl ErrClosed, c')
   \<and> mongo_PutPuzzle dr bc p c' = (Inl ErrClosed, c') \<and> mongo_GetAttempt dr bc u d c' = (Inl ErrClosed, c')
   \<and> mongo_UpsertAttempt dr bc a c' = (Inl ErrClosed, c') \<and> mongo_GetMatch dr bc i c' = (Inl ErrClosed, c')
   \<and> mongo_UpsertMatch dr bc m c' = (Inl ErrClosed, c') \<and> mongo_ListUserMatches dr bc u n c' = (Inl ErrClosed, c')
   \<and> mongo_SubmitScore dr b u sc c' = (Inl ErrClosed, c') \<and> mongo_TopN dr bc b n c' = (Inl ErrClosed, c')
   \<and> mongo_MarkOnline dr now u ttl c' = (Inl ErrClosed, c') \<and> mongo_IsOnline dr now u c' = (Inl ErrClosed, c')
   \<and> mongo_CacheGet dr bc now k c' = (Inl ErrClosed, c') \<and> mongo_CacheSet dr now k v ttl c' = (Inl ErrClosed, c')
   \<and> mongo_Ping dr c' = (Inl ErrClosed, c') \<and> mongo_Export dr bc enc c' w = ((Inl ErrClosed, w), c')
   \<and> mongo_Close dr c' = (Inr (), c')"
proof -
  have "\<not> mc_open (snd (mongo_Close dr c))"
    by (simp add: mongo_Close_def on_db_def split: prod.split)
  then show ?thesis
    by (simp add: Let_def mongo_UpsertUserOnFirstAuth_def mongo_GetUser_def mongo_GetPuzzle_def mongo_GetAttempt_def
        mongo_GetMatch_def find_one_def mongo_TouchLastSeen_def mongo_PutPuzzle_def mongo_UpsertAttempt_def
        mongo_UpsertMatch_def replace_one_def mongo_ListUserMatches_def mongo_SubmitScore_def mongo_TopN_def
        mongo_MarkOnline_def mongo_IsOnline_def mongo_CacheGet_def mongo_CacheSet_def mongo_Ping_def mongo_Export_def
        mongo_Close_def)
qed

section \<open>Concrete runs\<close>

definition ref_new :: "mem_db mclient" where
  "ref_new = \<lparr>mc_open = True, mc_db = (\<lambda>c. [])\<rparr>"

lemmas ref_run =
  ref_new_def ref_driver_def ref_update_def on_db_def change_first.simps apply_update_def insert_doc_def seed_def
  matches_def field_holds_def Let_def

lemma ref_new_wf: "mongo_wf (\<lambda>s. s) ref_new"
  by (simp add: ref_new_def mongo_wf_def docs_wf_def kdocs_def)

lemma ref_new_view: "mongo_view bc (\<lambda>s. s) ref_new = mem_view mem_New"
  by (rule store_view.equality)
    (simp_all add: ref_new_def mongo_view_def docs_view_def look_def mem_view_def mem_New_def board_of_def fun_eq_iff)

lemma ref_new_ids: "id_docs (mc_db ref_new c)"
  by (simp add: ref_new_def id_docs_def kdocs_def)

definition ref_marked :: "mem_db mclient" where
  "ref_marked = snd (mongo_MarkOnline ref_driver 5000000 ''u1'' 2000000 ref_new)"

theorem mongo_presence_expires_witness:
  "fst (mongo_IsOnline ref_driver 6000000 ''u1'' ref_marked) = Inr True \<and> (6000000 :: int) < time_add 5000000 2000000"
proof -
  have mark: "mongo_MarkOnline ref_driver 5000000 ''u1'' 2000000 ref_new = (Inr (), ref_marked)"
    by (simp add: ref_marked_def mongo_MarkOnline_def ref_run)
  have on: "fst (mongo_IsOnline ref_driver 6000000 ''u1'' ref_marked) = Inr True"
    by (simp add: ref_marked_def mongo_IsOnline_def mongo_MarkOnline_def ref_run collPresence_def floor_ms_def
        time_add_def)
  from mongo_presence_expires [OF ref.mongo_driver_axioms _ mark quiet_refl on] on show ?thesis
    by (simp add: ref_new_ids)
qed

definition ref_cached :: "mem_db mclient" where
  "ref_cached = snd (mongo_CacheSet ref_driver 5000000 ''k'' ''hi'' 2000000 ref_new)"

theorem mongo_cache_fresh_witness:
  "\<exists>v. fst (mongo_CacheGet ref_driver ref_codec 6000000 ''k'' ref_cached) = Inr (v, True)
     \<and> v = ''hi'' \<and> (6000000 :: int) < time_add 5000000 2000000"
proof -
  have set: "mongo_CacheSet ref_driver 5000000 ''k'' ''hi'' 2000000 ref_new = (Inr (), ref_cached)"
    by (simp add: ref_cached_def mongo_CacheSet_def ref_run)
  have hit: "fst (mongo_CacheGet ref_driver ref_codec 6000000 ''k'' ref_cached) = Inr (''hi'', True)"
    by (simp add: ref_cached_def mongo_CacheGet_def mongo_CacheSet_def ref_run collCache_def floor_ms_def
        time_add_def ref_codec_def)
  from mongo_cache_fresh [OF ref.mongo_driver_axioms _ set quiet_refl hit] hit show ?thesis
    by (simp add: ref_new_ids)
qed

definition ref_writes_list :: "store_write list" where
  "ref_writes_list = [WAuth 1500000 (sample_claims ''u1''), WScore ''b'' ''u1'' 7, WScore ''b'' ''u1'' 3]"


definition ref_history :: "mem_db mclient" where
  "ref_history = snd (run_writes (mongo_ops ref_driver ref_codec)
     [WMatch (sample_match ''a'' 10000000 [''u1'', ''u2'']), WMatch (sample_match ''b'' 20000000 [''u1'', ''u2''])] ref_new)"

theorem mongo_ListUserMatches_spec_witness:
  "fst (mongo_ListUserMatches ref_driver ref_codec ''u1'' 1 ref_history) = Inr [sample_match ''b'' 20000000 [''u1'', ''u2'']]
   \<and> v_matches (mongo_view ref_codec (\<lambda>s. s) ref_history) ''b'' = Some (sample_match ''b'' 20000000 [''u1'', ''u2''])"
proof -
  let ?ws = "[WMatch (sample_match ''a'' 10000000 [''u1'', ''u2'']), WMatch (sample_match ''b'' 20000000 [''u1'', ''u2''])]"
  have ran: "run_writes (mongo_ops ref_driver ref_codec) ?ws ref_new = (True, ref_history)"
    by (simp add: ref_history_def mongo_UpsertMatch_def replace_one_def ref_run split: prod.split)
  have wf: "mongo_wf (\<lambda>s. s) ref_history"
    using store_laws.run_writes_view [OF ref.store_contract ref_new_wf _ ran] by simp
  have out: "fst (mongo_ListUserMatches ref_driver ref_codec ''u1'' 1 ref_history) =
      Inr [sample_match ''b'' 20000000 [''u1'', ''u2'']]"
    by (simp add: ref_history_def mongo_UpsertMatch_def replace_one_def ref_run mongo_ListUserMatches_def coll_defs
        ref_find_def ref_codec_def sample_match_def floor_ms_def replacement_def project_def)
  from mongo_ListUserMatches_spec [OF ref.mongo_driver_axioms wf out] out show ?thesis
    by (simp add: sample_match_def)
qed

text \<open>A database with one honest attempt, and the server on it after an anonymous connection.\<close>

definition ref_attempt :: attempt where
  "ref_attempt = submitted_attempt (\<lambda>s. s) ''ann'' sample_request sample_now sample_puzzle"

definition ref_seeded :: "mem_db mclient" where
  "ref_seeded = snd (run_writes (mongo_ops ref_driver ref_codec) [WPuzzle sample_puzzle, WAttempt ref_attempt] ref_new)"

definition ref_env :: "mem_db mclient env" where
  "ref_env =
     \<lparr>ev_router = \<lparr>rt_web = ''/web'', rt_ws_verifier = None, rt_store = Some (mongo_ops ref_driver ref_codec),
                   rt_verifier = None\<rparr>,
      ev_uni = (\<lambda>s. s), ev_codec = wire_codec, ev_files = (\<lambda>_. writeError 404 ''not found'')\<rparr>"

lemma ref_seeded_view:
  "mongo_wf (\<lambda>s. s) ref_seeded" "mongo_view ref_codec (\<lambda>s. s) ref_seeded =
     view_put_attempt (timed_attempt floor_ms ref_attempt) (view_put_puzzle sample_puzzle (mem_view mem_New))"
proof -
  let ?ws = "[WPuzzle sample_puzzle, WAttempt ref_attempt]"
  have "run_writes (mongo_ops ref_driver ref_codec) ?ws ref_new = (True, ref_seeded)"
    by (simp add: ref_seeded_def mongo_PutPuzzle_def mongo_UpsertAttempt_def replace_one_def ref_run split: prod.split)
  from store_laws.run_writes_view [OF ref.store_contract ref_new_wf _ this]
  show "mongo_wf (\<lambda>s. s) ref_seeded" "mongo_view ref_codec (\<lambda>s. s) ref_seeded =
     view_put_attempt (timed_attempt floor_ms ref_attempt) (view_put_puzzle sample_puzzle (mem_view mem_New))"
    by (simp_all add: ref_new_view ref_attempt_def sample_request_def)
qed

lemma ref_seeded_sound: "attempts_sound (\<lambda>s. s) (mongo_view ref_codec (\<lambda>s. s) ref_seeded)"
proof -
  have "validDate ''2025-11-29''" using sample_acceptable by (simp add: acceptable_def sample_request_def)
  then show ?thesis
    by (auto simp: ref_seeded_view attempts_sound_def attempt_sound_def view_put_puzzle_def ref_attempt_def
        sample_request_def sample_puzzle_def mem_view_def mem_New_def)
qed

definition ref_world :: "mem_db mclient world" where
  "ref_world = snd (open_conn (ev_codec ref_env) (ws_verifier (ev_router ref_env) 0) None (ReadBinary []) None
     (NewHubWithStore (mongo_ops ref_driver ref_codec) ref_seeded))"

theorem mongo_server_safe_witness:
  "\<exists>a. v_attempts (mongo_view ref_codec (\<lambda>s. s) (w_db ref_world)) ''ann'' ''2025-11-29'' = Some a
     \<and> (a_score a, a_won a) = Score (\<lambda>s. s) ''league'' (a_guesses a)"
proof -
  have good: "good_env (mongo_ops ref_driver ref_codec) ref_env"
    by (simp add: good_env_def ref_env_def)
  have "reachable ref_env (NewHubWithStore (mongo_ops ref_driver ref_codec) ref_seeded) ref_world"
    unfolding ref_world_def by (blast intro: Reach_step Reach_init Step_Open)
  moreover have "attempts_sound (ev_uni ref_env) (mongo_view ref_codec (\<lambda>s. s) ref_seeded)"
    using ref_seeded_sound by (simp add: ref_env_def)
  moreover have db: "w_db ref_world = ref_seeded"
    by (simp add: ref_world_def open_conn_def ref_env_def ws_verifier_def new_conn_def register_def NewHubWithStore_def
        NewHub_def Let_def)
  moreover have a: "v_attempts (mongo_view ref_codec (\<lambda>s. s) ref_seeded) ''ann'' ''2025-11-29''
      = Some (timed_attempt floor_ms ref_attempt)" "v_puzzles (mongo_view ref_codec (\<lambda>s. s) ref_seeded) ''2025-11-29''
      = Some sample_puzzle"
    by (simp_all add: ref_seeded_view ref_attempt_def sample_request_def view_put_puzzle_def sample_puzzle_def)
  ultimately show ?thesis
    using mongo_server_safe [OF ref.mongo_driver_axioms ref_seeded_view(1) _ good,
        of ref_world 0 "''m''" "''ann''" "''2025-11-29''" "timed_attempt floor_ms ref_attempt"]
    by (simp add: sample_puzzle_def ref_env_def)
qed

end
