(* ===== verification/Ws_Props.thy ===== *)
theory Ws_Props
  imports Server_Props
begin

text \<open>
  The properties of the sync-PvP handlers, on a hub with the in-memory store: every branch of
  JOIN_ROOM, TURN and MATCH_END, the ping, and scenarios that show what the handlers do not
  guarantee.
\<close>

section \<open>Joining\<close>

definition may_join :: "codec \<Rightarrow> nat \<Rightarrow> envelope \<Rightarrow> mem_store world \<Rightarrow> string \<Rightarrow> game_match \<Rightarrow> bool" where
  "may_join cdc c env w m mt \<longleftrightarrow>
     cn_uid (w_conn w c) \<noteq> [] \<and> m \<noteq> []
     \<and> unmarshal (pb_join_room cdc) (e_payload env) = Inr \<lparr>jr_match_id = m\<rparr>
     \<and> gm_get (ms_matches (w_db w)) m = Some mt \<and> cn_uid (w_conn w c) \<in> set (m_players mt)"

lemma mem_GetMatch_open:
  "\<not> ms_closed db \<Longrightarrow> mem_GetMatch m db =
     (case gm_get (ms_matches db) m of Some mt \<Rightarrow> Inr mt | None \<Rightarrow> Inl ErrNotFound, db)"
  by (auto simp: mem_GetMatch_def split: option.split)

lemma join_check_may_join:
  assumes "h_store w = Some mem_iface" and "\<not> ms_closed (w_db w)"
  shows "may_join cdc c env w m mt \<Longrightarrow>
      join_check cdc c env w =
        (Inr (m, roleOf (cn_uid (w_conn w c)) (m_players mt), opponentOf (cn_uid (w_conn w c)) (m_players mt)), w)"
    and "(\<And>m mt. \<not> may_join cdc c env w m mt) \<Longrightarrow>
      (\<exists>err. join_check cdc c env w = (Inl (Inl err), w))
      \<or> (\<exists>m msg. join_check cdc c env w = (Inl (Inr (ackJoin cdc (e_request_id env) False m [] [] msg)), w))"
proof -
  assume "may_join cdc c env w m mt"
  then show "join_check cdc c env w =
      (Inr (m, roleOf (cn_uid (w_conn w c)) (m_players mt), opponentOf (cn_uid (w_conn w c)) (m_players mt)), w)"
    using assms by (auto simp: join_check_def may_join_def mem_GetMatch_open Let_def)
next
  assume no: "\<And>m mt. \<not> may_join cdc c env w m mt"
  show "(\<exists>err. join_check cdc c env w = (Inl (Inl err), w))
      \<or> (\<exists>m msg. join_check cdc c env w = (Inl (Inr (ackJoin cdc (e_request_id env) False m [] [] msg)), w))"
  proof (cases "unmarshal (pb_join_room cdc) (e_payload env)")
    case (Inl err)
    then show ?thesis using assms by (auto simp: join_check_def)
  next
    case (Inr req)
    then have "unmarshal (pb_join_room cdc) (e_payload env) = Inr \<lparr>jr_match_id = jr_match_id req\<rparr>" by simp
    then show ?thesis
      using assms no [of "jr_match_id req"] Inr
      by (auto simp: join_check_def may_join_def mem_GetMatch_open Let_def split: option.split)
  qed
qed

text \<open>C21: JOIN_ROOM on a hub with an open store succeeds exactly for an authenticated connection whose
  user is a player of the existing match it names; the answer then carries the role ("p1" for
  the first player, "p2" otherwise) and the first other player, the connection becomes a member
  of that match's room, once, and no other room changes. In every other case the connection
  gets a negative acknowledgement or an error, and nothing changes at all.\<close>

theorem handleJoinRoom_spec:
  assumes st: "h_store w = Some mem_iface" "\<not> ms_closed (w_db w)" and wf: "hub_wf w" "c < w_nconn w"
  shows "(\<exists>m mt. may_join cdc c env w m mt
        \<and> fst (handleJoinRoom cdc now c env w) =
            Inr (ackJoin cdc (e_request_id env) True m
                  (if hd (m_players mt) = cn_uid (w_conn w c) then ''p1'' else ''p2'')
                  (case filter (\<lambda>p. p \<noteq> cn_uid (w_conn w c)) (m_players mt) of [] \<Rightarrow> [] | p # _ \<Rightarrow> p) [])
        \<and> cn_match (w_conn (snd (handleJoinRoom cdc now c env w)) c) = m
        \<and> (\<forall>m'. members m' (snd (handleJoinRoom cdc now c env w)) =
             (if m' = m \<and> c \<notin> set (members m w) then members m w @ [c] else members m' w)))
   \<or> ((\<nexists>m mt. may_join cdc c env w m mt)
        \<and> snd (handleJoinRoom cdc now c env w) = w
        \<and> ((\<exists>err. fst (handleJoinRoom cdc now c env w) = Inl err)
           \<or> (\<exists>m msg. fst (handleJoinRoom cdc now c env w) =
                  Inr (ackJoin cdc (e_request_id env) False m [] [] msg))))"
proof (cases "\<exists>m mt. may_join cdc c env w m mt")
  case True
  then obtain m mt where j: "may_join cdc c env w m mt" by blast
  then have m: "m \<noteq> []" and p: "cn_uid (w_conn w c) \<in> set (m_players mt)" by (simp_all add: may_join_def)
  have h: "handleJoinRoom cdc now c env w =
      (Inr (ackJoin cdc (e_request_id env) True m (roleOf (cn_uid (w_conn w c)) (m_players mt))
         (opponentOf (cn_uid (w_conn w c)) (m_players mt)) []), enter_room now c m w)"
    using join_check_may_join(1) [OF st j] by (simp add: handleJoinRoom_eq)
  show ?thesis
    using j p by (intro disjI1 exI [of _ m] exI [of _ mt])
      (simp add: h hub_wf_enter_room(2) [OF wf m] roleOf_eq opponentOf_eq)
next
  case False
  then have "\<And>m mt. \<not> may_join cdc c env w m mt" by blast
  from join_check_may_join(2) [OF st this]
  consider (err) err where "join_check cdc c env w = (Inl (Inl err), w)"
    | (ack) m msg where "join_check cdc c env w = (Inl (Inr (ackJoin cdc (e_request_id env) False m [] [] msg)), w)"
    by blast
  then show ?thesis
  proof cases
    case err
    with False show ?thesis by (intro disjI2) (simp add: handleJoinRoom_eq)
  next
    case ack
    then have h: "handleJoinRoom cdc now c env w = (Inr (ackJoin cdc (e_request_id env) False m [] [] msg), w)"
      by (simp add: handleJoinRoom_eq)
    show ?thesis unfolding h fst_conv snd_conv using False by blast
  qed
qed

section \<open>Turns\<close>

lemma set_peers: "set (peers m c w) = set (members m w) - {c}"
  by (auto simp: peers_def members_def split: option.split)


section \<open>The end of a match\<close>

definition score_effect :: "string \<Rightarrow> string \<Rightarrow> int64 \<Rightarrow> store_view \<Rightarrow> store_view" where
  "score_effect date uid sc v = view_submit alltime_board uid sc (view_submit (daily_board date) uid sc v)"

definition match_end_effect :: "match_end \<Rightarrow> gotime \<Rightarrow> game_match \<Rightarrow> store_view \<Rightarrow> store_view" where
  "match_end_effect req now mt v =
     (let v = view_put_match (ended_match req now mt) v;
          v = (if m_players mt \<noteq> [] \<and> 0 < sint (me_score1 req)
               then score_effect (m_date mt) (m_players mt ! 0) (me_score1 req) v else v)
      in if 1 < length (m_players mt) \<and> 0 < sint (me_score2 req)
         then score_effect (m_date mt) (m_players mt ! 1) (me_score2 req) v else v)"

context store_strict
begin

lemma submit_both_view:
  assumes "ok s" and "opened s"
  shows "ok (submit_both ops d u sc s) \<and> opened (submit_both ops d u sc s)
    \<and> view (submit_both ops d u sc s) = score_effect d u sc (view s)"
proof -
  let ?s = "snd (st_SubmitScore ops (daily_board d) u sc s)"
  have s: "ok ?s" "opened ?s" "view ?s = view_submit (daily_board d) u sc (view s)"
    using submit_view [OF assms] write_opD(1) [OF submit_law assms(1)] assms(2) by (simp_all add: stays_opened)
  have "submit_both ops d u sc s = snd (st_SubmitScore ops alltime_board u sc ?s)"
    by (simp add: submit_both_def Let_def daily_board_def alltime_board_def)
  then show ?thesis
    using submit_view [OF s(1,2)] write_opD(1) [OF submit_law s(1)] s
    by (simp add: stays_opened score_effect_def)
qed

text \<open>The store calls of \<open>handleMatchEnd\<close> after the checks.\<close>

lemma end_store_view:
  assumes "ok s" and "opened s"
    and s1_def: "s1 = snd (st_UpsertMatch ops (ended_match req now mt) s)"
    and s2_def: "s2 = (if length (m_players mt) \<ge> 1 \<and> 0 < sint (me_score1 req)
                 then submit_both ops (m_date mt) (m_players mt ! 0) (me_score1 req) s1 else s1)"
    and s3_def: "s3 = (if length (m_players mt) \<ge> 2 \<and> 0 < sint (me_score2 req)
                 then submit_both ops (m_date mt) (m_players mt ! 1) (me_score2 req) s2 else s2)"
  shows "ok s3 \<and> opened s3 \<and> view s3 = match_end_effect req now mt (view s)"
proof -
  have s1: "ok s1 \<and> opened s1 \<and> view s1 = view_put_match (ended_match req now mt) (view s)"
    using put_match_view [OF assms(1,2)] write_opD(1) [OF put_match_law assms(1)] assms(2)
    by (simp add: s1_def stays_opened)
  have ge: "length (m_players mt) \<ge> 1 \<longleftrightarrow> m_players mt \<noteq> []" "length (m_players mt) \<ge> 2 \<longleftrightarrow> 1 < length (m_players mt)"
    by (auto simp: Suc_le_eq numeral_2_eq_2)
  have s2: "ok s2 \<and> opened s2 \<and> view s2 = (if m_players mt \<noteq> [] \<and> 0 < sint (me_score1 req)
      then score_effect (m_date mt) (m_players mt ! 0) (me_score1 req) (view s1) else view s1)"
    using s1 submit_both_view [of s1] by (simp only: s2_def ge) (simp split: if_split)
  have "ok s3 \<and> opened s3 \<and> view s3 = (if 1 < length (m_players mt) \<and> 0 < sint (me_score2 req)
      then score_effect (m_date mt) (m_players mt ! 1) (me_score2 req) (view s2) else view s2)"
    using s2 submit_both_view [of s2] by (simp only: s3_def ge) (simp split: if_split)
  then show ?thesis using s1 s2 by (simp add: match_end_effect_def Let_def)
qed

end

definition may_end :: "codec \<Rightarrow> nat \<Rightarrow> envelope \<Rightarrow> mem_store world \<Rightarrow> match_end \<Rightarrow> game_match \<Rightarrow> bool" where
  "may_end cdc c env w req mt \<longleftrightarrow>
     cn_match (w_conn w c) \<noteq> [] \<and> unmarshal (pb_match_end cdc) (e_payload env) = Inr req
     \<and> me_match_id req = cn_match (w_conn w c)
     \<and> gm_get (ms_matches (w_db w)) (cn_match (w_conn w c)) = Some mt
     \<and> (me_winner req = [] \<or> me_winner req \<in> set (m_players mt))"

lemma handleMatchEnd_accepted:
  assumes st: "h_store w = Some mem_iface" "\<not> ms_closed (w_db w)" and wf: "mem_wf (w_db w)"
    and e: "may_end cdc c env w req mt"
  shows "\<exists>db. handleMatchEnd cdc now c env w =
            (Inr env, broadcastRoom cdc (cn_match (w_conn w c)) env c (w\<lparr>w_db := db\<rparr>))
        \<and> mem_view db = match_end_effect req now mt (mem_view (w_db w))"
proof -
  obtain s1 where put: "st_UpsertMatch mem_iface (ended_match req now mt) (w_db w) = (Inr (), s1)"
    using st(2) by (simp add: mem_UpsertMatch_def)
  have get: "st_GetMatch mem_iface (cn_match (w_conn w c)) (w_db w) = (Inr mt, w_db w)"
    using e st(2) by (simp add: mem_GetMatch_open may_end_def)
  define s2 where "s2 = (if length (m_players mt) \<ge> 1 \<and> 0 < sint (me_score1 req)
      then submit_both mem_iface (m_date mt) (m_players mt ! 0) (me_score1 req) s1 else s1)"
  define s3 where "s3 = (if length (m_players mt) \<ge> 2 \<and> 0 < sint (me_score2 req)
      then submit_both mem_iface (m_date mt) (m_players mt ! 1) (me_score2 req) s2 else s2)"
  have "s1 = snd (st_UpsertMatch mem_iface (ended_match req now mt) (w_db w))" by (simp only: put snd_conv)
  then have "mem_view s3 = match_end_effect req now mt (mem_view (w_db w))"
    by (rule mem.end_store_view [OF wf st(2) _ s2_def s3_def, THEN conjunct2, THEN conjunct2])
  moreover have "handleMatchEnd cdc now c env w =
      (Inr env, broadcastRoom cdc (cn_match (w_conn w c)) env c (w\<lparr>w_db := s3\<rparr>))"
    using e st get put by (auto simp: handleMatchEnd_def may_end_def ended_match_def [symmetric]
        Let_def s2_def s3_def simp del: mem_view_simps mem_ops_simps)
  ultimately show ?thesis by blast
qed

text \<open>C20: MATCH_END with an open store is accepted exactly when the sender has joined a match, names
  that match, the match exists, and the winner is empty or one of its players. Then the match
  is recorded as ended with that winner and end time and its turn count set to the larger score,
  the positive scores are entered for the first and the second player on the daily and the
  all-time board, and the frame goes to every other member of the room and back to the sender.
  In every other case the sender gets an error and nothing changes.\<close>

theorem handleMatchEnd_spec:
  assumes st: "h_store w = Some mem_iface" "\<not> ms_closed (w_db w)" and wf: "mem_wf (w_db w)"
  shows "(\<exists>req mt db. may_end cdc c env w req mt
        \<and> handleMatchEnd cdc now c env w =
            (Inr env, broadcastRoom cdc (cn_match (w_conn w c)) env c (w\<lparr>w_db := db\<rparr>))
        \<and> mem_view db = match_end_effect req now mt (mem_view (w_db w)))
   \<or> ((\<nexists>req mt. may_end cdc c env w req mt)
        \<and> (\<exists>err. handleMatchEnd cdc now c env w = (Inl err, w)))"
proof (cases "\<exists>req mt. may_end cdc c env w req mt")
  case True
  then show ?thesis using handleMatchEnd_accepted [OF st wf] by blast
next
  case False
  then show ?thesis
    using st by (auto simp: handleMatchEnd_def may_end_def mem_GetMatch_open split: sum.split option.split)
qed

end
