(* ===== verification/Ws_Scenes.thy ===== *)
theory Ws_Scenes
  imports Ws_Props Ws_Wire
begin

text \<open>
  Concrete runs of the server: connections that authenticate, join matches, take turns and end
  matches, as frames in the wire format of \<open>Ws_Wire\<close>. They witness the theorems about the
  server and show what the handlers do not guarantee. Every world here is reachable by steps
  of the server; its parts are computed by rewriting, frame by frame.
\<close>

section \<open>Frames\<close>

definition frame :: "envelope \<Rightarrow> bytes" where
  "frame env = fst (marshal (pb_envelope wire_codec) env)"

definition auth_env :: "string \<Rightarrow> envelope" where
  "auth_env tok = \<lparr>e_type = MT_AUTH_REQUEST, e_request_id = ''r0'',
     e_payload = fst (marshal (pb_auth_request wire_codec) \<lparr>aq_id_token = tok, aq_version = 1\<rparr>)\<rparr>"

definition join_env :: "string \<Rightarrow> envelope" where
  "join_env m = \<lparr>e_type = MT_JOIN_ROOM, e_request_id = ''r1'',
     e_payload = fst (marshal (pb_join_room wire_codec) \<lparr>jr_match_id = m\<rparr>)\<rparr>"

definition turn_env :: "string \<Rightarrow> envelope" where
  "turn_env m = \<lparr>e_type = MT_TURN, e_request_id = [],
     e_payload = fst (marshal (pb_turn wire_codec) \<lparr>tu_match_id = m, tu_index = 1, tu_payload = ''go''\<rparr>)\<rparr>"

definition end_env :: "string \<Rightarrow> string \<Rightarrow> int64 \<Rightarrow> int64 \<Rightarrow> envelope" where
  "end_env m winner s1 s2 = \<lparr>e_type = MT_MATCH_END, e_request_id = ''r9'',
     e_payload = fst (marshal (pb_match_end wire_codec)
       \<lparr>me_match_id = m, me_winner = winner, me_score1 = s1, me_score2 = s2\<rparr>)\<rparr>"

lemmas env_defs = auth_env_def join_env_def turn_env_def end_env_def

text \<open>What the codec wrote is read back; no evaluation of bytes is needed for this.\<close>

lemma wire_back:
  assumes "pb_ok p" and "snd (marshal p x) = None"
  shows "unmarshal p (fst (marshal p x)) = Inr x"
  using assms unfolding pb_ok_def by (metis prod.collapse)

lemma wire_total:
  "snd (marshal (pb_auth_request wire_codec) a) = None" "snd (marshal (pb_auth_response wire_codec) b) = None"
  "snd (marshal (pb_join_room wire_codec) c) = None" "snd (marshal (pb_join_room_ack wire_codec) d) = None"
  "snd (marshal (pb_turn wire_codec) t) = None" "snd (marshal (pb_match_end wire_codec) e) = None"
  "snd (marshal (pb_ping wire_codec) i) = None" "snd (marshal (pb_pong wire_codec) j) = None"
  by (simp_all add: wire_codec_def wire_pb_def)

lemma env_total: "type_num (e_type env) \<noteq> None \<Longrightarrow> marshal (pb_envelope wire_codec) env = (frame env, None)"
  by (auto simp: frame_def wire_codec_def wire_pb_def)

lemma frame_back: "type_num (e_type env) \<noteq> None \<Longrightarrow> unmarshal (pb_envelope wire_codec) (frame env) = Inr env"
  unfolding frame_def by (rule wire_back [OF wire_codec_ok(1)]) (simp add: env_total)

lemmas payload_back [simp] =
  wire_back [OF wire_codec_ok(4) wire_total(1)] wire_back [OF wire_codec_ok(6) wire_total(3)]
  wire_back [OF wire_codec_ok(8) wire_total(5)] wire_back [OF wire_codec_ok(9) wire_total(6)]
  wire_back [OF wire_codec_ok(2) wire_total(7)]

section \<open>The server\<close>

text \<open>Every token is accepted as the user it names.\<close>

definition any_user :: verifier where
  "any_user tok = (\<lparr>c_uid = tok, c_email = [], c_name = [], c_provider = []\<rparr>, None)"

definition sample_env :: "mem_store env" where
  "sample_env =
     \<lparr>ev_router = \<lparr>rt_web = ''/web'', rt_ws_verifier = Some (NewGate (Some any_user) mem_upserter),
                   rt_store = Some mem_iface, rt_verifier = Some any_user\<rparr>,
      ev_uni = (\<lambda>s. s), ev_codec = wire_codec, ev_files = (\<lambda>_. writeError 404 ''not found'')\<rparr>"

definition pvp_match :: "string \<Rightarrow> string list \<Rightarrow> game_match" where
  "pvp_match i ps = \<lparr>m_id = i, m_players = ps, m_mode = ''sync'', m_date = ''2025-11-29'',
     m_state = ''active'', m_turns = 0, m_winner = [], m_created = 1, m_ended = 0\<rparr>"

definition match1 :: game_match where "match1 = pvp_match ''m1'' [''ann'', ''bob'']"
definition match2 :: game_match where "match2 = pvp_match ''m2'' [''cat'', ''ann'']"

definition sample_seed :: "mem_call list" where
  "sample_seed = [CPutPuzzle sample_puzzle, CUpsertMatch match1, CUpsertMatch match2]"

definition world0 :: "mem_store world" where
  "world0 = NewHubWithStore mem_iface (seeded sample_seed)"

definition at_time :: "gotime \<Rightarrow> incoming" where
  "at_time t = \<lparr>in_read = ReadBinary [], in_dispatch_at = t, in_handler_at = t, in_write = None\<rparr>"

definition open_as :: "string \<Rightarrow> mem_store world \<Rightarrow> mem_store world" where
  "open_as uid w = snd (open_conn wire_codec (ws_verifier (ev_router sample_env) 5) None
     (ReadBinary (frame (auth_env uid))) None w)"

definition says :: "nat \<Rightarrow> envelope \<Rightarrow> mem_store world \<Rightarrow> mem_store world" where
  "says c env w = snd (handle_frame wire_codec (at_time 9) c (frame env) w)"

lemma sample_good: "good_env mem_iface sample_env"
  by (simp add: good_env_def sample_env_def NewGate_def)

abbreviation runs_to :: "mem_store world \<Rightarrow> bool" where
  "runs_to w \<equiv> reachable sample_env (NewHubWithStore mem_iface (seeded sample_seed)) w"

lemma reach_world0: "runs_to world0"
  unfolding world0_def by (rule Reach_init)

lemma reach_open: "runs_to w \<Longrightarrow> runs_to (open_as uid w)"
  unfolding open_as_def using Step_Open [of sample_env w 5 None "ReadBinary (frame (auth_env uid))" None]
  by (auto simp: sample_env_def intro: Reach_step)

lemma reach_says: "runs_to w \<Longrightarrow> c \<in> h_conns w \<Longrightarrow> runs_to (says c env w)"
  unfolding says_def using Step_Frame [of c w sample_env "at_time 9" "frame env"]
  by (auto simp: sample_env_def intro: Reach_step)

lemma reach_close: "runs_to w \<Longrightarrow> c \<in> h_conns w \<Longrightarrow> runs_to (close_conn c w)"
  by (blast intro: Reach_step Step_Close)

lemma runs_inv: "runs_to w \<Longrightarrow> hub_wf w \<and> mem_wf (w_db w)"
  by (drule mem_reachable_inv [OF _ sample_good]) (simp add: server_inv_def store_inv_def)

section \<open>What the steps compute\<close>

lemma world0_simps [simp]:
  "h_conns world0 = {}" "w_nconn world0 = 0" "h_store world0 = Some mem_iface" "\<not> ms_closed (w_db world0)"
  "gm_get (ms_matches (w_db world0)) = [''m1'' \<mapsto> match1, ''m2'' \<mapsto> match2]" "members m world0 = []"
  "ms_attempts (w_db world0) = []" "ms_leaderboards (w_db world0) = []"
  "gm_get (ms_puzzles (w_db world0)) = [''2025-11-29'' \<mapsto> sample_puzzle]"
  by (simp_all add: world0_def NewHubWithStore_def NewHub_def seeded_def sample_seed_def mem_PutPuzzle_def
      mem_UpsertMatch_def mem_New_def match1_def match2_def pvp_match_def members_def sample_puzzle_def fun_eq_iff)

lemma matches_upsert [simp]:
  "ms_matches (snd (mem_UpsertUserOnFirstAuth now c s)) = ms_matches s"
  "ms_closed (snd (mem_UpsertUserOnFirstAuth now c s)) = ms_closed s"
  "ms_puzzles (snd (mem_UpsertUserOnFirstAuth now c s)) = ms_puzzles s"
  "ms_attempts (snd (mem_UpsertUserOnFirstAuth now c s)) = ms_attempts s"
  "ms_leaderboards (snd (mem_UpsertUserOnFirstAuth now c s)) = ms_leaderboards s"
  by (auto simp: mem_UpsertUserOnFirstAuth_def Let_def split: option.split)

lemma open_auth:
  assumes "f tok (w_db w) = ((claims, None), db)"
  shows "\<exists>tr. snd (open_conn wire_codec (Some f) None (ReadBinary (frame (auth_env tok))) None w)
     = register (w_nconn w) ((fresh_conn (c_uid claims) w)\<lparr>w_db := db, w_sent := tr\<rparr>)"
proof -
  let ?env = "buildAuthResponse wire_codec ''r0'' claims None"
  let ?w = "(fresh_conn [] w)\<lparr>w_db := db\<rparr>"
  have db: "w_db (fresh_conn [] w) = w_db w" by (simp add: fresh_conn_def)
  obtain tr where tr: "snd (writeEnvelope wire_codec None (w_nconn w) ?env ?w) = ?w\<lparr>w_sent := tr\<rparr>"
    using writeEnvelope_world by blast
  have "performHandshake wire_codec (Some f) (ReadBinary (frame (auth_env tok))) None (w_nconn w) (fresh_conn [] w)
      = (Inr claims, ?w\<lparr>w_sent := tr\<rparr>)"
    using tr by (simp add: performHandshake_def frame_back auth_env_def assms db Let_def)
  then have "snd (open_conn wire_codec (Some f) None (ReadBinary (frame (auth_env tok))) None w)
      = register (w_nconn w) (let w1 = ?w\<lparr>w_sent := tr\<rparr> in
      w1\<lparr>w_conn := (w_conn w1)(w_nconn w := (w_conn w1 (w_nconn w))\<lparr>cn_uid := c_uid claims\<rparr>)\<rparr>)"
    by (simp add: open_conn_def new_conn_def fresh_conn_def Let_def)
  moreover have "(let w1 = ?w\<lparr>w_sent := tr\<rparr> in
      w1\<lparr>w_conn := (w_conn w1)(w_nconn w := (w_conn w1 (w_nconn w))\<lparr>cn_uid := c_uid claims\<rparr>)\<rparr>)
    = (fresh_conn (c_uid claims) w)\<lparr>w_db := db, w_sent := tr\<rparr>"
    by (rule world.equality) (simp_all add: fresh_conn_def Let_def)
  ultimately show ?thesis by auto
qed

lemma open_as_eq:
  assumes "uid \<noteq> []"
  shows "\<exists>tr. open_as uid w = register (w_nconn w) ((fresh_conn uid w)
     \<lparr>w_db := snd (mem_UpsertUserOnFirstAuth 5 (fst (any_user uid)) (w_db w)), w_sent := tr\<rparr>)"
proof -
  have "Gate_Verify (Some (NewGate (Some any_user) mem_upserter)) 5 uid (w_db w) =
      ((fst (any_user uid), None), snd (mem_UpsertUserOnFirstAuth 5 (fst (any_user uid)) (w_db w)))"
    using assms by (simp add: Gate_Verify_def NewGate_def any_user_def run_upserter_def)
  from open_auth [of "Gate_Verify (Some (NewGate (Some any_user) mem_upserter)) 5" uid w, OF this] show ?thesis
    by (simp add: open_as_def sample_env_def ws_verifier_def any_user_def)
qed

text \<open>An upgrade that authenticates: a new registered connection, in no room.\<close>

lemma open_as_simps [simp]:
  assumes "uid \<noteq> []"
  shows "h_conns (open_as uid w) = insert (w_nconn w) (h_conns w)" "w_nconn (open_as uid w) = Suc (w_nconn w)"
    "w_conn (open_as uid w) = (w_conn w)(w_nconn w := \<lparr>cn_uid = uid, cn_match = []\<rparr>)"
    "members m (open_as uid w) = members m w" "h_store (open_as uid w) = h_store w"
    "ms_matches (w_db (open_as uid w)) = ms_matches (w_db w)" "ms_closed (w_db (open_as uid w)) = ms_closed (w_db w)"
    "ms_attempts (w_db (open_as uid w)) = ms_attempts (w_db w)"
    "ms_leaderboards (w_db (open_as uid w)) = ms_leaderboards (w_db w)"
proof -
  obtain tr where eq: "open_as uid w = register (w_nconn w) ((fresh_conn uid w)
     \<lparr>w_db := snd (mem_UpsertUserOnFirstAuth 5 (fst (any_user uid)) (w_db w)), w_sent := tr\<rparr>)"
    using open_as_eq [OF assms] by blast
  show "members m (open_as uid w) = members m w" by (simp add: eq)
  show "h_conns (open_as uid w) = insert (w_nconn w) (h_conns w)" "w_nconn (open_as uid w) = Suc (w_nconn w)"
    "w_conn (open_as uid w) = (w_conn w)(w_nconn w := \<lparr>cn_uid = uid, cn_match = []\<rparr>)"
    "h_store (open_as uid w) = h_store w"
    "ms_matches (w_db (open_as uid w)) = ms_matches (w_db w)" "ms_closed (w_db (open_as uid w)) = ms_closed (w_db w)"
    "ms_attempts (w_db (open_as uid w)) = ms_attempts (w_db w)"
    "ms_leaderboards (w_db (open_as uid w)) = ms_leaderboards (w_db w)"
    by (simp_all add: eq register_def fresh_conn_def)
qed

text \<open>A join that passes the checks.\<close>

lemma may_join_env:
  "may_join wire_codec c (join_env m) w m mt \<longleftrightarrow>
     cn_uid (w_conn w c) \<noteq> [] \<and> m \<noteq> [] \<and> gm_get (ms_matches (w_db w)) m = Some mt
     \<and> cn_uid (w_conn w c) \<in> set (m_players mt)"
  by (simp add: may_join_def join_env_def)

lemma says_join:
  assumes "h_store w = Some mem_iface" and "\<not> ms_closed (w_db w)"
    and "may_join wire_codec c (join_env m) w m mt"
  shows "says c (join_env m) w = send c (frame (ackJoin wire_codec ''r1'' True m
      (roleOf (cn_uid (w_conn w c)) (m_players mt)) (opponentOf (cn_uid (w_conn w c)) (m_players mt)) []))
    (enter_room 9 c m w)"
  using join_check_may_join(1) [OF assms]
  by (simp add: says_def handle_frame_def frame_back env_total dispatch_def handleJoinRoom_eq at_time_def ackJoin_def
      join_env_def)

lemma says_join_simps [simp]:
  assumes "h_store w = Some mem_iface" and "\<not> ms_closed (w_db w)"
    and "may_join wire_codec c (join_env m) w m mt"
  shows "h_conns (says c (join_env m) w) = h_conns w" "w_nconn (says c (join_env m) w) = w_nconn w"
    "w_conn (says c (join_env m) w) = (w_conn w)(c := (w_conn w c)\<lparr>cn_match := m\<rparr>)"
    "h_store (says c (join_env m) w) = h_store w" "w_db (says c (join_env m) w) = w_db w"
    "hub_wf w \<Longrightarrow> c < w_nconn w \<Longrightarrow> members m' (says c (join_env m) w) =
       (if m' = m \<and> c \<notin> set (members m w) then members m w @ [c] else members m' w)"
proof -
  have m: "m \<noteq> []" using assms(3) by (simp add: may_join_def)
  show "h_conns (says c (join_env m) w) = h_conns w" "w_nconn (says c (join_env m) w) = w_nconn w"
    "w_conn (says c (join_env m) w) = (w_conn w)(c := (w_conn w c)\<lparr>cn_match := m\<rparr>)"
    "h_store (says c (join_env m) w) = h_store w" "w_db (says c (join_env m) w) = w_db w"
    by (simp_all add: says_join [OF assms] send_def)
  assume "hub_wf w" and "c < w_nconn w"
  then show "members m' (says c (join_env m) w) =
       (if m' = m \<and> c \<notin> set (members m w) then members m w @ [c] else members m' w)"
    by (simp add: says_join [OF assms] hub_wf_enter_room(2) [OF _ _ m])
qed

section \<open>Two players in a room\<close>

definition two_conns :: "mem_store world" where
  "two_conns = open_as ''bob'' (open_as ''ann'' world0)"

definition ann_in :: "mem_store world" where
  "ann_in = says 0 (join_env ''m1'') two_conns"

definition in_match :: "mem_store world" where
  "in_match = says (Suc 0) (join_env ''m1'') ann_in"

lemma match_players [simp]: "m_players match1 = [''ann'', ''bob'']" "m_players match2 = [''cat'', ''ann'']"
  by (simp_all add: match1_def match2_def pvp_match_def)

lemma two_conns_simps [simp]:
  "h_conns two_conns = {0, Suc 0}" "w_nconn two_conns = 2" "members m two_conns = []"
  "h_store two_conns = Some mem_iface" "\<not> ms_closed (w_db two_conns)"
  "gm_get (ms_matches (w_db two_conns)) = [''m1'' \<mapsto> match1, ''m2'' \<mapsto> match2]"
  "ms_attempts (w_db two_conns) = []" "ms_leaderboards (w_db two_conns) = []"
  "w_conn two_conns 0 = \<lparr>cn_uid = ''ann'', cn_match = []\<rparr>" "w_conn two_conns (Suc 0) = \<lparr>cn_uid = ''bob'', cn_match = []\<rparr>"
  by (auto simp: two_conns_def)

lemma runs_two: "runs_to two_conns"
  unfolding two_conns_def by (intro reach_open reach_world0)

lemma join_ann: "may_join wire_codec 0 (join_env ''m1'') two_conns ''m1'' match1"
  by (simp add: may_join_env)

lemma runs_ann: "runs_to ann_in"
  unfolding ann_in_def by (rule reach_says [OF runs_two]) simp

lemma ann_in_simps [simp]:
  "h_conns ann_in = {0, Suc 0}" "w_nconn ann_in = 2" "members m ann_in = (if m = ''m1'' then [0] else [])"
  "h_store ann_in = Some mem_iface" "w_db ann_in = w_db two_conns"
  "w_conn ann_in 0 = \<lparr>cn_uid = ''ann'', cn_match = ''m1''\<rparr>" "w_conn ann_in (Suc 0) = \<lparr>cn_uid = ''bob'', cn_match = []\<rparr>"
  using runs_inv [OF runs_two] by (simp_all add: ann_in_def says_join_simps [OF _ _ join_ann])

lemma join_bob: "may_join wire_codec (Suc 0) (join_env ''m1'') ann_in ''m1'' match1"
  by (simp add: may_join_env)

lemma runs_in_match: "runs_to in_match"
  unfolding in_match_def by (rule reach_says [OF runs_ann]) simp

lemma in_match_simps [simp]:
  "h_conns in_match = {0, Suc 0}" "w_nconn in_match = 2" "members m in_match = (if m = ''m1'' then [0, Suc 0] else [])"
  "h_store in_match = Some mem_iface" "w_db in_match = w_db two_conns"
  "w_conn in_match 0 = \<lparr>cn_uid = ''ann'', cn_match = ''m1''\<rparr>"
  "w_conn in_match (Suc 0) = \<lparr>cn_uid = ''bob'', cn_match = ''m1''\<rparr>"
  using runs_inv [OF runs_ann] by (simp_all add: in_match_def says_join_simps [OF _ _ join_bob])

section \<open>Witnesses\<close>


theorem connections_are_verified_witness:
  "verified (ev_router sample_env) (cn_uid (w_conn two_conns 0))"
proof -
  have "h_conns (NewHubWithStore mem_iface (seeded sample_seed)) = {}"
    by (simp add: NewHubWithStore_def NewHub_def)
  then show ?thesis by (rule connections_are_verified [OF runs_two]) simp
qed

theorem upgrade_session_witness:
  "\<exists>d w. UpgradeHandler wire_codec (ws_verifier (ev_router sample_env) 5) None
        (ReadBinary (frame (auth_env ''ann''))) None [] world0 = (d, w)
     \<and> reachable sample_env world0 w \<and> h_conns w = (if d then {} else {0})"
proof -
  obtain d w where u: "UpgradeHandler wire_codec (ws_verifier (ev_router sample_env) 5) None
        (ReadBinary (frame (auth_env ''ann''))) None [] world0 = (d, w)" by fastforce
  then have "UpgradeHandler (ev_codec sample_env) (ws_verifier (ev_router sample_env) 5) None
        (ReadBinary (frame (auth_env ''ann''))) None [] world0 = (d, w)" by (simp add: sample_env_def)
  from upgrade_session [OF this] u show ?thesis by simp
qed


theorem room_members_are_players_witness:
  "cn_uid (w_conn in_match (Suc 0)) \<noteq> [] \<and>
    (\<exists>mt. gm_get (ms_matches (w_db in_match)) ''m1'' = Some mt
       \<and> cn_uid (w_conn in_match (Suc 0)) \<in> set (m_players mt))"
  by (rule room_members_are_players [OF runs_in_match sample_good]) simp

theorem handleJoinRoom_spec_witness:
  "snd (handleJoinRoom wire_codec 9 (Suc 0) (join_env ''m2'') ann_in) = ann_in"
proof -
  have wf: "hub_wf ann_in" using runs_inv [OF runs_ann] by simp
  have no: "\<not> may_join wire_codec (Suc 0) (join_env ''m2'') ann_in m mt" for m mt
    by (simp add: may_join_def join_env_def)
  show ?thesis
    using handleJoinRoom_spec [where w = ann_in and c = "Suc 0" and cdc = wire_codec and now = 9
        and env = "join_env ''m2''"] wf no by simp
qed


text \<open>A match end with the scores the sender likes.\<close>

definition big_score :: int64 where
  "big_score = 9223372036854775807"

definition big_end :: match_end where
  "big_end = \<lparr>me_match_id = ''m1'', me_winner = ''ann'', me_score1 = big_score, me_score2 = 3\<rparr>"

lemma may_end_big: "may_end wire_codec 0 (end_env ''m1'' ''ann'' big_score 3) in_match big_end match1"
  by (simp add: may_end_def end_env_def big_end_def)

lemma may_end_fun: "may_end cdc c env w req mt \<Longrightarrow> may_end cdc c env w req' mt' \<Longrightarrow> req' = req \<and> mt' = mt"
  by (simp add: may_end_def)

theorem handleMatchEnd_spec_witness:
  "mem_view (w_db (snd (handleMatchEnd wire_codec 9 0 (end_env ''m1'' ''ann'' big_score 3) in_match)))
   = match_end_effect big_end 9 match1 (mem_view (w_db in_match))"
proof -
  have "mem_wf (w_db in_match)" using runs_inv [OF runs_in_match] by blast
  from handleMatchEnd_spec [OF _ _ this, where cdc = wire_codec and c = 0 and now = 9
        and env = "end_env ''m1'' ''ann'' big_score 3"] may_end_big
  obtain req mt db where e: "may_end wire_codec 0 (end_env ''m1'' ''ann'' big_score 3) in_match req mt"
    and h: "handleMatchEnd wire_codec 9 0 (end_env ''m1'' ''ann'' big_score 3) in_match =
      (Inr (end_env ''m1'' ''ann'' big_score 3), broadcastRoom wire_codec (cn_match (w_conn in_match 0))
        (end_env ''m1'' ''ann'' big_score 3) 0 (in_match\<lparr>w_db := db\<rparr>))"
    and v: "mem_view db = match_end_effect req 9 mt (mem_view (w_db in_match))"
    by (auto simp del: mem_view_simps)
  from may_end_fun [OF may_end_big e] v show ?thesis by (simp add: h del: mem_view_simps)
qed

definition boot_sample :: "(string \<times> go_error \<times> mem_store option) + (mem_store router \<times> mem_store world)" where
  "boot_sample = main_boot sample_getenv (\<lambda>_ _. Inr (mem_iface, mem_New)) (\<lambda>_ _. Inr ()) (\<lambda>_. Inr ())
     (\<lambda>_ tok. Inr \<lparr>tk_uid = tok, tk_claims = []\<rparr>) Inr (\<lambda>_. Inr True)"

theorem main_disables_pvp_witness:
  "\<exists>rt w. boot_sample = Inr (rt, w) \<and> RoomCount w = 0"
proof -
  have "\<exists>rt w. boot_sample = Inr (rt, w)"
    by (simp add: boot_sample_def main_boot_def Load_def sample_getenv_def sample_credentials envOr_def NewFirebase_def
        NewRouter_def Let_def)
  then obtain rt w where b: "boot_sample = Inr (rt, w)" by blast
  let ?e = "\<lparr>ev_router = rt, ev_uni = (\<lambda>s. s), ev_codec = wire_codec, ev_files = (\<lambda>_. writeError 404 [])\<rparr>"
  have "RoomCount w = 0"
    using main_disables_pvp [of _ _ _ _ _ _ _ ?e w w] b Reach_init [of ?e w]
    unfolding boot_sample_def by simp blast
  with b show ?thesis by blast
qed

text \<open>A submission over HTTP.\<close>

definition after_submit :: "mem_store world" where
  "after_submit = world0\<lparr>w_db := snd (serve_http (ev_router sample_env) (ev_uni sample_env) (ev_files sample_env)
     \<lparr>ck_auth = sample_now, ck_1 = sample_now, ck_2 = sample_now\<rparr> ''Bearer ann''
     (HApi (RSubmit sample_body)) (w_db world0))\<rparr>"

lemma runs_submit: "runs_to after_submit"
  unfolding after_submit_def by (rule Reach_step [OF reach_world0 Step_Http])

lemma submit_stored:
  "v_attempts (mem_view (w_db after_submit)) ''ann'' ''2025-11-29''
     = Some (submitted_attempt (\<lambda>s. s) ''ann'' sample_request sample_now sample_puzzle)"
proof -
  let ?c = "fst (any_user ''ann'')"
  let ?db = "snd (mem_UpsertUserOnFirstAuth sample_now ?c (w_db world0))"
  have bearer: "bearerFromHeader ''Bearer ann'' = Inr ''ann''" by code_simp
  have acc: "accepted (Some any_user) ''Bearer ann'' = Some ?c"
    by (simp add: accepted_def bearer any_user_def)
  have serve: "w_db after_submit
      = snd (attempts_submit mem_iface (\<lambda>s. s) sample_now sample_now sample_body (Some ?c) ?db)"
    by (rule protect_cases [of "Some any_user" mem_upserter sample_now "''Bearer ann''"
          "api_handler mem_iface (\<lambda>s. s) \<lparr>ck_auth = sample_now, ck_1 = sample_now, ck_2 = sample_now\<rparr>
             (RSubmit sample_body)" "w_db world0"])
      (simp_all add: after_submit_def sample_env_def asUpserter_def api_serve_eq acc api_handler_def run_upserter_def)
  have wf: "mem_wf ?db" using runs_inv [OF reach_world0] by (simp add: mem_wf_ops)
  have opened: "\<not> ms_closed ?db" by simp
  have puzzle: "v_puzzles (mem_view ?db) ''2025-11-29'' = Some sample_puzzle"
    by simp
  have "mem_view (w_db after_submit)
      = submit_effect (submitted_attempt (\<lambda>s. s) (c_uid ?c) sample_request sample_now sample_puzzle) (mem_view ?db)"
    using mem.submit_outcome [OF wf opened sample_decoded sample_acceptable, of "\<lambda>s. s" sample_now ?c] puzzle
    by (simp add: serve Let_def sample_request_def del: mem_view_simps)
  then have "v_attempts (mem_view (w_db after_submit)) (c_uid ?c) (sr_date sample_request)
      = Some (submitted_attempt (\<lambda>s. s) (c_uid ?c) sample_request sample_now sample_puzzle)"
    by (simp add: submit_effect_def Let_def del: mem_view_simps)
  then show ?thesis by (simp add: any_user_def sample_request_def del: mem_view_simps)
qed

theorem server_attempts_sound_witness:
  "\<exists>a. v_attempts (mem_view (w_db after_submit)) ''ann'' ''2025-11-29'' = Some a
     \<and> (a_score a, a_won a) = Score (\<lambda>s. s) ''league'' (a_guesses a)"
  using server_attempts_sound [OF runs_submit sample_good submit_stored] submit_stored
  by (simp add: after_submit_def sample_env_def sample_puzzle_def del: mem_view_simps)

end
