(* ===== verification/Program.thy ===== *)
theory Program
  imports Mongo_Props Ws_Scenes
begin

text \<open>
  The program as \<open>main\<close> wires it: the configuration, the MongoDB client, the Firebase verifier,
  the hub and the router together, from the start on.
\<close>

section \<open>Starting on MongoDB\<close>

lemma settles_trans: "settles c ds1 ds2 \<Longrightarrow> settles c ds2 ds3 \<Longrightarrow> settles c ds1 ds3"
  by (auto simp: settles_def split: if_splits)

lemma quiet_trans: "quiet docs s1 s2 \<Longrightarrow> quiet docs s2 s3 \<Longrightarrow> quiet docs s1 s3"
  by (auto simp: quiet_def intro: settles_trans)

context mongo_driver
begin

lemma create_all_quiet: "create_all dr specs s = (r, s') \<Longrightarrow> quiet docs s s'"
proof (induction specs arbitrary: s)
  case Nil
  then show ?case by (simp add: quiet_def settles_def)
next
  case (Cons p specs)
  obtain coll m where p: "p = (coll, m)" by (cases p)
  obtain r1 s1 where c: "dr_CreateOne dr coll m s = (r1, s1)" by fastforce
  have "s' = s1 \<or> create_all dr specs s1 = (r, s')"
    using Cons.prems by (auto simp: p c split: sum.splits)
  with create_law [OF c] Cons.IH show ?case by (blast intro: quiet_trans)
qed

lemma New_quiet:
  assumes "fst (mongo_New dr connect uri database) = Inr c"
  shows "(\<exists>s. connect uri database = Inr s \<and> quiet docs s (mc_db c)) \<and> mc_open c"
proof -
  from assms obtain s s1 u v where "connect uri database = Inr s" "dr_Ping dr s = (Inr u, s1)"
    "ensureIndexes dr s1 = (Inr v, mc_db c)" "mc_open c"
    by (auto simp: mongo_New_def split: if_splits sum.splits prod.splits)
  then show ?thesis
    using ping_law create_all_quiet unfolding ensureIndexes_def by (blast intro: quiet_trans)
qed

text \<open>A failed \<open>New\<close> has disconnected what it connected, and changed nothing either.\<close>

lemma New_failed:
  assumes "mongo_New dr connect uri database = (Inl err, left)"
  shows "left = None
    \<or> (\<exists>s s1. connect uri database = Inr s \<and> left = Some (snd (dr_Disconnect dr s1)) \<and> quiet docs s (snd (dr_Disconnect dr s1)))"
proof -
  consider "left = None"
    | s r s1 where "connect uri database = Inr s" "dr_Ping dr s = (r, s1)" "left = Some (snd (dr_Disconnect dr s1))"
    | s r s1 r' s2 where "connect uri database = Inr s" "dr_Ping dr s = (r, s1)" "ensureIndexes dr s1 = (r', s2)"
        "left = Some (snd (dr_Disconnect dr s2))"
    using assms by (auto simp: mongo_New_def split: if_splits sum.splits prod.splits)
  then show ?thesis
  proof cases
    case 2
    then show ?thesis using ping_law disconnect_law [OF surjective_pairing] by (blast intro: quiet_trans)
  next
    case 3
    then show ?thesis
      using ping_law create_all_quiet disconnect_law [OF surjective_pairing] unfolding ensureIndexes_def
      by (blast intro: quiet_trans)
  qed simp
qed

end

definition main_on_mongo ::
  "'d driver \<Rightarrow> bson_codec \<Rightarrow> (string \<Rightarrow> string \<Rightarrow> 'd res) \<Rightarrow> (string \<Rightarrow> string)
     \<Rightarrow> (string \<Rightarrow> string \<Rightarrow> 'app res) \<Rightarrow> ('app \<Rightarrow> 'client res) \<Rightarrow> ('client \<Rightarrow> string \<Rightarrow> fb_token res)
     \<Rightarrow> (string \<Rightarrow> string res) \<Rightarrow> (string \<Rightarrow> bool res)
     \<Rightarrow> (string \<times> go_error \<times> 'd mclient option) + ('d mclient router \<times> 'd mclient world)"
where
  "main_on_mongo dr bc connect getenv =
     main_boot getenv
       (\<lambda>uri database. map_sum id (\<lambda>c. (mongo_ops dr bc, c)) (fst (mongo_New dr connect uri database)))"

lemma main_on_mongo_result:
  assumes "mongo_driver dr bc docs"
    and "main_on_mongo dr bc connect getenv sdk_app sdk_auth sdk_verify path_abs is_dir = Inr (rt, w0)"
  shows "\<exists>uri database s c client. connect uri database = Inr s \<and> quiet docs s (mc_db c) \<and> mc_open c \<and> w0 = NewHub c
    \<and> rt_store rt = Some (mongo_ops dr bc) \<and> rt_ws_verifier rt =
        Some (NewGate (Some (Firebase_Verify sdk_verify (Some client)))
               (Some (st_UpsertUserOnFirstAuth (mongo_ops dr bc))))"
proof -
  from main_boot_result [OF assms(2) [unfolded main_on_mongo_def]] obtain uri database st c client
    where new: "map_sum id (\<lambda>c. (mongo_ops dr bc, c)) (fst (mongo_New dr connect uri database)) = Inr (st, c)"
      and rt: "w0 = NewHub c" "rt_store rt = Some st" "rt_ws_verifier rt =
        Some (NewGate (Some (Firebase_Verify sdk_verify (Some client))) (Some (st_UpsertUserOnFirstAuth st)))"
    by blast
  from new have "fst (mongo_New dr connect uri database) = Inr c" "st = mongo_ops dr bc"
    by (cases "fst (mongo_New dr connect uri database)"; simp)+
  with mongo_driver.New_quiet [OF assms(1)] rt show ?thesis by blast
qed

text \<open>What the program starts from, when the database it connects to is well-formed and honest.\<close>

lemma main_start:
  assumes "mongo_driver dr bc docs"
    and "\<And>uri database s. connect uri database = Inr s \<Longrightarrow>
           docs_wf (docs s) \<and> attempts_sound (ev_uni e) (docs_view bc (docs s))"
    and "main_on_mongo dr bc connect getenv sdk_app sdk_auth sdk_verify path_abs is_dir
           = Inr (ev_router e, w0)"
  shows "\<exists>c client. w0 = NewHub c \<and> mc_open c \<and> mongo_wf docs c \<and> attempts_sound (ev_uni e) (mongo_view bc docs c)
    \<and> good_env (mongo_ops dr bc) e \<and> rt_ws_verifier (ev_router e) =
        Some (NewGate (Some (Firebase_Verify sdk_verify (Some client)))
               (Some (st_UpsertUserOnFirstAuth (mongo_ops dr bc))))"
proof -
  obtain s c client uri database where start: "connect uri database = Inr s" "quiet docs s (mc_db c)" "mc_open c"
    "w0 = NewHub c" "rt_store (ev_router e) = Some (mongo_ops dr bc)"
    and gate: "rt_ws_verifier (ev_router e) =
        Some (NewGate (Some (Firebase_Verify sdk_verify (Some client)))
               (Some (st_UpsertUserOnFirstAuth (mongo_ops dr bc))))"
    using main_on_mongo_result [OF assms(1,3)] by blast
  have "mongo_wf docs c" "attempts_sound (ev_uni e) (mongo_view bc docs c)"
    using assms(2) [OF start(1)] agree_same [OF agree_quiet [OF start(2)], of bc]
    by (simp_all add: mongo_wf_def mongo_view_def)
  moreover have "good_env (mongo_ops dr bc) e"
    using start(5) gate by (simp add: good_env_def own_upserter_def NewGate_def)
  ultimately show ?thesis using start(3,4) gate by blast
qed

lemma verified_token:
  assumes "rt_ws_verifier rt = Some (NewGate (Some (Firebase_Verify sdk_verify (Some client))) up)" and "verified rt uid"
  shows "\<exists>client tok t. sdk_verify client tok = Inr t \<and> tk_uid t = uid"
proof -
  obtain tok claims where "Firebase_Verify sdk_verify (Some client) tok = (claims, None)" "c_uid claims = uid"
    using assms by (auto simp: verified_def NewGate_def)
  then show ?thesis using Firebase_Verify_spec [of sdk_verify client tok] by (auto intro!: exI [of _ client] exI [of _ tok])
qed

text \<open>The program, from its start on: if it has started on MongoDB with a driver that behaves as
  documented, and the database it connected to was well-formed and its attempts honest, then
  whatever requests and frames it serves in whatever order, and whichever database calls fail,
  every stored attempt keeps the exact score of its guesses against the stored puzzle of its
  valid date, and every live WebSocket connection acts under the user id of an ID token that
  Firebase has accepted.\<close>

theorem program_safe:
  assumes "mongo_driver dr bc docs"
    and "\<And>uri database s. connect uri database = Inr s \<Longrightarrow>
           docs_wf (docs s) \<and> attempts_sound (ev_uni e) (docs_view bc (docs s))"
    and "main_on_mongo dr bc connect getenv sdk_app sdk_auth sdk_verify path_abs is_dir
           = Inr (ev_router e, w0)"
    and "reachable e w0 w"
  shows "(v_attempts (mongo_view bc docs (w_db w)) u d = Some a \<longrightarrow> a_uid a = u \<and> a_date a = d \<and> validDate d \<and>
      (\<exists>p. v_puzzles (mongo_view bc docs (w_db w)) d = Some p
         \<and> (a_score a, a_won a) = Score (ev_uni e) (p_word p) (a_guesses a)))
    \<and> (c \<in> h_conns w \<longrightarrow> (\<exists>client tok t. sdk_verify client tok = Inr t \<and> tk_uid t = cn_uid (w_conn w c)))"
proof -
  obtain c0 client where start: "w0 = NewHub c0" "mongo_wf docs c0" "attempts_sound (ev_uni e) (mongo_view bc docs c0)"
    "good_env (mongo_ops dr bc) e"
    and gate: "rt_ws_verifier (ev_router e) =
        Some (NewGate (Some (Firebase_Verify sdk_verify (Some client)))
               (Some (st_UpsertUserOnFirstAuth (mongo_ops dr bc))))"
    using main_start [OF assms(1) _ assms(3)] assms(2) by blast
  have inv: "server_inv (mongo_ops dr bc) (mongo_view bc docs) (mongo_wf docs) (ev_uni e) w"
    using mongo_driver.server_inv_mongo [OF assms(1) start(2-4) assms(4)] start(1) by blast
  have "\<exists>client tok t. sdk_verify client tok = Inr t \<and> tk_uid t = cn_uid (w_conn w c)" if "c \<in> h_conns w"
    using verified_token [OF gate, of "cn_uid (w_conn w c)"] conns_verified_reachable [OF assms(4)] that start(1)
    by (simp add: conns_verified_def NewHub_def)
  with inv show ?thesis
    by (auto simp: server_inv_def store_inv_def attempts_sound_def attempt_sound_def)
qed

section \<open>A concrete start\<close>

text \<open>The server on the seeded database of \<open>Mongo_Props\<close>, with a Firebase that accepts every token.\<close>

definition any_token :: "unit \<Rightarrow> string \<Rightarrow> fb_token res" where
  "any_token client tok = Inr \<lparr>tk_uid = tok, tk_claims = []\<rparr>"

definition ref_boot :: "(string \<times> go_error \<times> mem_db mclient option) + (mem_db mclient router \<times> mem_db mclient world)" where
  "ref_boot = main_on_mongo ref_driver ref_codec (\<lambda>uri database. Inr (mc_db ref_seeded)) sample_getenv
     (\<lambda>_ _. Inr ()) (\<lambda>_. Inr ()) any_token Inr (\<lambda>_. Inr True)"

definition ref_server :: "mem_db mclient env" where
  "ref_server = \<lparr>ev_router = fst (projr ref_boot), ev_uni = (\<lambda>s. s), ev_codec = wire_codec,
     ev_files = (\<lambda>_. writeError 404 ''not found'')\<rparr>"

text \<open>A client connects and authenticates as \<open>ann\<close>.\<close>

definition ref_ann :: "mem_db mclient world" where
  "ref_ann = snd (open_conn (ev_codec ref_server) (ws_verifier (ev_router ref_server) 5) None
     (ReadBinary (frame (auth_env ''ann''))) None (NewHub ref_seeded))"

lemma ref_boot_eq: "ref_boot = Inr (ev_router ref_server, NewHub ref_seeded)"
  and ref_gate: "rt_ws_verifier (ev_router ref_server) = Some (NewGate (Some (Firebase_Verify any_token (Some ())))
     (Some (mongo_UpsertUserOnFirstAuth ref_driver ref_codec)))"
proof -
  have calls: "dr_CreateOne ref_driver c ix s = (Inr (), s)" "dr_Ping ref_driver s = (Inr (), s)" for c ix s
    by (simp_all add: ref_driver_def)
  have "create_all ref_driver specs s = (Inr (), s)" for specs s
    by (induction specs) (auto simp: calls)
  moreover have "mc_open ref_seeded"
    by (simp add: ref_seeded_def mongo_PutPuzzle_def mongo_UpsertAttempt_def replace_one_def ref_run split: prod.split)
  ultimately have "fst (mongo_New ref_driver (\<lambda>uri database. Inr (mc_db ref_seeded)) ''x'' ''x'') = Inr ref_seeded"
    by (simp add: mongo_New_def ensureIndexes_def calls)
  then obtain rt where rt: "ref_boot = Inr (rt, NewHub ref_seeded)"
    "rt_ws_verifier rt = Some (NewGate (Some (Firebase_Verify any_token (Some ())))
     (Some (mongo_UpsertUserOnFirstAuth ref_driver ref_codec)))"
    by (simp add: ref_boot_def main_on_mongo_def main_boot_def Load_def sample_getenv_def sample_credentials envOr_def NewFirebase_def
        NewRouter_def Let_def)
  have ev: "ev_router ref_server = rt" by (simp add: ref_server_def rt(1))
  show "ref_boot = Inr (ev_router ref_server, NewHub ref_seeded)"
    "rt_ws_verifier (ev_router ref_server) = Some (NewGate (Some (Firebase_Verify any_token (Some ())))
     (Some (mongo_UpsertUserOnFirstAuth ref_driver ref_codec)))"
    by (simp_all add: ev rt)
qed

lemma ref_server_codec: "ev_codec ref_server = wire_codec"
  by (simp add: ref_server_def)

lemma hub_nconn: "w_nconn (NewHub db) = 0"
  by (simp add: NewHub_def)

lemma ref_ann_eq:
  "\<exists>claims tr. c_uid claims = ''ann'' \<and> ref_ann = register 0 ((fresh_conn ''ann'' (NewHub ref_seeded))
     \<lparr>w_db := snd (mongo_UpsertUserOnFirstAuth ref_driver ref_codec 5 claims ref_seeded), w_sent := tr\<rparr>)"
proof -
  obtain claims where claims: "Firebase_Verify any_token (Some ()) ''ann'' = (claims, None)" "c_uid claims = ''ann''"
    using Firebase_Verify_spec [of any_token "()" "''ann''"]
    by (auto simp: any_token_def split: prod.splits option.splits)
  have "Gate_Verify (rt_ws_verifier (ev_router ref_server)) 5 ''ann'' (w_db (NewHub ref_seeded)) = ((claims, None),
      snd (mongo_UpsertUserOnFirstAuth ref_driver ref_codec 5 claims ref_seeded))"
    by (simp add: ref_gate Gate_Verify_def NewGate_def claims run_upserter_def NewHub_def)
  from open_auth [of "Gate_Verify (rt_ws_verifier (ev_router ref_server)) 5" "''ann''" "NewHub ref_seeded", OF this]
    claims(2)
  show ?thesis
    by (auto simp: ref_ann_def ref_server_codec ws_verifier_def ref_gate hub_nconn)
qed

lemma ref_start: "main_on_mongo ref_driver ref_codec (\<lambda>uri database. Inr (mc_db ref_seeded)) sample_getenv
     (\<lambda>_ _. Inr ()) (\<lambda>_. Inr ()) any_token Inr (\<lambda>_. Inr True) = Inr (ev_router ref_server, NewHub ref_seeded)"
  using ref_boot_eq by (simp add: ref_boot_def)

lemma ref_ann_reachable: "reachable ref_server (NewHub ref_seeded) ref_ann"
  unfolding ref_ann_def by (blast intro: Reach_step Reach_init Step_Open)

lemma ref_good: "Inr (mc_db ref_seeded) = (Inr s :: mem_db res) \<Longrightarrow>
    docs_wf s \<and> attempts_sound (ev_uni ref_server) (docs_view ref_codec s)"
  using ref_seeded_view(1) ref_seeded_sound by (auto simp: mongo_wf_def mongo_view_def ref_server_def)

theorem program_safe_witness:
  "0 \<in> h_conns ref_ann \<and> (\<exists>client tok t. any_token client tok = Inr t \<and> tk_uid t = cn_uid (w_conn ref_ann 0))
   \<and> (\<exists>a. v_attempts (mongo_view ref_codec (\<lambda>s. s) (w_db ref_ann)) ''ann'' ''2025-11-29'' = Some a
        \<and> (a_score a, a_won a) = Score (\<lambda>s. s) ''league'' (a_guesses a))"
proof -
  obtain claims tr where ann: "ref_ann = register 0 ((fresh_conn ''ann'' (NewHub ref_seeded))
     \<lparr>w_db := snd (mongo_UpsertUserOnFirstAuth ref_driver ref_codec 5 claims ref_seeded), w_sent := tr\<rparr>)"
    using ref_ann_eq by blast
  have "v_attempts (mongo_view ref_codec (\<lambda>s. s) (w_db ref_ann)) =
      v_attempts (mongo_view ref_codec (\<lambda>s. s) ref_seeded)"
    using write_opD(2) [OF ref.auth_write ref_seeded_view(1), of 5 claims] by (auto simp: ann)
  then have a: "v_attempts (mongo_view ref_codec (\<lambda>s. s) (w_db ref_ann)) ''ann'' ''2025-11-29''
      = Some (timed_attempt floor_ms ref_attempt)"
    by (simp add: ref_seeded_view ref_attempt_def sample_request_def)
  have p: "v_puzzles (mongo_view ref_codec (\<lambda>s. s) (w_db ref_ann)) ''2025-11-29'' = Some sample_puzzle"
    using write_opD(2) [OF ref.auth_write ref_seeded_view(1), of 5 claims]
    by (auto simp: ann ref_seeded_view view_put_puzzle_def sample_puzzle_def)
  have conn: "0 \<in> h_conns ref_ann" by (simp add: ann)
  show ?thesis
    using program_safe [OF ref.mongo_driver_axioms ref_good ref_start ref_ann_reachable, of "''ann''" "''2025-11-29''"
        "timed_attempt floor_ms ref_attempt" 0] a p conn
    by (simp add: ref_server_def sample_puzzle_def)
qed

end
