(* ===== verification/Program_Exit.thy ===== *)
theory Program_Exit
  imports Program
begin

text \<open>
  How the two programs of the repository end: \<open>server/cmd/api\<close> after its start, and
  \<open>server/cmd/atlas-smoke\<close> as a whole.

  \<open>log.Fatalf\<close> writes a line and exits with code 1 at once: the deferred calls do not run. A \<open>main\<close> that
  returns runs its deferred calls, last one first, and exits with code 0. The result is the exit
  code, the lines that \<open>main\<close> logs as it ends (not those of the running server before), in order, and
  the store (or, for the smoke test, the driver) in the state in which the process leaves it, if there
  was one.
\<close>

datatype log_line = LogText string | LogErr string go_error

record 'd exit =
  x_code :: nat
  x_log :: "log_line list"
  x_left :: "'d option"

section \<open>The smoke test\<close>

definition smoke_main ::
  "(string \<Rightarrow> string) \<Rightarrow> 'd driver \<Rightarrow> (string \<Rightarrow> string \<Rightarrow> 'd res) \<Rightarrow> 'd exit"
where
  "smoke_main getenv dr connect =
     (let uri = getenv ''MONGODB_URI'' in
      if uri = [] then \<lparr>x_code = 1, x_log = [LogText ''MONGODB_URI is required''], x_left = None\<rparr>
      else
     (let dbName = getenv ''MONGODB_DB'';
          dbName = (if dbName = [] then ''dleague'' else dbName) in
      case mongo_New dr connect uri dbName of
        (Inl err, left) \<Rightarrow> \<lparr>x_code = 1, x_log = [LogErr ''connect'' err], x_left = left\<rparr>
      | (Inr c, _) \<Rightarrow>
     (case mongo_Ping dr c of
        (Inl err, c) \<Rightarrow> \<lparr>x_code = 1, x_log = [LogErr ''ping'' err], x_left = Some (mc_db c)\<rparr>
      | (Inr _, c) \<Rightarrow>
          \<lparr>x_code = 0, x_log = [LogText (''ping ok (db='' @ dbName @ '')'')],
           x_left = Some (mc_db (snd (mongo_Close dr c)))\<rparr>)))"

section \<open>The server\<close>

text \<open>
  What ends the server: \<open>ListenAndServe\<close> fails in its goroutine, or a signal arrives and \<open>Shutdown\<close>
  returns what it returns. (\<open>Shutdown\<close> makes \<open>ListenAndServe\<close> return \<open>ErrServerClosed\<close>, which is ignored.)
\<close>

datatype stop_cause = ListenFailed go_error | Signalled "unit res"

fun log_result :: "string \<Rightarrow> unit res \<Rightarrow> log_line list" where
  "log_result what (Inl err) = [LogErr what err]"
| "log_result what (Inr _) = []"

fun main_stop :: "'s store_ops \<Rightarrow> stop_cause \<Rightarrow> 's \<Rightarrow> 's exit" where
  "main_stop st (ListenFailed err) db = \<lparr>x_code = 1, x_log = [LogErr ''listen'' err], x_left = Some db\<rparr>"
| "main_stop st (Signalled shutdown) db =
     (case st_Close st db of
        (closed, db) \<Rightarrow>
          \<lparr>x_code = 0,
           x_log = [LogText ''shutting down''] @ log_result ''shutdown'' shutdown @ log_result ''store close'' closed,
           x_left = Some db\<rparr>)"

text \<open>Every way in which \<open>main\<close> ends, given the result of its start: at once, or after any run of the server.\<close>

inductive main_exits ::
  "'s env \<Rightarrow> (string \<times> go_error \<times> 's option) + ('s router \<times> 's world) \<Rightarrow> 's exit \<Rightarrow> bool"
  for e :: "'s env" and boot :: "(string \<times> go_error \<times> 's option) + ('s router \<times> 's world)"
where
  Exit_boot: "boot = Inl (line, err, left) \<Longrightarrow> main_exits e boot \<lparr>x_code = 1, x_log = [LogErr line err], x_left = left\<rparr>"
| Exit_stop: "boot = Inr (ev_router e, w0) \<Longrightarrow> reachable e w0 w \<Longrightarrow> rt_store (ev_router e) = Some st
     \<Longrightarrow> main_exits e boot (main_stop st cause (w_db w))"


section \<open>The store stays open while the server runs\<close>

lemma on_db_keeps_open [simp]: "mc_open (snd (on_db f c)) = mc_open c"
  by (simp add: on_db_def split: prod.split)

lemma on_db_openD: "on_db f c = (r, c') \<Longrightarrow> mc_open c' = mc_open c"
  by (auto simp: on_db_def split: prod.splits)

lemma find_one_open: "mc_open (snd (find_one dr msg coll filt dec c)) = mc_open c"
  by (auto simp: find_one_def dest: on_db_openD split: prod.split sum.split)

lemma replace_one_open: "mc_open (snd (replace_one dr msg coll filt new c)) = mc_open c"
  by (auto simp: replace_one_def dest: on_db_openD split: prod.split sum.split)

lemma mongo_stays_open:
  "mc_open (snd (mongo_UpsertUserOnFirstAuth dr bc now claims c)) = mc_open c"
  "mc_open (snd (mongo_GetUser dr bc u c)) = mc_open c"
  "mc_open (snd (mongo_GetPuzzle dr bc d c)) = mc_open c"
  "mc_open (snd (mongo_PutPuzzle dr bc p c)) = mc_open c"
  "mc_open (snd (mongo_GetAttempt dr bc u d c)) = mc_open c"
  "mc_open (snd (mongo_UpsertAttempt dr bc a c)) = mc_open c"
  "mc_open (snd (mongo_GetMatch dr bc i c)) = mc_open c"
  "mc_open (snd (mongo_UpsertMatch dr bc m c)) = mc_open c"
  "mc_open (snd (mongo_SubmitScore dr b u sc c)) = mc_open c"
  "mc_open (snd (mongo_TopN dr bc b n c)) = mc_open c"
  "mc_open (snd (mongo_Ping dr c)) = mc_open c"
  by (auto simp: mongo_UpsertUserOnFirstAuth_def mongo_GetUser_def mongo_GetPuzzle_def mongo_GetAttempt_def
      mongo_GetMatch_def mongo_PutPuzzle_def mongo_UpsertAttempt_def mongo_UpsertMatch_def mongo_SubmitScore_def
      mongo_TopN_def mongo_Ping_def find_one_open replace_one_open Let_def dest: on_db_openD split: prod.split sum.split)

context mongo_driver
begin

lemma open_contract: "store_laws (mongo_ops dr bc) view (\<lambda>c. wf c \<and> mc_open c) floor_ms"
proof
  fix s b n rows
  assume "wf s \<and> mc_open s" "0 < n" "fst (st_TopN (mongo_ops dr bc) b n s) = Inr rows"
  then show "is_top_n (v_boards (view s) b) n rows" using topN_law [of s b n rows] by simp
next
  fix b n
  have "read_op view wf (st_TopN (mongo_ops dr bc) b n)" using topN_law by (simp add: read_op_def)
  then show "read_op view (\<lambda>c. wf c \<and> mc_open c) (st_TopN (mongo_ops dr bc) b n)"
    by (rule read_op_conj) (simp add: mongo_stays_open)
qed (auto intro!: write_op_conj lookup_op_conj read_op_conj auth_write put_puzzle_write put_attempt_write put_match_write
    submit_write user_lookup puzzle_lookup attempt_lookup match_lookup ping_read simp: mongo_stays_open)

lemma server_stays_open:
  assumes "wf c" and "mc_open c" and "attempts_sound (ev_uni e) (view c)" and "good_env (mongo_ops dr bc) e"
    and "reachable e (NewHub c) w"
  shows "mc_open (w_db w)"
proof -
  have "server_inv (mongo_ops dr bc) view (\<lambda>c. wf c \<and> mc_open c) (ev_uni e) w"
  proof (rule store_laws.server_inv_reachable [OF open_contract assms(5,4)])
    have "w_db (NewHub c) = c" "h_store (NewHub c) = None" by (simp_all add: NewHub_def)
    then show "server_inv (mongo_ops dr bc) view (\<lambda>c. wf c \<and> mc_open c) (ev_uni e) (NewHub c)"
      using assms(1-3) matches_keyed [OF assms(1)]
      by (simp add: server_inv_def store_inv_def hub_room_auth hub_wf_NewHub)
  qed
  then show ?thesis by (simp add: server_inv_def store_inv_def)
qed

end

section \<open>How the server ends\<close>

lemma map_sum_InrD: "map_sum id (Pair a) r = Inr (st, c) \<Longrightarrow> r = Inr c"
  by (cases r) auto

lemma main_boot_fails:
  assumes "main_boot getenv mongodb_New sdk_app sdk_auth sdk_verify path_abs is_dir = Inl (line, err, left)"
  shows "line \<in> {''config'', ''mongodb'', ''firebase auth'', ''router''}
    \<and> (\<forall>db. left = Some db \<longrightarrow> (\<exists>uri database st. mongodb_New uri database = Inr (st, db)))"
  using assms by (auto simp: main_boot_def Let_def split: sum.splits prod.splits)


section \<open>What the smoke test does\<close>

lemma smoke_database: "(if getenv k = [] then d else getenv k) = envOr getenv k d"
  by (simp add: envOr_def)

lemma smoke_New_ok:
  assumes "mongo_New dr connect uri database = (Inr c, left)" and "uri = getenv ''MONGODB_URI''"
    and "database = envOr getenv ''MONGODB_DB'' ''dleague''"
  shows "smoke_main getenv dr connect =
    (case mongo_Ping dr c of
       (Inl err, c) \<Rightarrow> \<lparr>x_code = 1, x_log = [LogErr ''ping'' err], x_left = Some (mc_db c)\<rparr>
     | (Inr _, c) \<Rightarrow> \<lparr>x_code = 0, x_log = [LogText (''ping ok (db='' @ database @ '')'')],
                     x_left = Some (mc_db (snd (mongo_Close dr c)))\<rparr>)"
proof -
  have "uri \<noteq> []" using assms(1) by (auto simp: mongo_New_def)
  then show ?thesis using assms(1) unfolding smoke_main_def Let_def smoke_database assms(2,3) by simp
qed


section \<open>Concrete runs\<close>

lemma ref_New: "fst (mongo_New ref_driver (\<lambda>uri database. Inr (mc_db ref_new)) ''x'' ''x'') = Inr ref_new"
proof -
  have "dr_CreateOne ref_driver c ix s = (Inr (), s)" for c ix s
    by (simp add: ref_driver_def)
  then have "create_all ref_driver specs s = (Inr (), s)" for specs s
    by (induction specs) auto
  then show ?thesis
    by (simp add: mongo_New_def ensureIndexes_def ref_driver_def ref_new_def)
qed


text \<open>The server of \<open>Program\<close>, stopped by a signal after the client \<open>ann\<close> has connected.\<close>

definition ref_exit :: "mem_db mclient exit" where
  "ref_exit = main_stop (mongo_ops ref_driver ref_codec) (Signalled (Inr ())) (w_db ref_ann)"


end
