(* ===== verification/Ws_Gaps.thy ===== *)
theory Ws_Gaps
  imports Ws_Scenes
begin

text \<open>
  What the sync-PvP handlers do not guarantee, as theorems about the server: a connection that
  moves on to a second match stays in the first room for good, even after it is closed, and a
  match end puts any score on the shared leaderboards.
\<close>

section \<open>Members that are gone\<close>

definition ghost :: "nat \<Rightarrow> string \<Rightarrow> 's world \<Rightarrow> bool" where
  "ghost c m w \<longleftrightarrow> hub_wf w \<and> c < w_nconn w \<and> c \<notin> h_conns w \<and> c \<in> set (members m w)"

interpretation ghost: world_inv "\<lambda>w. d < w_nconn w \<and> ghost c m w" d for d c m
  by unfold_locales (auto simp: ghost_def hub_wf_enter_room)

lemma ghost_step:
  assumes "server_step e w w'" and g: "ghost c m w"
  shows "ghost c m w'"
  using assms(1)
proof cases
  case (Step_Http ck hdr r)
  then show ?thesis using g by (simp add: ghost_def)
next
  case (Step_Open now accept rd wr)
  have wf: "hub_wf w'" using step_hub_wf [OF assms(1)] g by (simp add: ghost_def)
  show ?thesis
    using g wf unfolding Step_Open
    by (cases rule: open_conn_cases [of "ev_codec e" "ws_verifier (ev_router e) now" accept rd wr w])
      (auto simp: ghost_def)
next
  case (Step_Frame d i data)
  then have "d < w_nconn w" using g hub_wfD(3) by (auto simp: ghost_def)
  then show ?thesis using ghost.frame_keeps [of d w c m] g Step_Frame(1) by blast
next
  case (Step_Close d)
  then show ?thesis
    using g by (cases "c = d") (auto simp: ghost_def close_conn_def hub_wf_unregister members_unregister)
qed

text \<open>C16: A connection is only ever taken out of the room it joined last. If it is also a member of
  another room when it is closed, it stays a member of that room for ever, whatever happens on
  the server afterwards: frames keep being written to it and the room is never dropped.\<close>

theorem stale_member_stays:
  assumes "reachable e w0 w" and "w0 = NewHub db \<or> w0 = NewHubWithStore ops db"
    and "c \<in> set (members m w)" and "cn_match (w_conn w c) \<noteq> m"
    and "reachable e (close_conn c w) w'"
  shows "c \<notin> h_conns w' \<and> c \<in> set (members m w') \<and> 0 < RoomCount w'"
proof -
  have wf: "hub_wf w"
    using assms(1)
  proof induction
    case Reach_init
    then show ?case using assms(2) hub_wf_NewHub by metis
  qed (rule step_hub_wf)
  have "ghost c m (close_conn c w)"
    using wf assms(3,4) members_less [OF wf assms(3)]
    by (simp add: ghost_def close_conn_def hub_wf_unregister members_unregister)
  with assms(5) have "ghost c m w'"
    by (induction rule: reachable.induct) (auto intro: ghost_step)
  then show ?thesis by (auto simp: ghost_def RoomCount_def members_def)
qed

text \<open>Ann joins her second match; then both connections are closed.\<close>

definition ann_moved :: "mem_store world" where
  "ann_moved = says 0 (join_env ''m2'') in_match"

lemma runs_moved: "runs_to ann_moved"
  unfolding ann_moved_def by (rule reach_says [OF runs_in_match]) simp

lemma ann_moved_simps [simp]:
  "h_conns ann_moved = {0, Suc 0}"
  "members m ann_moved = (if m = ''m1'' then [0, Suc 0] else if m = ''m2'' then [0] else [])"
  "cn_match (w_conn ann_moved 0) = ''m2''"
proof -
  have j: "may_join wire_codec 0 (join_env ''m2'') in_match ''m2'' match2" by (simp add: may_join_env)
  show "h_conns ann_moved = {0, Suc 0}"
    "members m ann_moved = (if m = ''m1'' then [0, Suc 0] else if m = ''m2'' then [0] else [])"
    "cn_match (w_conn ann_moved 0) = ''m2''"
    using runs_inv [OF runs_in_match] by (simp_all add: ann_moved_def says_join_simps [OF _ _ j])
qed

definition all_gone :: "mem_store world" where
  "all_gone = close_conn (Suc 0) (close_conn 0 ann_moved)"

theorem stale_member_stays_witness:
  "Count all_gone = 0 \<and> 0 < RoomCount all_gone \<and> 0 \<in> set (members ''m1'' all_gone)"
proof -
  have conns: "h_conns (close_conn 0 ann_moved) = {Suc 0}" "h_conns all_gone = {}"
    by (auto simp: all_gone_def close_conn_def)
  have "reachable sample_env (close_conn 0 ann_moved) all_gone"
    unfolding all_gone_def using conns by (blast intro: Reach_step Reach_init Step_Close)
  then show ?thesis
    using stale_member_stays [OF runs_moved disjI2 [OF refl], of 0 "''m1''" all_gone] conns
    by (simp add: Count_def)
qed

section \<open>Scores out of nowhere\<close>

definition after_end :: "mem_store world" where
  "after_end = says 0 (end_env ''m1'' ''ann'' big_score 3) in_match"

lemma runs_end: "runs_to after_end"
  unfolding after_end_def by (rule reach_says [OF runs_in_match]) simp

lemma after_end_view: "mem_view (w_db after_end) = match_end_effect big_end 9 match1 (mem_view (w_db in_match))"
proof -
  have wf: "mem_wf (w_db in_match)" using runs_inv [OF runs_in_match] by blast
  obtain db where h: "handleMatchEnd wire_codec 9 0 (end_env ''m1'' ''ann'' big_score 3) in_match =
      (Inr (end_env ''m1'' ''ann'' big_score 3), broadcastRoom wire_codec (cn_match (w_conn in_match 0))
        (end_env ''m1'' ''ann'' big_score 3) 0 (in_match\<lparr>w_db := db\<rparr>))"
    and v: "mem_view db = match_end_effect big_end 9 match1 (mem_view (w_db in_match))"
    using handleMatchEnd_accepted [OF _ _ wf may_end_big, of 9] by (auto simp del: mem_view_simps)
  have type: "e_type (end_env ''m1'' ''ann'' big_score 3) = MT_MATCH_END" by (simp add: end_env_def)
  have "w_db after_end = db"
    by (simp add: after_end_def says_def handle_frame_def frame_back env_total dispatch_def h at_time_def
        send_def type)
  with v show ?thesis by simp
qed

text \<open>C17: A player can forge a score: there is a run of the server after which a player who has
  never submitted an attempt stands on the all-time board with the largest score there is, and
  on the daily board of the match as well, because MATCH_END takes its scores from the frame.
  (An attempt submitted over HTTP is worth at most 100 points.)\<close>

theorem match_end_forges_score:
  "\<exists>w. reachable sample_env (NewHubWithStore mem_iface (seeded sample_seed)) w
     \<and> v_attempts (mem_view (w_db w)) ''ann'' = (\<lambda>d. None)
     \<and> map_option sint (v_boards (mem_view (w_db w)) alltime_board ''ann'') = Some (2 ^ 63 - 1)
     \<and> map_option sint (v_boards (mem_view (w_db w)) (daily_board (m_date match1)) ''ann'') = Some (2 ^ 63 - 1)"
proof (intro exI [of _ after_end] conjI)
  have none: "v_attempts (mem_view (w_db two_conns)) u d = None" "v_boards (mem_view (w_db two_conns)) b u = None" for u d b
    by (simp_all add: mem_view_def board_of_def)
  note eff = after_end_view match_end_effect_def score_effect_def big_end_def
  have big: "sint big_score = 2 ^ 63 - 1" by (simp add: big_score_def)
  show "runs_to after_end" by (rule runs_end)
  show "v_attempts (mem_view (w_db after_end)) ''ann'' = (\<lambda>d. None)"
    by (rule ext) (simp add: eff Let_def none del: mem_view_simps)
  show "map_option sint (v_boards (mem_view (w_db after_end)) alltime_board ''ann'') = Some (2 ^ 63 - 1)"
    "map_option sint (v_boards (mem_view (w_db after_end)) (daily_board (m_date match1)) ''ann'') = Some (2 ^ 63 - 1)"
    by (simp_all add: eff Let_def none big best_score_def alltime_board_def daily_board_def del: mem_view_simps)
qed

end
