(* ===== verification/Store_Threads.thy ===== *)
theory Store_Threads
  imports Mongo_Props Ws_Props
begin

text \<open>
  The handlers at the granularity of the calls of the store. A handler runs in a goroutine of its own,
  and each call of the store is atomic (the in-memory store holds its mutex for the whole method, MongoDB
  answers one command), but between two calls of one handler the calls of others take place.

  \<^item> A program is a result, or a call of the store with what is left to do after it. \<open>run_prog\<close> runs one
    without interruption, \<open>pool_step\<close> lets any unfinished program of a pool make its next call.
  \<^item> \<open>job_prog\<close> gives the program of a request and of the part of a MATCH_END that works on the store.
    Run alone they are the handlers of \<open>Api\<close> and \<open>Ws_Hub\<close>.
\<close>

section \<open>Programs\<close>

datatype ('s, 'r) prog = Return 'r | Call "'s \<Rightarrow> ('s, 'r) prog \<times> 's"

primrec run_prog :: "('s, 'r) prog \<Rightarrow> 's \<Rightarrow> 'r \<times> 's" where
  "run_prog (Return r) = (\<lambda>s. (r, s))"
| "run_prog (Call f) = (\<lambda>s. case map_prod run_prog id (f s) of (run, s) \<Rightarrow> run s)"

definition call :: "('s \<Rightarrow> 'a \<times> 's) \<Rightarrow> ('a \<Rightarrow> ('s, 'r) prog) \<Rightarrow> ('s, 'r) prog" where
  "call op k = Call (\<lambda>s. case op s of (x, s) \<Rightarrow> (k x, s))"

lemma run_call [simp]: "run_prog (call op k) s = (case op s of (x, s) \<Rightarrow> run_prog (k x) s)"
  by (simp add: call_def split: prod.split)

text \<open>A handler that calls the store at most once.\<close>

definition atomic :: "('s \<Rightarrow> 'r \<times> 's) \<Rightarrow> ('s, 'r) prog" where
  "atomic h = call h Return"

lemma run_atomic [simp]: "run_prog (atomic h) = h"
  by (simp add: atomic_def fun_eq_iff split: prod.split)

inductive pool_step :: "('s, 'r) prog list \<times> 's \<Rightarrow> ('s, 'r) prog list \<times> 's \<Rightarrow> bool" where
  "i < length ps \<Longrightarrow> ps ! i = Call f \<Longrightarrow> f s = (p, s') \<Longrightarrow> pool_step (ps, s) (ps[i := p], s')"

inductive pool_run :: "('s, 'r) prog list \<times> 's \<Rightarrow> ('s, 'r) prog list \<times> 's \<Rightarrow> bool" where
  Pool_init: "pool_run c c"
| Pool_next: "pool_run c c' \<Longrightarrow> pool_step c' c'' \<Longrightarrow> pool_run c c''"

section \<open>The handlers as programs\<close>

text \<open>The two boards that a score goes to, the errors ignored.\<close>

definition both_prog :: "'s store_ops \<Rightarrow> string \<Rightarrow> string \<Rightarrow> int64 \<Rightarrow> ('s, 'r) prog \<Rightarrow> ('s, 'r) prog" where
  "both_prog ops date uid score k =
     call (st_SubmitScore ops (''lb:daily:'' @ date) uid score) (\<lambda>_.
     call (st_SubmitScore ops ''lb:global:alltime'' uid score) (\<lambda>_. k))"

text \<open>\<open>submit\<close>, from the puzzle on and from the start.\<close>

definition store_prog ::
  "'s store_ops \<Rightarrow> (string \<Rightarrow> string) \<Rightarrow> gotime \<Rightarrow> auth_claims \<Rightarrow> submit_request \<Rightarrow> puzzle \<Rightarrow> ('s, response) prog"
where
  "store_prog ops uni now2 claims req puzzle =
     (let attempt = finalize uni (new_attempt (c_uid claims) (sr_date req) (sr_guesses req) now2) (p_word puzzle);
          answer = Return (okJson (submit_response_json (a_score attempt) (a_won attempt)))
      in call (st_UpsertAttempt ops attempt) (\<lambda>put. case put of
           Inl err \<Rightarrow> Return (writeError 500 ''persist attempt'')
         | Inr _ \<Rightarrow>
             if 0 < sint (a_score attempt)
             then both_prog ops (sr_date req) (c_uid claims) (a_score attempt) answer
             else answer))"

definition submit_prog ::
  "'s store_ops \<Rightarrow> (string \<Rightarrow> string) \<Rightarrow> gotime \<Rightarrow> gotime \<Rightarrow> string \<Rightarrow> auth_claims option \<Rightarrow> ('s, response) prog"
where
  "submit_prog ops uni now1 now2 body ctx =
     (case ctx of
        None \<Rightarrow> Return (writeError 401 ''no claims'')
      | Some claims \<Rightarrow>
     (case decode_submit body of
        None \<Rightarrow> Return (writeError 400 ''invalid body'')
      | Some req \<Rightarrow>
     (if \<not> validDate (sr_date req) then Return (writeError 400 ''invalid date'')
      else if \<not> dateInWindow (sr_date req) now1 then Return (writeError 400 ''date out of submit window'')
      else if sr_guesses req = [] then Return (writeError 400 ''no guesses'')
      else
        call (st_GetPuzzle ops (sr_date req)) (\<lambda>got. case got of
          Inl err \<Rightarrow>
            Return (if errors_is err ErrNotFound then writeError 404 ''puzzle not found'' else writeError 500 ''store error'')
        | Inr puzzle \<Rightarrow> store_prog ops uni now2 claims req puzzle))))"

definition middleware_prog ::
  "verifier \<Rightarrow> 's upserter option \<Rightarrow> gotime \<Rightarrow> string \<Rightarrow> (auth_claims option \<Rightarrow> ('s, response) prog) \<Rightarrow> ('s, response) prog"
where
  "middleware_prog v up now hdr next =
     (case bearerFromHeader hdr of
        Inl _ \<Rightarrow> Return (unauthorized ''invalid_request'')
      | Inr tok \<Rightarrow>
          (case v tok of
             (_, Some _) \<Rightarrow> Return (unauthorized ''invalid_token'')
           | (claims, None) \<Rightarrow>
               (case up of
                  None \<Rightarrow> next (Some claims)
                | Some f \<Rightarrow> call (f now claims) (\<lambda>_. next (Some claims)))))"

text \<open>All handlers but \<open>submit\<close> call the store at most once.\<close>

definition handler_prog ::
  "'s store_ops \<Rightarrow> (string \<Rightarrow> string) \<Rightarrow> clock \<Rightarrow> route \<Rightarrow> auth_claims option \<Rightarrow> ('s, response) prog"
where
  "handler_prog ops uni ck r ctx =
     (case r of
        RSubmit body \<Rightarrow> submit_prog ops uni (ck_1 ck) (ck_2 ck) body ctx
      | _ \<Rightarrow> atomic (api_handler ops uni ck r ctx))"

definition serve_prog ::
  "'s store_ops \<Rightarrow> (string \<Rightarrow> string) \<Rightarrow> verifier option \<Rightarrow> 's upserter option \<Rightarrow> clock \<Rightarrow> string \<Rightarrow> route
     \<Rightarrow> ('s, response) prog"
where
  "serve_prog ops uni v up ck hdr r =
     (if is_protected r
      then (case v of
              None \<Rightarrow> handler_prog ops uni ck r None
            | Some v \<Rightarrow> middleware_prog v up (ck_auth ck) hdr (handler_prog ops uni ck r))
      else handler_prog ops uni ck r None)"

text \<open>All routes of the server; the health check pings the store.\<close>

fun http_prog ::
  "'s router \<Rightarrow> (string \<Rightarrow> string) \<Rightarrow> (http_route \<Rightarrow> response) \<Rightarrow> clock \<Rightarrow> string \<Rightarrow> http_route \<Rightarrow> ('s, response) prog"
where
  "http_prog rt uni files ck hdr HHealth = atomic (healthHandler (rt_store rt))"
| "http_prog rt uni files ck hdr (HApi r) =
     (case rt_store rt of
        None \<Rightarrow> Return (files (HApi r))
      | Some ops \<Rightarrow> serve_prog ops uni (rt_verifier rt) (asUpserter (rt_store rt)) ck hdr r)"
| "http_prog rt uni files ck hdr (HFile path) = Return (files (HFile path))"

text \<open>
  The part of \<open>handleMatchEnd\<close> between its guards and the broadcast. \<open>m\<close> is the match of the connection, the
  result the error that the handler returns.
\<close>

definition finish_prog :: "'s store_ops \<Rightarrow> gotime \<Rightarrow> match_end \<Rightarrow> game_match \<Rightarrow> ('s, go_error option) prog" where
  "finish_prog ops now req m =
     (if me_winner req \<noteq> [] \<and> roleOf (me_winner req) (m_players m) = [] then
        Return (Some (ErrText ''match_end: winner not in players''))
      else
        (let m = m\<lparr>m_state := ''ended'', m_winner := me_winner req,
                   m_turns := maxScoreToTurns (me_score1 req) (me_score2 req), m_ended := now\<rparr>
         in call (st_UpsertMatch ops m) (\<lambda>put. case put of
              Inl err \<Rightarrow> Return (Some (ErrWrap ''match_end upsert'' err))
            | Inr _ \<Rightarrow>
                (let p2 = (if length (m_players m) \<ge> 2 \<and> 0 < sint (me_score2 req)
                           then both_prog ops (m_date m) (m_players m ! 1) (me_score2 req) (Return None) else Return None)
                 in if length (m_players m) \<ge> 1 \<and> 0 < sint (me_score1 req)
                    then both_prog ops (m_date m) (m_players m ! 0) (me_score1 req) p2 else p2))))"

definition end_prog :: "'s store_ops \<Rightarrow> gotime \<Rightarrow> string \<Rightarrow> match_end \<Rightarrow> ('s, go_error option) prog" where
  "end_prog ops now matchID req =
     call (st_GetMatch ops matchID) (\<lambda>got. case got of
       Inl err \<Rightarrow> Return (Some (ErrWrap ''match_end get'' err))
     | Inr m \<Rightarrow> finish_prog ops now req m)"

datatype job =
    Request clock string route
  | MatchEnd gotime string match_end

datatype reply = Responded response | Ended "go_error option"

fun job_prog ::
  "'s store_ops \<Rightarrow> (string \<Rightarrow> string) \<Rightarrow> verifier option \<Rightarrow> 's upserter option \<Rightarrow> job \<Rightarrow> ('s, reply) prog"
where
  "job_prog ops uni v up (Request ck hdr r) = map_prog Responded (serve_prog ops uni v up ck hdr r)"
| "job_prog ops uni v up (MatchEnd now m req) = map_prog Ended (end_prog ops now m req)"

section \<open>Run alone, they are the handlers\<close>

lemma run_map [simp]: "run_prog (map_prog g p) s = map_prod g id (run_prog p s)"
proof (induction p arbitrary: s)
  case (Call f)
  obtain p s' where f: "f s = (p, s')" by fastforce
  have "run_prog (map_prog g p) s' = map_prod g id (run_prog p s')"
    by (rule Call [of "f s"]) (simp add: rangeI, simp add: f)
  with f show ?case by (simp add: id_def)
qed simp

lemma run_both: "run_prog (both_prog ops date uid score k) s = run_prog k (submit_both ops date uid score s)"
  by (simp add: both_prog_def submit_both_def Let_def split: prod.split)

lemma run_submit: "run_prog (submit_prog ops uni now1 now2 body ctx) s = attempts_submit ops uni now1 now2 body ctx s"
  by (simp add: submit_prog_def store_prog_def attempts_submit_def run_both submit_both_def daily_board_def alltime_board_def
      Let_def split: option.split sum.split prod.split)

lemma run_handler: "run_prog (handler_prog ops uni ck r ctx) s = api_handler ops uni ck r ctx s"
  by (cases r) (simp_all add: handler_prog_def run_submit api_handler_def)

lemma run_serve: "run_prog (serve_prog ops uni v up ck hdr r) s = api_serve ops uni v up ck hdr r s"
  by (auto simp: serve_prog_def api_serve_eq protect_def middleware_prog_def Middleware_def run_upserter_def run_handler
      split: option.split sum.split prod.split)

lemma run_http: "run_prog (http_prog rt uni files ck hdr r) s = serve_http rt uni files ck hdr r s"
  by (cases r) (simp_all add: run_serve split: option.split)

text \<open>How the part after the puzzle works on the submitted attempt.\<close>

lemma store_prog_eq:
  "store_prog ops uni now2 c req p =
     (let a = submitted_attempt uni (c_uid c) req now2 p;
          answer = Return (okJson (submit_response_json (a_score a) (a_won a)))
      in call (st_UpsertAttempt ops a) (\<lambda>put. case put of
           Inl err \<Rightarrow> Return (writeError 500 ''persist attempt'')
         | Inr _ \<Rightarrow> if 0 < sint (a_score a) then both_prog ops (sr_date req) (c_uid c) (a_score a) answer else answer))"
  by (simp only: store_prog_def submitted_attempt_def)

lemma submit_prog_eq:
  "decode_submit body = Some req \<Longrightarrow> acceptable req now1 \<Longrightarrow>
     submit_prog ops uni now1 now2 body (Some c) = call (st_GetPuzzle ops (sr_date req)) (\<lambda>got. case got of
       Inl err \<Rightarrow>
         Return (if errors_is err ErrNotFound then writeError 404 ''puzzle not found'' else writeError 500 ''store error'')
     | Inr puzzle \<Rightarrow> store_prog ops uni now2 c req puzzle)"
  by (simp add: submit_prog_def acceptable_def)

lemma submit_prog_bad:
  "\<nexists>req. decode_submit body = Some req \<and> acceptable req now1 \<Longrightarrow> \<exists>x. submit_prog ops uni now1 now2 body ctx = Return x"
  by (auto simp: submit_prog_def acceptable_def split: option.split)

text \<open>The guards of \<open>handleMatchEnd\<close>, which do not touch the store.\<close>

definition end_guard :: "codec \<Rightarrow> nat \<Rightarrow> envelope \<Rightarrow> 's world \<Rightarrow> go_error + 's store_ops \<times> match_end" where
  "end_guard cdc c env w =
     (case h_store w of
        None \<Rightarrow> Inl (ErrText ''match_end: store unwired'')
      | Some ops \<Rightarrow>
          if cn_match (w_conn w c) = [] then Inl (ErrText ''match_end: conn not in a room'')
          else
            (case unmarshal (pb_match_end cdc) (e_payload env) of
               Inl err \<Rightarrow> Inl (ErrWrap ''match_end unmarshal'' err)
             | Inr req \<Rightarrow>
                 if me_match_id req \<noteq> cn_match (w_conn w c) then Inl (ErrText ''match_end: match_id mismatch'')
                 else Inr (ops, req)))"

lemma run_end:
  "handleMatchEnd cdc now c env w =
     (case end_guard cdc c env w of
        Inl err \<Rightarrow> (Inl err, w)
      | Inr (ops, req) \<Rightarrow>
          (case run_prog (end_prog ops now (cn_match (w_conn w c)) req) (w_db w) of
             (Some err, db) \<Rightarrow> (Inl err, w\<lparr>w_db := db\<rparr>)
           | (None, db) \<Rightarrow> (Inr env, broadcastRoom cdc (cn_match (w_conn w c)) env c (w\<lparr>w_db := db\<rparr>))))"
proof (cases "end_guard cdc c env w")
  case (Inl err)
  then show ?thesis by (auto simp: handleMatchEnd_def end_guard_def split: option.splits sum.splits if_splits)
next
  case (Inr x)
  then obtain ops req where x: "end_guard cdc c env w = Inr (ops, req)"
    and g: "h_store w = Some ops" "cn_match (w_conn w c) \<noteq> []"
      "unmarshal (pb_match_end cdc) (e_payload env) = Inr req" "me_match_id req = cn_match (w_conn w c)"
    by (auto simp: end_guard_def split: option.splits sum.splits if_splits)
  obtain r db where get: "st_GetMatch ops (cn_match (w_conn w c)) (w_db w) = (r, db)" by fastforce
  show ?thesis
  proof (cases r)
    case (Inr m)
    obtain r' db' where put: "st_UpsertMatch ops (ended_match req now m) db = (r', db')" by fastforce
    show ?thesis
    proof (cases "me_winner req \<noteq> [] \<and> roleOf (me_winner req) (m_players m) = []")
      case True
      then show ?thesis by (simp add: x handleMatchEnd_def end_prog_def finish_prog_def g get Inr del: roleOf_ne)
    next
      case False
      then show ?thesis
        unfolding x handleMatchEnd_def end_prog_def finish_prog_def
        by (cases r'; simp only: g get Inr put [unfolded ended_match_def] run_call run_both Let_def
            prod.case sum.case option.case if_False if_True run_prog.simps simp_thms game_match.simps if_split; auto simp: run_both)
    qed
  qed (simp add: x handleMatchEnd_def end_prog_def g get)
qed

end
