(* ===== verification/Thread_Effects.thy ===== *)
theory Thread_Effects
  imports Store_Threads
begin

text \<open>
  What a program does to a store, whatever other programs do in between. No program changes a puzzle, or of
  a match anything but its state, winner, turns and end (\<open>frozen\<close>), so the writes of a program are determined when it
  starts: \<open>does\<close> says that a program will perform a given list of writes. A run of a pool is then an
  interleaving of these lists (\<open>pool_log\<close>).
\<close>

section \<open>Programs with known writes\<close>

abbreviation write_of :: "store_write \<Rightarrow> store_view \<Rightarrow> store_view" where
  "write_of \<equiv> write_view (\<lambda>t. t)"

inductive does ::
  "('s \<Rightarrow> store_view) \<Rightarrow> ('s \<Rightarrow> bool) \<Rightarrow> ('r \<Rightarrow> bool) \<Rightarrow> store_write list \<Rightarrow> ('s, 'r) prog \<Rightarrow> bool"
  for view :: "'s \<Rightarrow> store_view" and good :: "'s \<Rightarrow> bool" and R :: "'r \<Rightarrow> bool"
where
  Does_Return: "R r \<Longrightarrow> does view good R [] (Return r)"
| Does_Read:
    "(\<And>s p s'. good s \<Longrightarrow> f s = (p, s') \<Longrightarrow> good s' \<and> view s' = view s \<and> does view good R ws p)
      \<Longrightarrow> does view good R ws (Call f)"
| Does_Write:
    "(\<And>s p s'. good s \<Longrightarrow> f s = (p, s') \<Longrightarrow> good s' \<and> view s' = write_of w (view s) \<and> does view good R ws p)
      \<Longrightarrow> does view good R (w # ws) (Call f)"

inductive_simps does_Return_iff: "does view good R ws (Return r)"
inductive_simps does_Call_iff: "does view good R ws (Call f)"

lemma does_step:
  assumes "does view good R ws (Call f)" and "good s" and "f s = (p, s')"
  obtains "good s'" "view s' = view s" "does view good R ws p"
  | w ws' where "ws = w # ws'" "good s'" "view s' = write_of w (view s)" "does view good R ws' p"
  using assms by (auto simp: does_Call_iff)

lemma does_read:
  assumes "\<And>s. good s \<Longrightarrow> good (snd (op s)) \<and> view (snd (op s)) = view s \<and> does view good R ws (k (fst (op s)))"
  shows "does view good R ws (call op k)"
  unfolding call_def
proof (rule Does_Read)
  fix s p s' assume "good s" "(case op s of (x, s) \<Rightarrow> (k x, s)) = (p, s')"
  with assms [of s] show "good s' \<and> view s' = view s \<and> does view good R ws p" by (auto split: prod.splits)
qed

lemma does_write:
  assumes "\<And>s. good s \<Longrightarrow> good (snd (op s)) \<and> view (snd (op s)) = write_of w (view s) \<and> does view good R ws (k (fst (op s)))"
  shows "does view good R (w # ws) (call op k)"
  unfolding call_def
proof (rule Does_Write)
  fix s p s' assume "good s" "(case op s of (x, s) \<Rightarrow> (k x, s)) = (p, s')"
  with assms [of s] show "good s' \<and> view s' = write_of w (view s) \<and> does view good R ws p" by (auto split: prod.splits)
qed

lemma does_atomic:
  "(\<And>s. good s \<Longrightarrow> good (snd (h s)) \<and> view (snd (h s)) = view s) \<Longrightarrow> does view good (\<lambda>_. True) [] (atomic h)"
  unfolding atomic_def by (rule does_read) (auto intro: Does_Return)

lemma does_mono: "does view good R ws p \<Longrightarrow> (\<And>r. R r \<Longrightarrow> Q r) \<Longrightarrow> does view good Q ws p"
  by (induction rule: does.induct) (blast intro: does.intros)+

lemma does_map: "does view good R ws p \<Longrightarrow> (\<And>r. R r \<Longrightarrow> Q (g r)) \<Longrightarrow> does view good Q ws (map_prog g p)"
proof (induction rule: does.induct)
  case (Does_Read f ws)
  show ?case
    unfolding prog.map by (rule does.Does_Read) (use Does_Read in \<open>fastforce simp: map_prod_def split: prod.splits\<close>)
next
  case (Does_Write f w ws)
  show ?case
    unfolding prog.map by (rule does.Does_Write) (use Does_Write in \<open>fastforce simp: map_prod_def split: prod.splits\<close>)
qed (simp add: Does_Return)

text \<open>Alone, it performs them in one go.\<close>

lemma does_run:
  assumes "does view good R ws p" and "good s"
  shows "good (snd (run_prog p s)) \<and> R (fst (run_prog p s)) \<and> view (snd (run_prog p s)) = fold write_of ws (view s)"
  using assms
proof (induction arbitrary: s rule: does.induct)
  case (Does_Read f ws)
  obtain p s' where "f s = (p, s')" by fastforce
  with Does_Read.IH [OF Does_Read.prems this] show ?case by simp
next
  case (Does_Write f w ws)
  obtain p s' where "f s = (p, s')" by fastforce
  with Does_Write.IH [OF Does_Write.prems this] show ?case by simp
qed simp

section \<open>The log of a pool\<close>

definition part :: "nat \<Rightarrow> (nat \<times> 'w) list \<Rightarrow> 'w list" where
  "part i log = map snd (filter (\<lambda>x. fst x = i) log)"

lemma part_simps [simp]: "part i [] = []" "part i (log @ [(j, w)]) = part i log @ (if i = j then [w] else [])"
  by (simp_all add: part_def)

definition logged ::
  "('s \<Rightarrow> store_view) \<Rightarrow> ('s \<Rightarrow> bool) \<Rightarrow> (nat \<Rightarrow> 'r \<Rightarrow> bool) \<Rightarrow> (nat \<Rightarrow> store_write list) \<Rightarrow> store_view
     \<Rightarrow> (nat \<times> store_write) list \<Rightarrow> ('s, 'r) prog list \<times> 's \<Rightarrow> bool"
where
  "logged view good R W v0 log c \<longleftrightarrow>
     (case c of (ps, s) \<Rightarrow>
        good s \<and> (\<forall>x \<in> set log. fst x < length ps) \<and> view s = fold write_of (map snd log) v0 \<and>
        (\<forall>i < length ps. \<exists>rest. W i = part i log @ rest \<and> does view good (R i) rest (ps ! i)))"

lemma logged_step:
  assumes "pool_step c c'" and "logged view good R W v0 log c"
  shows "\<exists>log'. logged view good R W v0 log' c'"
  using assms
proof cases
  case (1 i ps f s p s')
  have lg: "good s" "\<forall>x \<in> set log. fst x < length ps" "view s = fold write_of (map snd log) v0"
    "\<forall>j < length ps. \<exists>rest. W j = part j log @ rest \<and> does view good (R j) rest (ps ! j)"
    using assms(2) 1(1) by (simp_all add: logged_def)
  obtain rest where rest: "W i = part i log @ rest" "does view good (R i) rest (Call f)"
    using lg(4) 1(3,4) by metis
  show ?thesis
  proof (cases rule: does_step [OF rest(2) lg(1) 1(5)])
    case rd: 1
    have "logged view good R W v0 log c'"
      using lg rest(1) 1(2,3) rd by (auto simp: logged_def nth_list_update)
    then show ?thesis by blast
  next
    case wr: (2 w ws)
    have "logged view good R W v0 (log @ [(i, w)]) c'"
      using lg rest(1) 1(2,3) wr by (auto simp: logged_def nth_list_update)
    then show ?thesis by blast
  qed
qed

lemma pool_log:
  assumes "pool_run c c'" and "logged view good R W v0 [] c"
  shows "\<exists>log. logged view good R W v0 log c'"
  using assms by (induction rule: pool_run.induct) (auto dest: logged_step)

lemma pool_length: "pool_run c c' \<Longrightarrow> length (fst c') = length (fst c)"
  by (induction rule: pool_run.induct) (auto elim: pool_step.cases)

end
