(* ===== verification/Thread_Order.thy ===== *)
theory Thread_Order
  imports Thread_Effects
begin

text \<open>
  Any interleaving of the writes of handlers has the effect of some serial order, on everything but the user records.
  A handler writes at most one attempt or match, and scores, which commute with everything: the serial order is
  the order of the attempts and matches in the log.
\<close>

section \<open>Interleavings and serial orders\<close>

lemma mset_parts:
  "\<forall>x \<in> set log. fst x < n \<Longrightarrow> mset (map snd log) = mset (concat (map (\<lambda>i. part i log) [0..<n]))"
proof (induction log rule: rev_induct)
  case Nil
  have "concat (map (\<lambda>i. part i []) is) = []" for "is" :: "nat list" by (induction "is") simp_all
  then show ?case by simp
next
  case (snoc x log)
  obtain j w where x: "x = (j, w)" by (cases x)
  have "mset (concat (map (\<lambda>i. part i log @ (if i = j then [w] else [])) is))
      = mset (concat (map (\<lambda>i. part i log) is)) + (if j \<in> set is then {#w#} else {#})" if "distinct is" for "is"
    using that by (induction "is") auto
  from this [of "[0..<n]"] snoc show ?case by (simp add: x)
qed

lemma mset_concat_map:
  assumes "mset is = mset js"
  shows "mset (concat (map f is)) = mset (concat (map f js))"
proof -
  have "mset (concat (map f ks)) = (\<Sum>k \<in># mset ks. mset (f k))" for ks by (induction ks) simp_all
  with assms show ?thesis by simp
qed

lemma single_elem: "length xs \<le> 1 \<Longrightarrow> y \<in> set xs \<Longrightarrow> xs = [y]"
  by (cases xs) auto

lemma distinct_keys:
  assumes "\<And>y. y \<in> set xs \<Longrightarrow> filter (\<lambda>x. fst x = fst y) xs = [y]"
  shows "distinct (map fst xs)"
proof -
  have count: "count (mset (map fst ys)) i = length (filter (\<lambda>x. fst x = i) ys)" for ys :: "('a \<times> 'b) list" and i
    by (induction ys) auto
  have "count (mset (map fst xs)) i = (if i \<in> set (map fst xs) then 1 else 0)" for i
  proof (cases "i \<in> set (map fst xs)")
    case True
    then obtain y where "y \<in> set xs" "i = fst y" by auto
    then show ?thesis using assms [of y] count [of xs i] True by (simp only: list.size if_True)
  next
    case False
    then show ?thesis by (simp only: if_False count_eq_zero_iff set_mset_mset not_False_eq_True)
  qed
  then show ?thesis by (simp add: distinct_count_atmost_1 del: mset_map)
qed

lemma serial_order:
  assumes tags: "\<forall>x \<in> set log. fst x < n" and parts: "\<And>i. i < n \<Longrightarrow> part i log = W i"
    and one: "\<And>i. i < n \<Longrightarrow> length (filter P (W i)) \<le> 1"
  shows "\<exists>is. mset is = mset [0..<n] \<and> filter P (map snd log) = filter P (concat (map W is))
     \<and> mset (map snd log) = mset (concat (map W is))"
proof -
  define main where "main = filter (\<lambda>x. P (snd x)) log"
  define ks where "ks = map fst main"
  define rest where "rest = filter (\<lambda>i. i \<notin> set ks) [0..<n]"
  have mains: "filter P (W i) = map snd (filter (\<lambda>x. fst x = i) main)" if "i < n" for i
    using parts [OF that, symmetric] by (simp add: part_def main_def filter_map comp_def conj_commute)
  have ks_n: "\<forall>y \<in> set main. fst y < n" using tags by (auto simp: main_def)
  have single: "filter (\<lambda>x. fst x = fst y) main = [y]" if "y \<in> set main" for y
    using single_elem [of "filter (\<lambda>x. fst x = fst y) main" y] one [of "fst y"] mains [of "fst y"] that ks_n by auto
  have "distinct ks" unfolding ks_def by (rule distinct_keys) (rule single)
  then have perm: "mset (ks @ rest) = mset [0..<n]"
    using ks_n by (intro set_eq_iff_mset_eq_distinct [THEN iffD1]) (auto simp: rest_def ks_def)
  have "filter P (concat (map W (map fst ys))) = map snd ys" if "set ys \<subseteq> set main" for ys
    using that
  proof (induction ys)
    case (Cons y ys)
    then have "filter P (W (fst y)) = [snd y]" using ks_n mains [of "fst y"] single [of y] by auto
    with Cons show ?case by simp
  qed simp
  then have "filter P (concat (map W ks)) = map snd main" by (simp add: ks_def)
  moreover have "filter P (W i) = []" if "i \<in> set rest" for i
    using mains [of i] that by (auto simp: rest_def ks_def filter_empty_conv)
  then have "filter P (concat (map W rest)) = []" by (auto simp: filter_empty_conv)
  moreover have "mset (map snd log) = mset (concat (map W (ks @ rest)))"
  proof -
    have "map (\<lambda>i. part i log) [0..<n] = map W [0..<n]" using parts by simp
    then show ?thesis using mset_parts [OF tags] mset_concat_map [OF perm, of W] by (simp only:)
  qed
  ultimately show ?thesis
    using perm by (intro exI [of _ "ks @ rest"]) (simp add: main_def filter_map comp_def)
qed

section \<open>Writes that commute\<close>

definition no_users :: "store_view \<Rightarrow> store_view" where
  "no_users v = v\<lparr>v_users := (\<lambda>_. None)\<rparr>"

fun is_score :: "store_write \<Rightarrow> bool" where
  "is_score (WScore _ _ _) = True"
| "is_score _ = False"

fun is_main :: "store_write \<Rightarrow> bool" where
  "is_main (WAttempt _) = True"
| "is_main (WMatch _) = True"
| "is_main _ = False"

fun is_seed :: "store_write \<Rightarrow> bool" where
  "is_seed (WPuzzle _) = True"
| "is_seed _ = False"

lemma view_eqI:
  fixes v v' :: store_view
  assumes "v_users v = v_users v'" "v_puzzles v = v_puzzles v'" "v_attempts v = v_attempts v'"
    "v_matches v = v_matches v'" "v_boards v = v_boards v'"
  shows "v = v'"
  by (rule store_view.equality) (use assms in simp_all)

lemma best_score_commute: "best_score x (Some (best_score y old)) = best_score y (Some (best_score x old))"
  by (cases old) (auto simp: best_score_def not_le intro: signed_word_eqI signed_word_eqI [symmetric])

lemma score_score: "write_of (WScore b u sc) (write_of (WScore b' u' sc') v) = write_of (WScore b' u' sc') (write_of (WScore b u sc) v)"
  by (rule view_eqI) (auto simp: fun_eq_iff best_score_commute)

lemma scores_commute: "is_score x \<Longrightarrow> is_score y \<Longrightarrow> write_of x \<circ> write_of y = write_of y \<circ> write_of x"
  by (cases x; cases y) (simp_all add: fun_eq_iff score_score [unfolded write_view.simps])

lemma score_main: "is_main y \<Longrightarrow> write_of (WScore b u sc) (write_of y v) = write_of y (write_of (WScore b u sc) v)"
  by (cases y) (simp_all add: view_put_attempt_def view_put_match_def view_submit_def)

lemma score_mains:
  "list_all is_main ys \<Longrightarrow> fold write_of ys (write_of (WScore b u sc) v) = write_of (WScore b u sc) (fold write_of ys v)"
proof (induction ys arbitrary: v)
  case (Cons y ys)
  from Cons.prems have y: "is_main y" "list_all is_main ys" by simp_all
  show ?case using Cons.IH [OF y(2), of "write_of y v"] score_main [OF y(1), of b u sc v] by simp
qed simp

lemma no_users_eq:
  "no_users v = no_users v' \<longleftrightarrow> v_puzzles v = v_puzzles v' \<and> v_attempts v = v_attempts v' \<and> v_matches v = v_matches v'
     \<and> v_boards v = v_boards v'"
  by (cases v; cases v') (simp add: no_users_def)

lemma no_users_write: "no_users v = no_users v' \<Longrightarrow> no_users (write_of w v) = no_users (write_of w v')"
  unfolding no_users_eq
  by (cases w) (simp_all add: view_auth_def view_put_puzzle_def view_put_attempt_def view_put_match_def view_submit_def)

lemma no_users_auth: "no_users (write_of (WAuth now c) v) = no_users v"
  by (simp add: no_users_def view_auth_def)

lemma no_users_writes: "no_users v = no_users v' \<Longrightarrow> no_users (fold write_of ws v) = no_users (fold write_of ws v')"
proof (induction ws arbitrary: v v')
  case (Cons w ws)
  show ?case using Cons.IH [OF no_users_write [OF Cons.prems, of w]] by simp
qed simp

lemma main_then_scores:
  "\<forall>w \<in> set ws. \<not> is_seed w \<Longrightarrow>
     no_users (fold write_of ws v) = no_users (fold write_of (filter is_score ws) (fold write_of (filter is_main ws) v))"
proof (induction ws arbitrary: v)
  case (Cons w ws)
  have mains: "list_all is_main (filter is_main ws)" by (simp add: list_all_iff)
  show ?case
  proof (cases w)
    case (WAuth now c)
    have "no_users (fold write_of ws (write_of (WAuth now c) v)) = no_users (fold write_of ws v)"
      by (rule no_users_writes) (rule no_users_auth)
    with Cons WAuth show ?thesis by simp
  qed (use Cons score_mains [OF mains, of _ _ _ v] in simp_all)
qed simp

lemma same_effect:
  assumes "\<forall>w \<in> set ws. \<not> is_seed w" and "filter is_main ws = filter is_main ws'" and "mset ws = mset ws'"
  shows "no_users (fold write_of ws v) = no_users (fold write_of ws' v)"
proof -
  have "\<forall>w \<in> set ws'. \<not> is_seed w" using assms(1) mset_eq_setD [OF assms(3)] by simp
  moreover have "mset (filter is_score ws) = mset (filter is_score ws')" using assms(3) by simp
  then have "fold write_of (filter is_score ws) = fold write_of (filter is_score ws')"
    by (intro fold_multiset_equiv) (simp_all add: scores_commute)
  ultimately show ?thesis using main_then_scores [OF assms(1)] main_then_scores [of ws'] assms(2) by simp
qed

end
