(* ===== verification/Thread_Props.thy ===== *)
theory Thread_Props
  imports Thread_Order
begin

text \<open>
  Concurrent handlers: the writes of each handler, and that a pool of handlers does to the store what they would have done
  one after another.
\<close>

section \<open>What no handler changes\<close>

definition static :: "game_match \<Rightarrow> game_match" where
  "static m = m\<lparr>m_state := [], m_turns := 0, m_winner := [], m_ended := 0\<rparr>"

definition frozen :: "store_view \<Rightarrow> store_view \<Rightarrow> bool" where
  "frozen v0 v \<longleftrightarrow>
     v_puzzles v = v_puzzles v0 \<and> keyed_matches v \<and>
     (\<forall>i. map_option static (v_matches v i) = map_option static (v_matches v0 i))"

lemma static_ended [simp]: "static (ended_match req now m) = static m"
  by (simp add: static_def ended_match_def)

lemma ended_static: "static m = static m' \<Longrightarrow> ended_match req now m = ended_match req now m'"
  by (cases m; cases m') (simp add: static_def ended_match_def)

lemma static_fields:
  "static m = static m' \<Longrightarrow> m_id m = m_id m' \<and> m_players m = m_players m' \<and> m_date m = m_date m'"
  by (cases m; cases m') (simp add: static_def)

lemma frozen_simps [simp]:
  "frozen v0 (view_auth now c v) = frozen v0 v" "frozen v0 (view_put_attempt a v) = frozen v0 v"
  "frozen v0 (view_submit b u sc v) = frozen v0 v"
  by (simp_all add: frozen_def keyed_matches_def)

lemma frozen_refl: "keyed_matches v \<Longrightarrow> frozen v v"
  by (simp add: frozen_def)

lemma frozen_match:
  assumes "frozen v0 v"
  shows "v_matches v0 i = None \<Longrightarrow> v_matches v i = None"
    and "v_matches v0 i = Some m0 \<Longrightarrow> \<exists>m. v_matches v i = Some m \<and> static m = static m0 \<and> m_id m = i"
proof -
  have same: "map_option static (v_matches v i) = map_option static (v_matches v0 i)"
    using assms by (simp add: frozen_def)
  then show "v_matches v0 i = None \<Longrightarrow> v_matches v i = None" by simp
  show "v_matches v0 i = Some m0 \<Longrightarrow> \<exists>m. v_matches v i = Some m \<and> static m = static m0 \<and> m_id m = i"
    using same assms by (auto simp: frozen_def keyed_matches_def)
qed

lemma frozen_put:
  assumes "frozen v0 v" and "v_matches v i = Some m"
  shows "frozen v0 (view_put_match (ended_match req now m) v)"
proof -
  have "m_id m = i" using assms by (simp add: frozen_def keyed_matches_def)
  moreover have "map_option static (v_matches v i) = map_option static (v_matches v0 i)"
    using assms(1) by (simp add: frozen_def)
  then have "map_option static (v_matches v0 i) = Some (static m)" using assms(2) by simp
  ultimately show ?thesis using assms(1) by (auto simp: frozen_def keyed_matches_def)
qed

section \<open>The writes of a job\<close>

definition score_writes :: "string \<Rightarrow> string \<Rightarrow> int64 \<Rightarrow> store_write list" where
  "score_writes d u sc = [WScore (daily_board d) u sc, WScore alltime_board u sc]"

definition submit_writes ::
  "(string \<Rightarrow> string) \<Rightarrow> store_view \<Rightarrow> gotime \<Rightarrow> gotime \<Rightarrow> string \<Rightarrow> auth_claims \<Rightarrow> store_write list"
where
  "submit_writes uni v now1 now2 body claims =
     (case decode_submit body of
        None \<Rightarrow> []
      | Some req \<Rightarrow>
          if \<not> acceptable req now1 then []
          else (case v_puzzles v (sr_date req) of
                  None \<Rightarrow> []
                | Some p \<Rightarrow>
                    (let a = submitted_attempt uni (c_uid claims) req now2 p
                     in WAttempt a # (if 0 < sint (a_score a) then score_writes (a_date a) (a_uid a) (a_score a) else []))))"

definition end_writes :: "store_view \<Rightarrow> gotime \<Rightarrow> string \<Rightarrow> match_end \<Rightarrow> store_write list" where
  "end_writes v now i req =
     (case v_matches v i of
        None \<Rightarrow> []
      | Some m \<Rightarrow>
          if me_winner req \<noteq> [] \<and> me_winner req \<notin> set (m_players m) then []
          else WMatch (ended_match req now m)
            # (if m_players m \<noteq> [] \<and> 0 < sint (me_score1 req)
               then score_writes (m_date m) (m_players m ! 0) (me_score1 req) else [])
            @ (if 1 < length (m_players m) \<and> 0 < sint (me_score2 req)
               then score_writes (m_date m) (m_players m ! 1) (me_score2 req) else []))"

fun job_writes :: "(string \<Rightarrow> string) \<Rightarrow> verifier option \<Rightarrow> store_view \<Rightarrow> job \<Rightarrow> store_write list" where
  "job_writes uni v view (Request ck hdr r) =
     (if is_protected r
      then (case accepted v hdr of
              None \<Rightarrow> []
            | Some c \<Rightarrow> WAuth (ck_auth ck) c
                # (case r of RSubmit body \<Rightarrow> submit_writes uni view (ck_1 ck) (ck_2 ck) body c | _ \<Rightarrow> []))
      else [])"
| "job_writes uni v view (MatchEnd now i req) = end_writes view now i req"

definition tidy :: "store_write list \<Rightarrow> bool" where
  "tidy ws \<longleftrightarrow> length (filter is_main ws) \<le> 1 \<and> (\<forall>w \<in> set ws. \<not> is_seed w)"

lemma tidy_score_writes [simp]:
  "filter is_main (score_writes d u sc) = []" "w \<in> set (score_writes d u sc) \<Longrightarrow> \<not> is_seed w"
  by (auto simp: score_writes_def)

lemma tidy_submit: "tidy (submit_writes uni v now1 now2 body c)"
  by (auto simp: tidy_def submit_writes_def Let_def split: option.split)

lemma tidy_end: "tidy (end_writes v now i req)"
  by (auto simp: tidy_def end_writes_def split: option.split)

lemma tidy_auth: "tidy ws \<Longrightarrow> tidy (WAuth now c # ws)"
  by (simp add: tidy_def)

lemma tidy_job: "tidy (job_writes uni v view j)"
proof (cases j)
  case (Request ck hdr r)
  have "tidy (case r of RSubmit body \<Rightarrow> submit_writes uni view (ck_1 ck) (ck_2 ck) body c | _ \<Rightarrow> [])" for c
    by (cases r) (simp_all add: tidy_submit, simp_all add: tidy_def)
  then show ?thesis by (simp add: Request tidy_auth tidy_def [of "[]"] split: option.split)
qed (simp add: tidy_end)

text \<open>The jobs one after another.\<close>

definition serial_run ::
  "'s store_ops \<Rightarrow> (string \<Rightarrow> string) \<Rightarrow> verifier option \<Rightarrow> 's upserter option \<Rightarrow> job list \<Rightarrow> 's \<Rightarrow> 's"
where
  "serial_run ops uni v up js s = fold (\<lambda>j s. snd (run_prog (job_prog ops uni v up j) s)) js s"

text \<open>The jobs whose answer does not depend on what others do meanwhile.\<close>

fun is_writer :: "job \<Rightarrow> bool" where
  "is_writer (Request ck hdr (RSubmit body)) = True"
| "is_writer (MatchEnd now i req) = True"
| "is_writer _ = False"

section \<open>Every handler performs its writes\<close>

context store_strict
begin

definition calm :: "store_view \<Rightarrow> 's \<Rightarrow> bool" where
  "calm v0 s \<longleftrightarrow> ok s \<and> opened s \<and> frozen v0 (view s)"

lemma calm_read:
  assumes "read_op view (\<lambda>s. ok s \<and> opened s) f" and "calm v0 s"
  shows "calm v0 (snd (f s)) \<and> view (snd (f s)) = view s"
  using read_opD [OF assms(1)] assms(2) by (simp add: calm_def)

lemma calm_score:
  "calm v0 s \<Longrightarrow> calm v0 (snd (st_SubmitScore ops b u sc s))
     \<and> view (snd (st_SubmitScore ops b u sc s)) = write_of (WScore b u sc) (view s)"
  using live.ret_submit_score [of s b u sc] submit_view [of s b u sc] by (auto simp: calm_def)

lemma does_scores:
  assumes "does view (calm v0) R ws k"
  shows "does view (calm v0) R (score_writes d u sc @ ws) (both_prog ops d u sc k)"
proof -
  have step: "does view (calm v0) R (WScore b u sc # ws') (call (st_SubmitScore ops b u sc) (\<lambda>_. k'))"
    if "does view (calm v0) R ws' k'" for b ws' k'
    using calm_score that by (intro does_write) blast
  show ?thesis
    unfolding both_prog_def score_writes_def daily_board_def alltime_board_def append_Cons append_Nil
    by (intro step assms)
qed

lemma calm_put_attempt:
  assumes "calm v0 s" and "length (a_date a) = 10"
  shows "calm v0 (snd (st_UpsertAttempt ops a s))
    \<and> view (snd (st_UpsertAttempt ops a s)) = write_of (WAttempt a) (view s) \<and> fst (st_UpsertAttempt ops a s) = Inr ()"
  using live.ret_put_attempt [of a s] put_attempt_view [of s a] put_attempt_opened [of s a] assms
  by (cases "st_UpsertAttempt ops a s") (auto simp: calm_def)

lemma calm_get_puzzle:
  assumes "calm v0 s"
  shows "calm v0 (snd (st_GetPuzzle ops d s)) \<and> view (snd (st_GetPuzzle ops d s)) = view s
    \<and> fst (st_GetPuzzle ops d s) = (case v_puzzles v0 d of Some p \<Rightarrow> Inr p | None \<Rightarrow> Inl ErrNotFound)"
  using live.ret_puzzle [of d s] puzzle_opened [of s d] assms
  by (cases "st_GetPuzzle ops d s") (auto simp: calm_def frozen_def)

lemma does_store:
  assumes "length (sr_date req) = 10" and a_def: "a = submitted_attempt uni (c_uid c) req now2 p"
  shows "does view (calm v0) (\<lambda>r. r = okJson (submit_response_json (a_score a) (a_won a)))
    (WAttempt a # (if 0 < sint (a_score a) then score_writes (a_date a) (a_uid a) (a_score a) else []))
    (store_prog ops uni now2 c req p)"
proof -
  let ?answer = "okJson (submit_response_json (a_score a) (a_won a))"
  have fields: "a_date a = sr_date req" "a_uid a = c_uid c" by (simp_all add: a_def)
  have scores: "does view (calm v0) (\<lambda>r. r = ?answer) (if 0 < sint (a_score a) then score_writes (a_date a) (a_uid a) (a_score a) else [])
      (if 0 < sint (a_score a) then both_prog ops (sr_date req) (c_uid c) (a_score a) (Return ?answer) else Return ?answer)"
    using does_scores [of v0 "\<lambda>r. r = ?answer" "[]" "Return ?answer" "sr_date req" "c_uid c" "a_score a"]
    by (simp add: fields does_Return_iff)
  have len: "length (a_date a) = 10" by (simp add: fields assms(1))
  show ?thesis
    unfolding store_prog_eq Let_def a_def [symmetric]
    by (rule does_write) (simp only: calm_put_attempt [OF _ len] sum.case scores simp_thms)
qed

lemma does_submit:
  "\<exists>x. does view (calm v0) (\<lambda>r. r = x) (submit_writes uni v0 now1 now2 body c) (submit_prog ops uni now1 now2 body (Some c))"
proof (cases "\<exists>req. decode_submit body = Some req \<and> acceptable req now1")
  case False
  then have "submit_writes uni v0 now1 now2 body c = []" by (auto simp: submit_writes_def split: option.split)
  with submit_prog_bad [OF False, of ops uni now2 "Some c"] show ?thesis by (auto simp: does_Return_iff)
next
  case True
  then obtain req where req: "decode_submit body = Some req" "acceptable req now1" by blast
  then have len: "length (sr_date req) = 10" by (simp add: acceptable_def validDate_length)
  note prog = submit_prog_eq [OF req]
  show ?thesis
  proof (cases "v_puzzles v0 (sr_date req)")
    case None
    have "does view (calm v0) (\<lambda>r. r = writeError 404 ''puzzle not found'') [] (submit_prog ops uni now1 now2 body (Some c))"
      unfolding prog by (rule does_read) (simp add: calm_get_puzzle None does_Return_iff)
    then show ?thesis using req None by (auto simp: submit_writes_def)
  next
    case (Some p)
    note stored = does_store [OF len refl, of v0 uni c now2 p]
    have "submit_writes uni v0 now1 now2 body c = (let a = submitted_attempt uni (c_uid c) req now2 p
        in WAttempt a # (if 0 < sint (a_score a) then score_writes (a_date a) (a_uid a) (a_score a) else []))"
      by (simp only: submit_writes_def req Some option.case simp_thms if_False)
    moreover have "does view (calm v0) (\<lambda>r. r = okJson (submit_response_json (a_score (submitted_attempt uni (c_uid c) req now2 p))
          (a_won (submitted_attempt uni (c_uid c) req now2 p))))
        (let a = submitted_attempt uni (c_uid c) req now2 p
         in WAttempt a # (if 0 < sint (a_score a) then score_writes (a_date a) (a_uid a) (a_score a) else []))
        (submit_prog ops uni now1 now2 body (Some c))"
      unfolding prog Let_def
      by (rule does_read) (simp only: calm_get_puzzle Some option.case sum.case stored simp_thms)
    ultimately show ?thesis by metis
  qed
qed

lemma calm_get:
  assumes "calm v0 s"
  shows "calm v0 (snd (st_GetMatch ops i s)) \<and> view (snd (st_GetMatch ops i s)) = view s"
    and "v_matches v0 i = None \<Longrightarrow> fst (st_GetMatch ops i s) = Inl ErrNotFound"
    and "v_matches v0 i = Some m0 \<Longrightarrow> \<exists>m. fst (st_GetMatch ops i s) = Inr m \<and> static m = static m0"
  using lookup_opD(1,2) [OF live.match_law, of s i] match_opened [of s i] frozen_match [of v0 "view s" i] assms
  by (auto simp: calm_def)

lemma calm_put:
  assumes "calm v0 s" and "v_matches v0 i = Some m0"
  shows "calm v0 (snd (st_UpsertMatch ops (ended_match req now m0) s))
    \<and> view (snd (st_UpsertMatch ops (ended_match req now m0) s)) = write_of (WMatch (ended_match req now m0)) (view s)
    \<and> fst (st_UpsertMatch ops (ended_match req now m0) s) = Inr ()"
proof -
  obtain m where m: "v_matches (view s) i = Some m" "static m = static m0"
    using frozen_match(2) [OF _ assms(2)] assms(1) by (auto simp: calm_def)
  have "frozen v0 (view_put_match (ended_match req now m0) (view s))"
    using frozen_put [OF _ m(1)] assms(1) ended_static [OF m(2)] by (simp add: calm_def)
  then show ?thesis
    using assms(1) put_match_view [of s "ended_match req now m0"] put_match_opened [of s "ended_match req now m0"]
      write_opD(1) [OF live.put_match_law, of s "ended_match req now m0"]
    by (simp add: calm_def)
qed

lemma finish_static: "static m = static m' \<Longrightarrow> finish_prog ops now req m = finish_prog ops now req m'"
  by (cases m; cases m') (simp add: static_def finish_prog_def)

lemma does_end:
  "\<exists>x. does view (calm v0) (\<lambda>r. r = x) (end_writes v0 now i req) (end_prog ops now i req)"
proof (cases "v_matches v0 i")
  case None
  have "does view (calm v0) (\<lambda>r. r = Some (ErrWrap ''match_end get'' ErrNotFound)) [] (end_prog ops now i req)"
    unfolding end_prog_def by (rule does_read) (simp add: calm_get None does_Return_iff)
  then show ?thesis using None by (auto simp: end_writes_def)
next
  case (Some m0)
  define bad where "bad \<longleftrightarrow> me_winner req \<noteq> [] \<and> me_winner req \<notin> set (m_players m0)"
  define on1 where "on1 \<longleftrightarrow> m_players m0 \<noteq> [] \<and> 0 < sint (me_score1 req)"
  define on2 where "on2 \<longleftrightarrow> 1 < length (m_players m0) \<and> 0 < sint (me_score2 req)"
  define p2 :: "('s, go_error option) prog" where
    "p2 = (if on2 then both_prog ops (m_date m0) (m_players m0 ! 1) (me_score2 req) (Return None) else Return None)"
  define p1 where "p1 = (if on1 then both_prog ops (m_date m0) (m_players m0 ! 0) (me_score1 req) p2 else p2)"
  have rest: "finish_prog ops now req m0 = (if bad then Return (Some (ErrText ''match_end: winner not in players''))
       else call (st_UpsertMatch ops (ended_match req now m0)) (\<lambda>put. case put of
              Inl err \<Rightarrow> Return (Some (ErrWrap ''match_end upsert'' err)) | Inr _ \<Rightarrow> p1))"
    unfolding finish_prog_def bad_def on1_def on2_def p1_def p2_def
    by (simp add: ended_match_def Suc_le_eq numeral_2_eq_2 Let_def)
  let ?R = "\<lambda>r. r = (if bad then Some (ErrText ''match_end: winner not in players'') else None)"
  have tail: "does view (calm v0) (\<lambda>r. r = None)
      ((if on1 then score_writes (m_date m0) (m_players m0 ! 0) (me_score1 req) else []) @
       (if on2 then score_writes (m_date m0) (m_players m0 ! 1) (me_score2 req) else [])) p1"
    by (auto simp: p1_def p2_def does_Return_iff intro!: does_scores does_scores [of _ _ "[]", simplified])
  have "does view (calm v0) ?R (end_writes v0 now i req) (finish_prog ops now req m0)"
  proof (cases bad)
    case True
    then show ?thesis by (simp add: rest end_writes_def Some bad_def does_Return_iff)
  next
    case False
    note put = calm_put [OF _ Some]
    have "does view (calm v0) (\<lambda>r. r = None) (end_writes v0 now i req) (finish_prog ops now req m0)"
      unfolding end_writes_def rest option.case Some bad_def [symmetric] on1_def [symmetric] on2_def [symmetric]
        if_not_P [OF False]
      by (rule does_write) (simp only: put sum.case tail simp_thms)
    with False show ?thesis by simp
  qed
  note finish = this
  have "does view (calm v0) ?R (end_writes v0 now i req) (end_prog ops now i req)"
    unfolding end_prog_def
  proof (rule does_read)
    fix s assume s: "calm v0 s"
    obtain m where m: "fst (st_GetMatch ops i s) = Inr m" "static m = static m0" using calm_get(3) [OF s Some] by blast
    show "calm v0 (snd (st_GetMatch ops i s)) \<and> view (snd (st_GetMatch ops i s)) = view s
        \<and> does view (calm v0) ?R (end_writes v0 now i req)
            (case fst (st_GetMatch ops i s) of Inl err \<Rightarrow> Return (Some (ErrWrap ''match_end get'' err))
             | Inr m \<Rightarrow> finish_prog ops now req m)"
      unfolding m(1) sum.case finish_static [OF m(2)] using calm_get(1) [OF s] finish by blast
  qed
  then show ?thesis by blast
qed

lemma calm_auth:
  assumes "calm v0 s"
  shows "calm v0 (snd (st_UpsertUserOnFirstAuth ops now c s))
    \<and> view (snd (st_UpsertUserOnFirstAuth ops now c s)) = write_of (WAuth now c) (view s)"
proof -
  obtain x where "fst (st_UpsertUserOnFirstAuth ops now c s) = Inr x"
    using auth_opened [of s now c] assms by (auto simp: calm_def)
  with assms write_opD(1,3) [OF live.auth_law, of s now c] show ?thesis by (auto simp: calm_def)
qed

lemma does_handler:
  assumes "ctx = None \<or> ctx = Some c"
  shows "\<exists>x. does view (calm v0) (\<lambda>a. (\<exists>body. r = RSubmit body) \<longrightarrow> a = x)
    (case (ctx, r) of (Some c, RSubmit body) \<Rightarrow> submit_writes uni v0 (ck_1 ck) (ck_2 ck) body c | _ \<Rightarrow> [])
    (handler_prog ops uni ck r ctx)"
proof (cases "\<exists>body. r = RSubmit body")
  case True
  then obtain body where r: "r = RSubmit body" by blast
  show ?thesis
  proof (cases ctx)
    case None
    then show ?thesis by (auto simp: r handler_prog_def submit_prog_def does_Return_iff)
  next
    case (Some d)
    then show ?thesis using does_submit [of v0 uni "ck_1 ck" "ck_2 ck" body d] by (simp add: r handler_prog_def)
  qed
next
  case False
  then have reads: "reads_only view (\<lambda>s. ok s \<and> opened s) (api_handler ops uni ck r ctx)"
    by (intro live.read_route) blast
  have "does view (calm v0) (\<lambda>_. True) [] (atomic (api_handler ops uni ck r ctx))"
    using reads_onlyD [OF reads] by (intro does_atomic) (simp add: calm_def)
  moreover have "handler_prog ops uni ck r ctx = atomic (api_handler ops uni ck r ctx)"
    using False by (cases r) (simp_all add: handler_prog_def)
  ultimately show ?thesis using False by (cases ctx; cases r) simp_all
qed

lemma does_job:
  "\<exists>x. does view (calm v0) (\<lambda>a. is_writer j \<longrightarrow> a = x) (job_writes uni v v0 j)
     (job_prog ops uni v (Some (st_UpsertUserOnFirstAuth ops)) j)"
proof (cases j)
  case (MatchEnd now i req)
  then show ?thesis using does_end [of v0 now i req] by (auto intro!: does_map)
next
  case (Request ck hdr r)
  let ?P = "serve_prog ops uni v (Some (st_UpsertUserOnFirstAuth ops)) ck hdr r"
  have "\<exists>x. does view (calm v0) (\<lambda>a. (\<exists>body. r = RSubmit body) \<longrightarrow> a = x) (job_writes uni v v0 j) ?P"
  proof (cases "is_protected r \<and> v \<noteq> None")
    case False
    then have "job_writes uni v v0 j = []" by (simp add: Request accepted_def)
    with False does_handler [of None _ v0 r uni ck] show ?thesis by (auto simp: serve_prog_def)
  next
    case True
    then obtain f where v: "v = Some f" by blast
    show ?thesis
    proof (cases "accepted v hdr")
      case None
      with True v show ?thesis
        by (auto simp: Request serve_prog_def middleware_prog_def accepted_def does_Return_iff split: sum.splits prod.splits option.splits)
    next
      case (Some c)
      from does_handler [of "Some c" c v0 r uni ck] obtain x where
        x: "does view (calm v0) (\<lambda>a. (\<exists>body. r = RSubmit body) \<longrightarrow> a = x)
          (case r of RSubmit body \<Rightarrow> submit_writes uni v0 (ck_1 ck) (ck_2 ck) body c | _ \<Rightarrow> []) (handler_prog ops uni ck r (Some c))"
        by auto
      have writes: "job_writes uni v v0 j = WAuth (ck_auth ck) c
          # (case r of RSubmit body \<Rightarrow> submit_writes uni v0 (ck_1 ck) (ck_2 ck) body c | _ \<Rightarrow> [])"
        using True Some by (simp add: Request)
      have "?P = call (st_UpsertUserOnFirstAuth ops (ck_auth ck) c) (\<lambda>_. handler_prog ops uni ck r (Some c))"
        using True v Some by (auto simp: serve_prog_def middleware_prog_def accepted_def split: sum.splits prod.splits option.splits)
      moreover have "does view (calm v0) (\<lambda>a. (\<exists>body. r = RSubmit body) \<longrightarrow> a = x) (job_writes uni v v0 j)
          (call (st_UpsertUserOnFirstAuth ops (ck_auth ck) c) (\<lambda>_. handler_prog ops uni ck r (Some c)))"
        unfolding writes by (rule does_write) (simp only: calm_auth x simp_thms)
      ultimately show ?thesis by metis
    qed
  qed
  then obtain x where "does view (calm v0) (\<lambda>a. (\<exists>body. r = RSubmit body) \<longrightarrow> a = x) (job_writes uni v v0 j) ?P" by blast
  then have "does view (calm v0) (\<lambda>a. is_writer j \<longrightarrow> a = Responded x) (job_writes uni v v0 j)
      (job_prog ops uni v (Some (st_UpsertUserOnFirstAuth ops)) j)"
    unfolding Request job_prog.simps by (rule does_map) (cases r; simp)
  then show ?thesis by blast
qed

abbreviation own_up :: "'s upserter option" where
  "own_up \<equiv> Some (st_UpsertUserOnFirstAuth ops)"

lemma does_job_alone:
  assumes "calm v0 s"
  shows "does view (calm v0) (\<lambda>a. is_writer j \<longrightarrow> a = fst (run_prog (job_prog ops uni v own_up j) s)) (job_writes uni v v0 j)
    (job_prog ops uni v own_up j)"
proof -
  obtain x where x: "does view (calm v0) (\<lambda>a. is_writer j \<longrightarrow> a = x) (job_writes uni v v0 j) (job_prog ops uni v own_up j)"
    using does_job by blast
  from does_run [OF this assms] show ?thesis by (intro does_mono [OF x]) auto
qed

lemma serial_view:
  "calm v0 s \<Longrightarrow> calm v0 (serial_run ops uni v own_up js s)
     \<and> view (serial_run ops uni v own_up js s) = fold write_of (concat (map (job_writes uni v v0) js)) (view s)"
proof (induction js arbitrary: s)
  case (Cons j js)
  from does_run [OF does_job_alone [OF Cons.prems] Cons.prems, of uni v j] Cons.IH
  show ?case by (simp add: serial_run_def)
qed (simp add: serial_run_def)

lemma pool_serial:
  assumes s: "ok s" "opened s" "keyed_matches (view s)"
    and run: "pool_run (map (job_prog ops uni v own_up) jobs, s) (ps, s')" and finished: "\<forall>p \<in> set ps. \<exists>r. p = Return r"
  shows "\<exists>jobs'. mset jobs' = mset jobs \<and> no_users (view s') = no_users (view (serial_run ops uni v own_up jobs' s))"
    and "i < length jobs \<Longrightarrow> is_writer (jobs ! i) \<Longrightarrow> ps ! i = Return (fst (run_prog (job_prog ops uni v own_up (jobs ! i)) s))"
proof -
  let ?v0 = "view s" and ?n = "length jobs"
  let ?W = "\<lambda>i. job_writes uni v ?v0 (jobs ! i)"
  let ?R = "\<lambda>i a. is_writer (jobs ! i) \<longrightarrow> a = fst (run_prog (job_prog ops uni v own_up (jobs ! i)) s)"
  have calm: "calm ?v0 s" using s by (simp add: calm_def frozen_refl)
  then have "logged view (calm ?v0) ?R ?W ?v0 [] (map (job_prog ops uni v own_up) jobs, s)"
    using does_job_alone [OF calm] by (simp add: logged_def)
  from pool_log [OF run this] obtain log where log: "logged view (calm ?v0) ?R ?W ?v0 log (ps, s')" by blast
  have len: "length ps = ?n" using pool_length [OF run] by simp
  have tags: "\<forall>x \<in> set log. fst x < ?n" and view: "view s' = fold write_of (map snd log) ?v0"
    using log len by (simp_all add: logged_def)
  have each: "part i log = ?W i \<and> (\<exists>r. ps ! i = Return r \<and> ?R i r)" if i: "i < ?n" for i
  proof -
    obtain r where r: "ps ! i = Return r" using bspec [OF finished nth_mem, of i] i len by auto
    obtain rest where "?W i = part i log @ rest" "does view (calm ?v0) (?R i) rest (ps ! i)"
      using log i len by (auto simp: logged_def)
    with r show ?thesis by (simp add: does_Return_iff)
  qed
  show "i < length jobs \<Longrightarrow> is_writer (jobs ! i) \<Longrightarrow> ps ! i = Return (fst (run_prog (job_prog ops uni v own_up (jobs ! i)) s))"
    using each [of i] by blast
  have "length (filter is_main (?W i)) \<le> 1" for i using tidy_job by (simp add: tidy_def)
  with each obtain "is" where "is": "mset is = mset [0..<?n]"
    "filter is_main (map snd log) = filter is_main (concat (map ?W is))" "mset (map snd log) = mset (concat (map ?W is))"
    using serial_order [OF tags, of ?W is_main] by blast
  have "\<forall>w \<in> set (map snd log). \<not> is_seed w"
    using tidy_job mset_eq_setD [OF "is"(3)] by (auto simp: tidy_def)
  from same_effect [OF this "is"(2,3)]
  have "no_users (view s') = no_users (fold write_of (concat (map (job_writes uni v ?v0) (map (nth jobs) is))) ?v0)"
    by (simp add: view comp_def)
  moreover have "mset (map (nth jobs) is) = mset jobs"
    using arg_cong [OF "is"(1), of "image_mset (nth jobs)"] by (simp only: mset_map [symmetric] map_nth)
  ultimately show "\<exists>jobs'. mset jobs' = mset jobs \<and> no_users (view s') = no_users (view (serial_run ops uni v own_up jobs' s))"
    using serial_view [OF calm, of uni v "map (nth jobs) is"] by metis
qed

end

end
