(* ===== verification/Thread_Safety.thy ===== *)
theory Thread_Safety
  imports Thread_Props
begin

text \<open>
  What holds at every moment while handlers run, on any store that keeps the contract and may fail any call: no step of
  a handler breaks the integrity of the stored attempts, changes a puzzle or the players of a match.
\<close>

section \<open>Invariants of the steps\<close>

inductive keeps :: "('s \<Rightarrow> bool) \<Rightarrow> ('s, 'r) prog \<Rightarrow> bool" for good :: "'s \<Rightarrow> bool" where
  Keeps_Return: "keeps good (Return r)"
| Keeps_Call: "(\<And>s p s'. good s \<Longrightarrow> f s = (p, s') \<Longrightarrow> good s' \<and> keeps good p) \<Longrightarrow> keeps good (Call f)"

inductive_simps keeps_Call_iff: "keeps good (Call f)"

lemma keeps_call:
  "(\<And>s. good s \<Longrightarrow> good (snd (op s)) \<and> keeps good (k (fst (op s)))) \<Longrightarrow> keeps good (call op k)"
  unfolding call_def by (rule Keeps_Call) (fastforce split: prod.splits)

lemma keeps_map: "keeps good p \<Longrightarrow> keeps good (map_prog g p)"
proof (induction rule: keeps.induct)
  case (Keeps_Call f)
  show ?case
    unfolding prog.map by (rule keeps.Keeps_Call) (use Keeps_Call in \<open>fastforce simp: map_prod_def split: prod.splits\<close>)
qed (simp add: Keeps_Return)

lemma keeps_run: "keeps good p \<Longrightarrow> good s \<Longrightarrow> good (snd (run_prog p s))"
proof (induction arbitrary: s rule: keeps.induct)
  case (Keeps_Call f)
  obtain p s' where "f s = (p, s')" by fastforce
  with Keeps_Call show ?case by simp
qed simp

lemma pool_keeps:
  "pool_run c c' \<Longrightarrow> good (snd c) \<Longrightarrow> list_all (keeps good) (fst c) \<Longrightarrow> good (snd c') \<and> list_all (keeps good) (fst c')"
proof (induction rule: pool_run.induct)
  case (Pool_next c c' c'')
  from Pool_next.hyps(2) show ?case
  proof cases
    case (1 i ps f s p s')
    have "good s" "list_all (keeps good) ps" using Pool_next 1(1) by auto
    then have "good s' \<and> keeps good p"
      using 1 by (metis keeps_Call_iff list_all_length)
    then show ?thesis
      using 1(2) \<open>list_all (keeps good) ps\<close> set_update_subset_insert [of ps i p] by (auto simp: list_all_iff)
  qed
qed simp

section \<open>The handlers\<close>

text \<open>\<open>v0\<close> is the view at the start.\<close>

definition steady :: "store_view \<Rightarrow> store_view \<Rightarrow> bool" where
  "steady v0 v \<longleftrightarrow>
     v_puzzles v = v_puzzles v0 \<and>
     (\<forall>i. map_option m_players (v_matches v i) = map_option m_players (v_matches v0 i))"

lemma steady_simps [simp]:
  "steady v v" "steady v0 (view_auth now c v) = steady v0 v" "steady v0 (view_put_attempt a v) = steady v0 v"
  "steady v0 (view_submit b u sc v) = steady v0 v"
  by (simp_all add: steady_def)

text \<open>A store state with honest attempts, \<open>v0\<close> being the view at some moment before.\<close>

definition honest_db :: "('s \<Rightarrow> store_view) \<Rightarrow> ('s \<Rightarrow> bool) \<Rightarrow> (string \<Rightarrow> string) \<Rightarrow> store_view \<Rightarrow> 's \<Rightarrow> bool" where
  "honest_db view ok uni v0 s \<longleftrightarrow> store_inv view ok uni s \<and> steady v0 (view s)"

lemma honest_players:
  assumes "honest_db view ok uni v0 s" and "honest_db view ok uni v0 s'"
  shows "players_kept (view s) (view s')"
proof -
  have "map_option m_players (v_matches (view s) i) = map_option m_players (v_matches (view s') i)" for i
    using assms by (simp add: honest_db_def steady_def)
  then show ?thesis by (auto simp: players_kept_def) (metis (no_types, lifting) map_option_eq_Some)
qed

context store_laws
begin

abbreviation honest :: "(string \<Rightarrow> string) \<Rightarrow> store_view \<Rightarrow> 's \<Rightarrow> bool" where
  "honest \<equiv> honest_db view ok"

lemmas honest_def = honest_db_def [of view ok]

lemma honest_view:
  assumes "honest uni v0 s" and "ok s'"
    and "view s' = view s \<or> keyed_matches (view s') \<and> attempts_sound uni (view s') \<and> steady v0 (view s')"
  shows "honest uni v0 s'"
  using assms by (auto simp: honest_def store_inv_def)

lemma honest_score: "honest uni v0 s \<Longrightarrow> honest uni v0 (snd (st_SubmitScore ops b u sc s))"
  using ret_submit_score [of s b u sc]
  by (auto simp: honest_def store_inv_def keyed_matches_def)

lemma honest_auth: "honest uni v0 s \<Longrightarrow> honest uni v0 (snd (st_UpsertUserOnFirstAuth ops now c s))"
  using write_opD(1,2) [OF auth_law, of s now c]
  by (auto simp: honest_def store_inv_def keyed_matches_def)

lemma honest_read: "read_op view ok f \<Longrightarrow> honest uni v0 s \<Longrightarrow> honest uni v0 (snd (f s))"
  using read_opD [of view ok f s] by (auto simp: honest_def store_inv_def)

lemma keeps_both: "keeps (honest uni v0) k \<Longrightarrow> keeps (honest uni v0) (both_prog ops d u sc k)"
  unfolding both_prog_def by (intro keeps_call conjI honest_score)

lemma honest_get_puzzle:
  assumes "honest uni v0 s"
  shows "honest uni v0 (snd (st_GetPuzzle ops d s))"
    and "fst (st_GetPuzzle ops d s) = Inr p \<Longrightarrow> v_puzzles v0 d = Some p"
  using lookup_opD [OF puzzle_law, of s d] assms by (auto simp: honest_def store_inv_def steady_def)

lemma honest_put_attempt:
  assumes "honest uni v0 s" and "acceptable req now1" and "v_puzzles v0 (sr_date req) = Some p"
  shows "honest uni v0 (snd (st_UpsertAttempt ops (submitted_attempt uni (c_uid c) req now2 p) s))"
proof -
  let ?a = "submitted_attempt uni (c_uid c) req now2 p"
  have "attempts_sound uni (view_put_attempt (timed_attempt tm ?a) (view s))"
    using assms
    by (intro attempts_sound_put) (auto simp: attempt_sound_def acceptable_def honest_def store_inv_def steady_def)
  moreover have "length (sr_date req) = 10" using assms(2) by (simp add: acceptable_def validDate_length)
  ultimately show ?thesis
    using ret_put_attempt [of ?a s] assms(1)
    by (cases "st_UpsertAttempt ops ?a s") (auto simp: honest_def store_inv_def keyed_matches_def)
qed

lemma keeps_store:
  assumes "acceptable req now1" and "v_puzzles v0 (sr_date req) = Some p"
  shows "keeps (honest uni v0) (store_prog ops uni now2 c req p)"
  unfolding store_prog_eq Let_def
  using honest_put_attempt [OF _ assms]
  by (intro keeps_call conjI) (auto simp: Keeps_Return keeps_both split: sum.split)

lemma keeps_submit: "keeps (honest uni v0) (submit_prog ops uni now1 now2 body ctx)"
proof (cases "\<exists>c req. ctx = Some c \<and> decode_submit body = Some req \<and> acceptable req now1")
  case False
  then have "\<exists>x. submit_prog ops uni now1 now2 body ctx = Return x"
    by (cases ctx) (auto simp: submit_prog_def acceptable_def split: option.split)
  then show ?thesis by (auto simp: Keeps_Return)
next
  case True
  then obtain c req where req: "ctx = Some c" "decode_submit body = Some req" "acceptable req now1" by blast
  show ?thesis
    unfolding req(1) submit_prog_eq [OF req(2,3)]
    using honest_get_puzzle keeps_store [OF req(3)]
    by (intro keeps_call conjI) (auto simp: Keeps_Return split: sum.split)
qed

lemma keeps_handler: "keeps (honest uni v0) (handler_prog ops uni ck r ctx)"
proof (cases "\<exists>body. r = RSubmit body")
  case True
  then show ?thesis by (auto simp: handler_prog_def keeps_submit)
next
  case False
  then have reads: "reads_only view ok (api_handler ops uni ck r ctx)" by (intro read_route) blast
  have "keeps (honest uni v0) (atomic (api_handler ops uni ck r ctx))"
    unfolding atomic_def using reads_onlyD [OF reads]
    by (intro keeps_call) (auto simp: Keeps_Return honest_def store_inv_def)
  moreover have "handler_prog ops uni ck r ctx = atomic (api_handler ops uni ck r ctx)"
    using False by (cases r) (simp_all add: handler_prog_def)
  ultimately show ?thesis by simp
qed

lemma keeps_serve:
  assumes "own_upserter ops up"
  shows "keeps (honest uni v0) (serve_prog ops uni v up ck hdr r)"
  using assms keeps_handler
  by (auto simp: serve_prog_def middleware_prog_def own_upserter_def Keeps_Return intro!: keeps_call honest_auth
      split: option.split sum.split prod.split)

lemma honest_ping: "honest uni v0 s \<Longrightarrow> honest uni v0 (snd (healthHandler (Some ops) s))"
  using honest_read [OF ping_law, of uni v0 s]
  by (cases "st_Ping ops s") (auto simp: healthHandler_def split: sum.split)

lemma keeps_http:
  assumes "rt_store rt = Some ops"
  shows "keeps (honest uni v0) (http_prog rt uni files ck hdr r)"
proof (cases r)
  case HHealth
  have "keeps (honest uni v0) (atomic (healthHandler (Some ops)))"
    unfolding atomic_def using honest_ping by (intro keeps_call) (simp add: Keeps_Return)
  with HHealth assms show ?thesis by simp
next
  case (HApi r')
  have "own_upserter ops (asUpserter (rt_store rt))"
    by (simp add: own_upserter_def asUpserter_def assms)
  with HApi assms keeps_serve show ?thesis by simp
qed (simp add: Keeps_Return)

lemma honest_get_match:
  assumes "honest uni v0 s"
  shows "honest uni v0 (snd (st_GetMatch ops i s))"
    and "fst (st_GetMatch ops i s) = Inr m \<Longrightarrow> map_option m_players (v_matches v0 (m_id m)) = Some (m_players m)"
proof -
  have ok: "ok s" using assms by (simp add: honest_def store_inv_def)
  show "honest uni v0 (snd (st_GetMatch ops i s))"
    using lookup_opD(1,2) [OF match_law ok, of i] assms by (simp add: honest_def store_inv_def)
  assume "fst (st_GetMatch ops i s) = Inr m"
  then have m: "v_matches (view s) i = Some m" by (rule lookup_opD(3) [OF match_law ok])
  moreover have "m_id m = i" using m assms by (simp add: honest_def store_inv_def keyed_matches_def)
  moreover have "map_option m_players (v_matches (view s) i) = map_option m_players (v_matches v0 i)"
    using assms by (simp add: honest_def steady_def)
  ultimately show "map_option m_players (v_matches v0 (m_id m)) = Some (m_players m)" by simp
qed

lemma honest_put_match:
  assumes "honest uni v0 s" and "map_option m_players (v_matches v0 (m_id m)) = Some (m_players m)"
  shows "honest uni v0 (snd (st_UpsertMatch ops (ended_match req now m) s))"
proof -
  let ?v = "view_put_match (timed_match tm (ended_match req now m)) (view s)"
  have v: "keyed_matches ?v" "attempts_sound uni ?v" "steady v0 ?v"
    using assms by (auto simp: honest_def store_inv_def keyed_matches_def steady_def)
  have ok: "ok s" using assms(1) by (simp add: honest_def store_inv_def)
  show ?thesis
    using write_opD(1,2) [OF put_match_law ok, of "ended_match req now m"] v
    by (intro honest_view [OF assms(1)]) auto
qed

lemma keeps_finish:
  assumes "map_option m_players (v_matches v0 (m_id m)) = Some (m_players m)"
  shows "keeps (honest uni v0) (finish_prog ops now req m)"
proof -
  have "keeps (honest uni v0) (call (st_UpsertMatch ops (ended_match req now m)) (\<lambda>put. case put of
      Inl err \<Rightarrow> Return (Some (ErrWrap ''match_end upsert'' err)) | Inr _ \<Rightarrow> k))" if "keeps (honest uni v0) k" for k
    using honest_put_match [OF _ assms] that by (intro keeps_call) (auto simp: Keeps_Return split: sum.split)
  from this [unfolded ended_match_def] show ?thesis
    by (simp add: finish_prog_def Keeps_Return keeps_both Let_def del: roleOf_ne)
qed

lemma keeps_end: "keeps (honest uni v0) (end_prog ops now i req)"
  unfolding end_prog_def
  by (intro keeps_call conjI) (auto simp: honest_get_match(1) Keeps_Return intro!: keeps_finish dest: honest_get_match(2) split: sum.split)

lemma keeps_job: "own_upserter ops up \<Longrightarrow> keeps (honest uni v0) (job_prog ops uni v up j)"
  by (cases j) (simp_all add: keeps_map keeps_serve keeps_end)

lemma pool_honest:
  assumes "own_upserter ops up" and "store_inv view ok uni s"
    and "pool_run (map (job_prog ops uni v up) jobs, s) (ps, s')"
  shows "store_inv view ok uni s' \<and> steady (view s) (view s')"
  using pool_keeps [OF assms(3), of "honest uni (view s)"] keeps_job [OF assms(1)] assms(2)
  by (auto simp: honest_def list_all_iff)

end

end
