(* ===== verification/Ws_Interleave.thy ===== *)
theory Ws_Interleave
  imports Ws_Gaps Thread_Safety
begin

text \<open>
  The whole server at the granularity of its locks. Each request and each connection has its own goroutine, and a
  step is one critical section of one of them:

  \<^item> \<open>handleJoinRoom\<close> reads the match from the store, takes the hub's lock to look up or create the room,
    releases it, and only then calls \<open>room.add\<close>.
  \<^item> A request and a MATCH_END make their calls of the store one by one (the programs of \<open>Store_Threads\<close>).
  \<^item> An upgrade stays one step: it makes one call of the store and one change of the hub, of which the other
    goroutines see nothing before the connection's first frame.
  \<^item> The other handlers stay one step: a TURN is one look at the registry under the hub's lock and a copy
    of the members under the room's lock; a MATCH_END that its guards refuse changes nothing.

  The program counter of each connection says how far its join or its MATCH_END has come; a connection handles one frame
  at a time. Shown here: every run of the server with atomic handlers is a run of this one.
\<close>

section \<open>Steps\<close>

datatype 's join_pc =
    Idle
  | Checked string string string string
  | Entered nat string string string string
  | Ending "('s, go_error option) prog" envelope

text \<open>
  The arguments of \<open>Entered\<close>: room, request id, match, role, opponent. Those of \<open>Ending\<close>: the rest of the
  MATCH_END, and its frame. \<open>f_http\<close> holds what is left of the requests under way.
\<close>

record 's fine =
  f_world :: "'s world"
  f_pc :: "nat \<Rightarrow> 's join_pc"
  f_http :: "('s, response) prog list"

definition start :: "'s world \<Rightarrow> 's fine" where
  "start w = \<lparr>f_world = w, f_pc = (\<lambda>_. Idle), f_http = []\<rparr>"

definition answer :: "codec \<Rightarrow> nat \<Rightarrow> envelope \<Rightarrow> 's world \<Rightarrow> 's world" where
  "answer cdc c env w = (case marshal (pb_envelope cdc) env of (_, Some err) \<Rightarrow> w | (out, None) \<Rightarrow> send c out w)"

inductive fine_step :: "'s env \<Rightarrow> 's fine \<Rightarrow> 's fine \<Rightarrow> bool" for e :: "'s env" where
  Fine_Http:
    "fine_step e s (s\<lparr>f_http := http_prog (ev_router e) (ev_uni e) (ev_files e) ck hdr r # f_http s\<rparr>)"
| Fine_Call:
    "f_http s = ps @ Call f # qs \<Longrightarrow> f (w_db (f_world s)) = (p, db) \<Longrightarrow>
     fine_step e s (s\<lparr>f_world := (f_world s)\<lparr>w_db := db\<rparr>, f_http := ps @ p # qs\<rparr>)"
| Fine_Respond:
    "f_http s = ps @ Return resp # qs \<Longrightarrow> fine_step e s (s\<lparr>f_http := ps @ qs\<rparr>)"
| Fine_Open:
    "fine_step e s (s\<lparr>f_world :=
       snd (open_conn (ev_codec e) (ws_verifier (ev_router e) now) accept rd wr (f_world s))\<rparr>)"
| Fine_Frame:
    "c \<in> h_conns (f_world s) \<Longrightarrow> f_pc s c = Idle \<Longrightarrow>
     (\<And>env. unmarshal (pb_envelope (ev_codec e)) data = Inr env \<Longrightarrow> e_type env \<notin> {MT_JOIN_ROOM, MT_MATCH_END}) \<Longrightarrow>
     fine_step e s (s\<lparr>f_world := snd (handle_frame (ev_codec e) i c data (f_world s))\<rparr>)"
| Fine_Refuse:
    "c \<in> h_conns (f_world s) \<Longrightarrow> f_pc s c = Idle \<Longrightarrow>
     join_check (ev_codec e) c env (f_world s) = (Inl res, w) \<Longrightarrow>
     fine_step e s (s\<lparr>f_world := (case res of Inl err \<Rightarrow> w | Inr ack \<Rightarrow> answer (ev_codec e) c ack w)\<rparr>)"
| Fine_Check:
    "c \<in> h_conns (f_world s) \<Longrightarrow> f_pc s c = Idle \<Longrightarrow>
     join_check (ev_codec e) c env (f_world s) = (Inr (m, role, opponent), w) \<Longrightarrow>
     fine_step e s (s\<lparr>f_world := w, f_pc := (f_pc s)(c := Checked (e_request_id env) m role opponent)\<rparr>)"
| Fine_Enter:
    "f_pc s c = Checked rid m role opponent \<Longrightarrow> join_enter now c m (f_world s) = (r, w) \<Longrightarrow>
     fine_step e s (s\<lparr>f_world := w, f_pc := (f_pc s)(c := Entered r rid m role opponent)\<rparr>)"
| Fine_Add:
    "f_pc s c = Entered r rid m role opponent \<Longrightarrow>
     fine_step e s (s\<lparr>f_world := answer (ev_codec e) c (ackJoin (ev_codec e) rid True m role opponent [])
                        (snd (Room_add r c (f_world s))),
                      f_pc := (f_pc s)(c := Idle)\<rparr>)"
| Fine_End:
    "c \<in> h_conns (f_world s) \<Longrightarrow> f_pc s c = Idle \<Longrightarrow> end_guard (ev_codec e) c env (f_world s) = Inr (ops, req) \<Longrightarrow>
     fine_step e s (s\<lparr>f_pc := (f_pc s)(c := Ending (end_prog ops now (cn_match (w_conn (f_world s) c)) req) env)\<rparr>)"
| Fine_End_Call:
    "f_pc s c = Ending (Call f) env \<Longrightarrow> f (w_db (f_world s)) = (p, db) \<Longrightarrow>
     fine_step e s (s\<lparr>f_world := (f_world s)\<lparr>w_db := db\<rparr>, f_pc := (f_pc s)(c := Ending p env)\<rparr>)"
| Fine_End_Done:
    "f_pc s c = Ending (Return res) env \<Longrightarrow>
     fine_step e s (s\<lparr>f_world := (case res of Some err \<Rightarrow> f_world s
          | None \<Rightarrow> answer (ev_codec e) c env
              (broadcastRoom (ev_codec e) (cn_match (w_conn (f_world s) c)) env c (f_world s))),
        f_pc := (f_pc s)(c := Idle)\<rparr>)"
| Fine_Close:
    "c \<in> h_conns (f_world s) \<Longrightarrow> f_pc s c = Idle \<Longrightarrow>
     fine_step e s (s\<lparr>f_world := close_conn c (f_world s)\<rparr>)"

inductive fine_reachable :: "'s env \<Rightarrow> 's fine \<Rightarrow> 's fine \<Rightarrow> bool" for e :: "'s env" and s0 :: "'s fine" where
  Fine_init: "fine_reachable e s0 s0"
| Fine_next: "fine_reachable e s0 s \<Longrightarrow> fine_step e s s' \<Longrightarrow> fine_reachable e s0 s'"

lemma fine_one: "fine_step e s s' \<Longrightarrow> fine_reachable e s s'"
  by (rule Fine_next [OF Fine_init])

lemma fine_trans: "fine_reachable e s s' \<Longrightarrow> fine_reachable e s0 s \<Longrightarrow> fine_reachable e s0 s'"
  by (induction rule: fine_reachable.induct) (auto intro: Fine_next)

section \<open>The coarse server is a special case\<close>

lemma start_simps [simp]:
  "f_world (start w) = w" "f_pc (start w) c = Idle" "f_http (start w) = []" "(start w)\<lparr>f_world := w'\<rparr> = start w'"
  "(start w)\<lparr>f_world := w', f_pc := (\<lambda>_. Idle)\<rparr> = start w'"
  by (simp_all add: start_def)

lemma idle_upd [simp]: "(\<lambda>_. Idle)(c := Idle) = (\<lambda>_. Idle)"
  by auto

text \<open>A program, run without interruption: the request at the head of the list, or the MATCH_END of a connection.\<close>

lemma fine_calls:
  "f_http s = p # ps \<Longrightarrow> run_prog p (w_db (f_world s)) = (resp, db) \<Longrightarrow>
     fine_reachable e s (s\<lparr>f_world := (f_world s)\<lparr>w_db := db\<rparr>, f_http := Return resp # ps\<rparr>)"
proof (induction p arbitrary: s)
  case (Return x)
  then have "s = s\<lparr>f_world := (f_world s)\<lparr>w_db := db\<rparr>, f_http := Return resp # ps\<rparr>" by simp
  then show ?case by (metis Fine_init)
next
  case (Call f)
  obtain p db1 where f: "f (w_db (f_world s)) = (p, db1)" by fastforce
  let ?s = "s\<lparr>f_world := (f_world s)\<lparr>w_db := db1\<rparr>, f_http := p # ps\<rparr>"
  have 1: "fine_step e s ?s" using Fine_Call [of s "[]" f ps p db1 e] Call.prems(1) f by simp
  have "fine_reachable e ?s (?s\<lparr>f_world := (f_world ?s)\<lparr>w_db := db\<rparr>, f_http := Return resp # ps\<rparr>)"
    by (rule Call.IH [OF rangeI [of f "w_db (f_world s)"]]) (use f Call.prems(2) in \<open>simp_all add: fsts.simps\<close>)
  then show ?case using fine_trans [OF _ fine_one [OF 1]] by simp
qed

lemma fine_end_calls:
  "f_pc s c = Ending p env \<Longrightarrow> run_prog p (w_db (f_world s)) = (res, db) \<Longrightarrow>
     fine_reachable e s (s\<lparr>f_world := (f_world s)\<lparr>w_db := db\<rparr>, f_pc := (f_pc s)(c := Ending (Return res) env)\<rparr>)"
proof (induction p arbitrary: s)
  case (Return x)
  then have "s = s\<lparr>f_world := (f_world s)\<lparr>w_db := db\<rparr>, f_pc := (f_pc s)(c := Ending (Return res) env)\<rparr>"
    by (auto simp: fun_upd_idem)
  then show ?case by (metis Fine_init)
next
  case (Call f)
  obtain p db1 where f: "f (w_db (f_world s)) = (p, db1)" by fastforce
  let ?s = "s\<lparr>f_world := (f_world s)\<lparr>w_db := db1\<rparr>, f_pc := (f_pc s)(c := Ending p env)\<rparr>"
  have 1: "fine_step e s ?s" using Fine_End_Call [of s c f env p db1 e] Call.prems(1) f by simp
  have "fine_reachable e ?s (?s\<lparr>f_world := (f_world ?s)\<lparr>w_db := db\<rparr>, f_pc := (f_pc ?s)(c := Ending (Return res) env)\<rparr>)"
    by (rule Call.IH [OF rangeI [of f "w_db (f_world s)"]]) (use f Call.prems(2) in \<open>simp_all add: fsts.simps\<close>)
  then show ?case using fine_trans [OF _ fine_one [OF 1]] by (simp add: fun_upd_def cong: if_cong)
qed

lemma fine_http:
  "fine_reachable e (start w)
     (start (w\<lparr>w_db := snd (serve_http (ev_router e) (ev_uni e) (ev_files e) ck hdr r (w_db w))\<rparr>))"
proof -
  let ?p = "http_prog (ev_router e) (ev_uni e) (ev_files e) ck hdr r"
  obtain resp db where run: "run_prog ?p (w_db w) = (resp, db)" by fastforce
  then have db: "snd (serve_http (ev_router e) (ev_uni e) (ev_files e) ck hdr r (w_db w)) = db"
    by (simp add: run_http)
  let ?s1 = "(start w)\<lparr>f_http := [?p]\<rparr>"
  let ?s2 = "?s1\<lparr>f_world := w\<lparr>w_db := db\<rparr>, f_http := [Return resp]\<rparr>"
  have 1: "fine_step e (start w) ?s1" using Fine_Http [of e "start w" ck hdr r] by simp
  have 2: "fine_reachable e ?s1 ?s2" using fine_calls [of ?s1 ?p "[]" resp db e] run by simp
  have 3: "fine_step e ?s2 (start (w\<lparr>w_db := db\<rparr>))"
    using Fine_Respond [of ?s2 "[]" resp "[]" e] by (simp add: start_def)
  show ?thesis unfolding db by (rule fine_trans [OF fine_one [OF 3] fine_trans [OF 2 fine_one [OF 1]]])
qed

text \<open>A frame that is a JOIN_ROOM, as the composition of the parts.\<close>

lemma join_frame:
  assumes "unmarshal (pb_envelope cdc) data = Inr env" and "e_type env = MT_JOIN_ROOM"
  shows "snd (handle_frame cdc i c data w) =
    (case join_check cdc c env w of
       (Inl (Inl err), w) \<Rightarrow> w
     | (Inl (Inr ack), w) \<Rightarrow> answer cdc c ack w
     | (Inr (m, role, opponent), w) \<Rightarrow>
         (let (r, w) = join_enter (in_handler_at i) c m w
          in answer cdc c (ackJoin cdc (e_request_id env) True m role opponent []) (snd (Room_add r c w))))"
  using assms
  by (auto simp: handle_frame_def dispatch_def handleJoinRoom_def answer_def Let_def
      split: prod.split sum.split option.split)

lemma fine_join:
  assumes c: "c \<in> h_conns w" and env: "unmarshal (pb_envelope (ev_codec e)) data = Inr env" "e_type env = MT_JOIN_ROOM"
  shows "fine_reachable e (start w) (start (snd (handle_frame (ev_codec e) i c data w)))"
proof -
  note frame = join_frame [OF env, of i c w]
  obtain r w1 where j: "join_check (ev_codec e) c env w = (r, w1)" by fastforce
  show ?thesis
  proof (cases r)
    case (Inl res)
    then show ?thesis
      using Fine_Refuse [of c "start w" e env res w1] j c
      by (intro fine_one) (auto simp: frame split: sum.splits)
  next
    case (Inr x)
    obtain m role opponent where x: "x = (m, role, opponent)" by (cases x)
    obtain room w2 where enter: "join_enter (in_handler_at i) c m w1 = (room, w2)" by fastforce
    let ?rid = "e_request_id env"
    let ?s1 = "\<lparr>f_world = w1, f_pc = (\<lambda>_. Idle)(c := Checked ?rid m role opponent), f_http = []\<rparr>"
    let ?s2 = "\<lparr>f_world = w2, f_pc = (\<lambda>_. Idle)(c := Entered room ?rid m role opponent), f_http = []\<rparr>"
    have 1: "fine_step e (start w) ?s1"
      using Fine_Check [of c "start w" e env m role opponent w1] j Inr x c by (simp add: start_def)
    have 2: "fine_step e ?s1 ?s2"
      using Fine_Enter [of ?s1 c ?rid m role opponent "in_handler_at i" room w2 e] enter by simp
    have idle: "(\<lambda>_. Idle)(c := pc, c := Idle) = (\<lambda>_. Idle)" for pc by auto
    have 3: "fine_step e ?s2 (start (snd (handle_frame (ev_codec e) i c data w)))"
      using Fine_Add [of ?s2 c room ?rid m role opponent e] j Inr x enter
      by (simp only: frame start_def) (simp add: idle [simplified])
    from 1 2 3 show ?thesis by (blast intro: Fine_next Fine_init)
  qed
qed

text \<open>A frame that is a MATCH_END.\<close>

lemma end_frame:
  assumes "unmarshal (pb_envelope cdc) data = Inr env" and "e_type env = MT_MATCH_END"
  shows "snd (handle_frame cdc i c data w) =
    (case end_guard cdc c env w of
       Inl err \<Rightarrow> w
     | Inr (ops, req) \<Rightarrow>
         (case run_prog (end_prog ops (in_handler_at i) (cn_match (w_conn w c)) req) (w_db w) of
            (Some err, db) \<Rightarrow> w\<lparr>w_db := db\<rparr>
          | (None, db) \<Rightarrow> answer cdc c env (broadcastRoom cdc (cn_match (w_conn w c)) env c (w\<lparr>w_db := db\<rparr>))))"
  using assms
  by (auto simp: handle_frame_def dispatch_def run_end answer_def split: prod.split sum.split option.split)

lemma fine_end:
  assumes c: "c \<in> h_conns w" and env: "unmarshal (pb_envelope (ev_codec e)) data = Inr env" "e_type env = MT_MATCH_END"
  shows "fine_reachable e (start w) (start (snd (handle_frame (ev_codec e) i c data w)))"
proof (cases "end_guard (ev_codec e) c env w")
  case (Inl err)
  then show ?thesis by (simp add: end_frame [OF env] Fine_init)
next
  case (Inr x)
  then obtain ops req where g: "end_guard (ev_codec e) c env w = Inr (ops, req)" by (cases x) auto
  let ?p = "end_prog ops (in_handler_at i) (cn_match (w_conn w c)) req"
  obtain res db where run: "run_prog ?p (w_db w) = (res, db)" by fastforce
  let ?s1 = "(start w)\<lparr>f_pc := (\<lambda>_. Idle)(c := Ending ?p env)\<rparr>"
  let ?s2 = "?s1\<lparr>f_world := w\<lparr>w_db := db\<rparr>, f_pc := (\<lambda>_. Idle)(c := Ending (Return res) env)\<rparr>"
  have 1: "fine_step e (start w) ?s1"
    using Fine_End [of c "start w" e env ops req "in_handler_at i"] c g by (simp add: start_def)
  have 2: "fine_reachable e ?s1 ?s2" using fine_end_calls [of ?s1 c ?p env res db e] run by simp
  have 3: "fine_step e ?s2 (start (snd (handle_frame (ev_codec e) i c data w)))"
    using Fine_End_Done [of ?s2 c res env e] g run
    by (cases res) (simp_all add: start_def end_frame [OF env])
  show ?thesis by (rule fine_trans [OF fine_one [OF 3] fine_trans [OF 2 fine_one [OF 1]]])
qed

lemma fine_frame:
  assumes c: "c \<in> h_conns w"
  shows "fine_reachable e (start w) (start (snd (handle_frame (ev_codec e) i c data w)))"
proof (cases "\<exists>env. unmarshal (pb_envelope (ev_codec e)) data = Inr env \<and> e_type env \<in> {MT_JOIN_ROOM, MT_MATCH_END}")
  case False
  then show ?thesis
    using Fine_Frame [of c "start w" e data i] c by (auto intro: fine_one)
next
  case True
  then show ?thesis using fine_end [OF c] fine_join [OF c] by blast
qed
lemma coarse_fine: "reachable e w0 w \<Longrightarrow> fine_reachable e (start w0) (start w)"
proof (induction rule: reachable.induct)
  case Reach_init
  show ?case by (rule Fine_init)
next
  case (Reach_step w w')
  from Reach_step.hyps(2) have "fine_reachable e (start w) (start w')"
  proof cases
    case (Step_Http ck hdr r)
    then show ?thesis using fine_http by simp
  next
    case (Step_Open now accept rd wr)
    then show ?thesis using Fine_Open [of e "start w" now accept rd wr] by (simp add: fine_one)
  next
    case (Step_Frame c i data)
    then show ?thesis by (simp add: fine_frame)
  next
    case (Step_Close c)
    then show ?thesis using Fine_Close [of c "start w" e] by (simp add: fine_one)
  qed
  then show ?case by (rule fine_trans [OF _ Reach_step.IH])
qed


end
