(* ===== verification/Ws_Fine_Safe.thy ===== *)
theory Ws_Fine_Safe
  imports Ws_Interleave
begin

text \<open>
  The invariant of the lock-level server, on any store that keeps the contract: the stored attempts are honest, the matches
  have the players that they had at the start, only players sit in rooms, and what is left of every
  half-done handler will not break this.
\<close>

section \<open>Safety at lock level\<close>

text \<open>Of the registry, what survives: a listed room has the id under which it is listed.\<close>

definition rooms_safe :: "('s \<Rightarrow> store_view) \<Rightarrow> 's world \<Rightarrow> bool" where
  "rooms_safe view w \<longleftrightarrow>
     (\<forall>m r. gm_get (h_rooms w) m = Some r \<longrightarrow> r < w_nroom w \<and> rm_id (w_room w r) = m) \<and>
     (\<forall>r c. r < w_nroom w \<longrightarrow> c \<in> set (rm_conns (w_room w r)) \<longrightarrow>
        c < w_nconn w \<and> is_player view w (rm_id (w_room w r)) c) \<and>
     (\<forall>c. cn_match (w_conn w c) \<noteq> [] \<longrightarrow> c < w_nconn w \<and> is_player view w (cn_match (w_conn w c)) c) \<and>
     (\<forall>c \<in> h_conns w. c < w_nconn w)"

fun pc_safe :: "('s \<Rightarrow> store_view) \<Rightarrow> 's world \<Rightarrow> nat \<Rightarrow> 's join_pc \<Rightarrow> bool" where
  "pc_safe view w c Idle = True"
| "pc_safe view w c (Ending p env) = True"
| "pc_safe view w c (Checked rid m role opponent) = (c < w_nconn w \<and> is_player view w m c)"
| "pc_safe view w c (Entered r rid m role opponent) =
     (c < w_nconn w \<and> is_player view w m c \<and> r < w_nroom w \<and> rm_id (w_room w r) = m)"

text \<open>A change of the world under which half-done joins stay what they are.\<close>

definition grows :: "('s \<Rightarrow> store_view) \<Rightarrow> 's world \<Rightarrow> 's world \<Rightarrow> bool" where
  "grows view w w' \<longleftrightarrow>
     w_nconn w \<le> w_nconn w' \<and> w_nroom w \<le> w_nroom w' \<and>
     (\<forall>r < w_nroom w. rm_id (w_room w' r) = rm_id (w_room w r)) \<and>
     (\<forall>m c. c < w_nconn w \<longrightarrow> is_player view w m c \<longrightarrow> is_player view w' m c)"

lemma pc_safe_grows: "grows view w w' \<Longrightarrow> pc_safe view w c pc \<Longrightarrow> pc_safe view w' c pc"
  by (cases pc) (auto simp: grows_def)

text \<open>The database has honest attempts and the players that the view \<open>v0\<close> has.\<close>

definition world_safe ::
  "'s store_ops \<Rightarrow> ('s \<Rightarrow> store_view) \<Rightarrow> ('s \<Rightarrow> bool) \<Rightarrow> (string \<Rightarrow> string) \<Rightarrow> store_view \<Rightarrow> (nat \<Rightarrow> 's join_pc)
     \<Rightarrow> 's world \<Rightarrow> bool"
where
  "world_safe ops view ok uni v0 pcs w \<longleftrightarrow>
     honest_db view ok uni v0 (w_db w) \<and> (h_store w = None \<or> h_store w = Some ops) \<and>
     rooms_safe view w \<and> (\<forall>c. pc_safe view w c (pcs c))"

lemma world_safe_change:
  assumes "world_safe ops view ok uni v0 pcs w" and "grows view w w'" and "rooms_safe view w'"
    and "h_store w' = h_store w" and "honest_db view ok uni v0 (w_db w')"
  shows "world_safe ops view ok uni v0 pcs w'"
  using assms pc_safe_grows [OF assms(2)] by (auto simp: world_safe_def)

lemma is_player_simps [simp]:
  "is_player view (w\<lparr>w_sent := tr\<rparr>) = is_player view w"
  "is_player view (send c bs w) = is_player view w"
  "is_player view (w\<lparr>h_conns := cs\<rparr>) = is_player view w"
  "is_player view (w\<lparr>h_rooms := rs\<rparr>) = is_player view w"
  "is_player view (w\<lparr>w_room := ro\<rparr>) = is_player view w"
  "is_player view (unregister c w) = is_player view w"
  by (simp_all add: is_player_def fun_eq_iff send_def)

lemma is_player_db:
  "players_kept (view (w_db w)) (view db) \<Longrightarrow> is_player view w m c \<Longrightarrow> is_player view (w\<lparr>w_db := db\<rparr>) m c"
  by (auto simp: is_player_def players_kept_def) metis

lemma world_safe_sent:
  "world_safe ops view ok uni v0 pcs w \<Longrightarrow> world_safe ops view ok uni v0 pcs (w\<lparr>w_sent := tr\<rparr>)"
  by (rule world_safe_change) (auto simp: world_safe_def rooms_safe_def grows_def)

lemma world_safe_answer:
  "world_safe ops view ok uni v0 pcs w \<Longrightarrow> world_safe ops view ok uni v0 pcs (answer cdc c env w)"
  by (auto simp: answer_def send_def world_safe_sent split: prod.split option.split)

lemma world_safe_db:
  assumes safe: "world_safe ops view ok uni v0 pcs w" and db: "honest_db view ok uni v0 db"
  shows "world_safe ops view ok uni v0 pcs (w\<lparr>w_db := db\<rparr>)"
proof (rule world_safe_change [OF safe])
  have kept: "players_kept (view (w_db w)) (view db)"
    using honest_players [OF _ db] safe by (simp add: world_safe_def)
  show "grows view w (w\<lparr>w_db := db\<rparr>)"
    using is_player_db [OF kept] by (simp add: grows_def)
  show "rooms_safe view (w\<lparr>w_db := db\<rparr>)"
    using safe is_player_db [OF kept] by (simp add: world_safe_def rooms_safe_def)
qed (use db in simp_all)

lemma is_player_fresh:
  "c < w_nconn w \<Longrightarrow> is_player view (fresh_conn uid w) m c = is_player view w m c"
  by (simp add: is_player_def fresh_conn_def)

lemma fresh_rooms [simp]:
  "w_room (fresh_conn uid w) = w_room w" "w_nroom (fresh_conn uid w) = w_nroom w"
  "h_rooms (fresh_conn uid w) = h_rooms w"
  "cn_match (w_conn (fresh_conn uid w) c) = (if c = w_nconn w then [] else cn_match (w_conn w c))"
  by (simp_all add: fresh_conn_def)

lemma world_safe_fresh:
  assumes safe: "world_safe ops view ok uni v0 pcs w"
  shows "world_safe ops view ok uni v0 pcs (fresh_conn uid w)"
proof (rule world_safe_change [OF safe])
  show "grows view w (fresh_conn uid w)" by (simp add: grows_def is_player_fresh)
  have r: "rooms_safe view w" using safe by (simp add: world_safe_def)
  have "c \<in> set (rm_conns (w_room w r)) \<Longrightarrow> r < w_nroom w \<Longrightarrow>
      c < Suc (w_nconn w) \<and> is_player view (fresh_conn uid w) (rm_id (w_room w r)) c" for r c
    using r by (simp add: rooms_safe_def is_player_fresh less_SucI)
  moreover have "cn_match (w_conn w c) \<noteq> [] \<Longrightarrow>
      c < Suc (w_nconn w) \<and> is_player view (fresh_conn uid w) (cn_match (w_conn w c)) c" for c
    using r by (simp add: rooms_safe_def is_player_fresh less_SucI)
  ultimately show "rooms_safe view (fresh_conn uid w)"
    using r by (auto simp: rooms_safe_def)
qed (use safe in \<open>simp_all add: world_safe_def\<close>)

lemma world_safe_register:
  assumes safe: "world_safe ops view ok uni v0 pcs w" and "c < w_nconn w"
  shows "world_safe ops view ok uni v0 pcs (register c w)"
  by (rule world_safe_change [OF safe])
    (use assms in \<open>auto simp: world_safe_def rooms_safe_def grows_def register_def\<close>)

lemma unregister_room:
  "rm_id (w_room (unregister c w) r) = rm_id (w_room w r)"
  "c' \<in> set (rm_conns (w_room (unregister c w) r)) \<Longrightarrow> c' \<in> set (rm_conns (w_room w r))"
  "gm_get (h_rooms (unregister c w)) m = Some r \<Longrightarrow> gm_get (h_rooms w) m = Some r"
  by (auto simp: unregister_def Room_remove_def Let_def dest: set_remove1_subset [THEN subsetD] split: option.splits if_splits)

lemma world_safe_close:
  assumes safe: "world_safe ops view ok uni v0 pcs w"
  shows "world_safe ops view ok uni v0 pcs (close_conn c w)"
proof -
  have "world_safe ops view ok uni v0 pcs (unregister c w)"
  proof (rule world_safe_change [OF safe])
    have r: "rooms_safe view w" using safe by (simp add: world_safe_def)
    show "grows view w (unregister c w)" by (simp add: grows_def unregister_room(1))
    show "rooms_safe view (unregister c w)"
      unfolding rooms_safe_def
    proof (intro conjI allI impI ballI)
      fix m r assume "gm_get (h_rooms (unregister c w)) m = Some r"
      from unregister_room(3) [OF this] show "r < w_nroom (unregister c w)"
        "rm_id (w_room (unregister c w) r) = m"
        using r by (simp_all add: rooms_safe_def unregister_room(1))
    next
      fix r d assume "r < w_nroom (unregister c w)" "d \<in> set (rm_conns (w_room (unregister c w) r))"
      then show "d < w_nconn (unregister c w)"
        "is_player view (unregister c w) (rm_id (w_room (unregister c w) r)) d"
        using r unregister_room(2) [of d c w r] by (simp_all add: rooms_safe_def unregister_room(1))
    qed (use r in \<open>simp_all add: rooms_safe_def\<close>)
  qed (use safe in \<open>simp_all add: world_safe_def\<close>)
  moreover have "close_conn c w = (unregister c w)\<lparr>w_sent := w_sent w @ [Dropped c]\<rparr>"
    by (auto simp: close_conn_def unregister_def Room_remove_def Room_empty_def Let_def split: option.split)
  ultimately show ?thesis by (simp add: world_safe_sent)
qed

text \<open>The two parts of a join that change rooms.\<close>

lemma is_player_join [simp]:
  "is_player view (w\<lparr>w_conn := (w_conn w)(c := (w_conn w c)\<lparr>cn_match := m\<rparr>)\<rparr>) = is_player view w"
  by (simp add: is_player_def fun_eq_iff)

lemma world_safe_enter:
  assumes safe: "world_safe ops view ok uni v0 pcs w" and pc: "pcs c = Checked rid m role opponent"
    and enter: "join_enter now c m w = (r, w')"
  shows "world_safe ops view ok uni v0 (pcs(c := Entered r rid m role opponent)) w'"
proof -
  have c: "c < w_nconn w" "is_player view w m c"
    using safe pc by (auto simp: world_safe_def dest: spec [of _ c])
  have r: "rooms_safe view w" using safe by (simp add: world_safe_def)
  define w1 where "w1 = (case gm_get (h_rooms w) m of Some _ \<Rightarrow> w
    | None \<Rightarrow> (snd (newRoom m now w))\<lparr>h_rooms := gm_put m (w_nroom w) (h_rooms w)\<rparr>)"
  have w': "w' = w1\<lparr>w_conn := (w_conn w1)(c := (w_conn w1 c)\<lparr>cn_match := m\<rparr>)\<rparr>"
    and room: "gm_get (h_rooms w1) m = Some r"
    using enter by (auto simp: w1_def join_enter_def newRoom_def Let_def split: option.splits)
  have same: "w_nconn w1 = w_nconn w" "w_conn w1 = w_conn w" "w_db w1 = w_db w" "h_store w1 = h_store w"
    "h_conns w1 = h_conns w" "is_player view w1 = is_player view w"
    by (simp_all add: w1_def newRoom_def is_player_def fun_eq_iff Let_def split: option.split)
  have r1: "rooms_safe view w1"
  proof (cases "gm_get (h_rooms w) m")
    case None
    then show ?thesis using r
      by (auto simp: w1_def newRoom_def rooms_safe_def is_player_def Let_def less_Suc_eq)
  next
    case (Some x)
    then show ?thesis using r by (simp add: w1_def)
  qed
  have "grows view w w1"
    by (auto simp: grows_def same) (auto simp: w1_def newRoom_def Let_def split: option.split)
  then have g: "grows view w w'" by (simp add: grows_def w')
  have p: "is_player view w' = is_player view w" by (simp add: w' same(6))
  have "rooms_safe view w'"
    using r1 c unfolding rooms_safe_def p same(6) by (auto simp: w' same)
  then have "world_safe ops view ok uni v0 pcs w'"
    using safe by (intro world_safe_change [OF safe g]) (simp_all add: w' same world_safe_def)
  moreover have "pc_safe view w' c (Entered r rid m role opponent)"
    using r1 room c unfolding pc_safe.simps p by (auto simp: rooms_safe_def w' same)
  ultimately show ?thesis by (simp add: world_safe_def)
qed

lemma world_safe_add:
  assumes safe: "world_safe ops view ok uni v0 pcs w" and pc: "pcs c = Entered r rid m role opponent"
  shows "world_safe ops view ok uni v0 (pcs(c := Idle)) (snd (Room_add r c w))"
proof -
  have c: "c < w_nconn w" "is_player view w m c" "r < w_nroom w" "rm_id (w_room w r) = m"
    using safe pc by (auto simp: world_safe_def dest: spec [of _ c])
  have "grows view w (snd (Room_add r c w))" by (simp add: grows_def Room_add_def)
  moreover have "rooms_safe view (snd (Room_add r c w))"
    using safe c by (auto simp: world_safe_def rooms_safe_def Room_add_def)
  moreover have "h_store (snd (Room_add r c w)) = h_store w" "w_db (snd (Room_add r c w)) = w_db w"
    by (simp_all add: Room_add_def)
  ultimately have "world_safe ops view ok uni v0 pcs (snd (Room_add r c w))"
    using safe by (intro world_safe_change [OF safe]) (simp_all add: world_safe_def)
  then show ?thesis by (simp add: world_safe_def)
qed

definition calls_safe ::
  "('s \<Rightarrow> store_view) \<Rightarrow> ('s \<Rightarrow> bool) \<Rightarrow> (string \<Rightarrow> string) \<Rightarrow> store_view \<Rightarrow> 's fine \<Rightarrow> bool"
where
  "calls_safe view ok uni v0 s \<longleftrightarrow>
     (\<forall>p \<in> set (f_http s). keeps (honest_db view ok uni v0) p) \<and>
     (\<forall>c p env. f_pc s c = Ending p env \<longrightarrow> keeps (honest_db view ok uni v0) p)"

definition fine_inv ::
  "'s store_ops \<Rightarrow> ('s \<Rightarrow> store_view) \<Rightarrow> ('s \<Rightarrow> bool) \<Rightarrow> (string \<Rightarrow> string) \<Rightarrow> store_view \<Rightarrow> 's fine \<Rightarrow> bool"
where
  "fine_inv ops view ok uni v0 s \<longleftrightarrow>
     world_safe ops view ok uni v0 (f_pc s) (f_world s) \<and> calls_safe view ok uni v0 s"

lemma calls_safe_pc:
  "calls_safe view ok uni v0 s \<Longrightarrow> (\<And>p env. pc = Ending p env \<Longrightarrow> keeps (honest_db view ok uni v0) p) \<Longrightarrow>
     calls_safe view ok uni v0 (s\<lparr>f_world := w, f_pc := (f_pc s)(c := pc)\<rparr>)"
  by (auto simp: calls_safe_def)

lemma world_safe_conn: "world_safe ops view ok uni v0 pcs w \<Longrightarrow> c \<in> h_conns w \<Longrightarrow> c < w_nconn w"
  by (simp add: world_safe_def rooms_safe_def)

lemma world_safe_ops: "world_safe ops view ok uni v0 pcs w \<Longrightarrow> h_store w = Some ops' \<Longrightarrow> ops' = ops"
  by (auto simp: world_safe_def)

lemma world_safe_open:
  assumes safe: "world_safe ops view ok uni v0 pcs w"
    and v: "\<And>f tok. v = Some f \<Longrightarrow> honest_db view ok uni v0 (snd (f tok (w_db w)))"
  shows "world_safe ops view ok uni v0 pcs (snd (open_conn cdc v accept rd wr w))"
proof -
  have fresh: "world_safe ops view ok uni v0 pcs ((fresh_conn uid w)\<lparr>w_db := db, w_sent := tr\<rparr>)"
    if "honest_db view ok uni v0 db" for uid db tr
    using that world_safe_fresh [OF safe, of uid] by (auto intro!: world_safe_sent world_safe_db)
  have reg: "world_safe ops view ok uni v0 pcs (register (w_nconn w) ((fresh_conn uid w)\<lparr>w_db := db, w_sent := tr\<rparr>))"
    if "honest_db view ok uni v0 db" for uid db tr
    by (rule world_safe_register [OF fresh [OF that]]) simp
  show ?thesis
  proof (cases rule: open_conn_cases [of cdc v accept rd wr w])
    case (2 f db tr)
    moreover have "honest_db view ok uni v0 (w_db w)" using safe by (simp add: world_safe_def)
    ultimately have "honest_db view ok uni v0 db" using v by auto
    then show ?thesis using 2 fresh by simp
  next
    case 3
    then show ?thesis
      using world_safe_register [OF world_safe_fresh [OF safe, of "[]"], of "w_nconn w"] by simp
  next
    case (4 f tok claims db tr)
    then have "honest_db view ok uni v0 db" using v [of f tok] by simp
    then show ?thesis using 4 reg by simp
  qed (use safe in simp)
qed

context store_laws
begin

lemma world_safe_effects: "store_effects (world_safe ops view ok uni v0 pcs) c"
proof
  fix w ops' db req now and mt :: game_match
  assume safe: "world_safe ops view ok uni v0 pcs w" and "h_store w = Some ops'"
    and get: "st_GetMatch ops' (cn_match (w_conn w c)) (w_db w) = (Inr mt, db)"
  then have ops: "ops' = ops" and h: "honest uni v0 (w_db w)" by (auto simp: world_safe_def)
  have "honest uni v0 db" "map_option m_players (v_matches v0 (m_id mt)) = Some (m_players mt)"
    using honest_get_match [OF h, of "cn_match (w_conn w c)"] get ops by simp_all
  then show "world_safe ops view ok uni v0 pcs (w\<lparr>w_db := snd (st_UpsertMatch ops' (ended_match req now mt) db)\<rparr>)"
    unfolding ops by (intro world_safe_db [OF safe] honest_put_match)
next
  fix w ops' m
  assume safe: "world_safe ops view ok uni v0 pcs w" and "h_store w = Some ops'"
  then have "ops' = ops" "honest uni v0 (w_db w)" by (auto simp: world_safe_def)
  then show "world_safe ops view ok uni v0 pcs (w\<lparr>w_db := snd (st_GetMatch ops' m (w_db w))\<rparr>)"
    using world_safe_db [OF safe] honest_get_match(1) by blast
next
  fix w ops' b u and sc :: int64
  assume safe: "world_safe ops view ok uni v0 pcs w" and "h_store w = Some ops'"
  then have "ops' = ops" "honest uni v0 (w_db w)" by (auto simp: world_safe_def)
  then show "world_safe ops view ok uni v0 pcs (w\<lparr>w_db := snd (st_SubmitScore ops' b u sc (w_db w))\<rparr>)"
    using world_safe_db [OF safe] honest_score by blast
qed (rule world_safe_sent)

lemma honest_gate: "own_upserter ops (gt_upserter g) \<Longrightarrow> honest uni v0 s \<Longrightarrow> honest uni v0 (snd (Gate_Verify (Some g) now tok s))"
  using honest_auth by (auto simp: Gate_Verify_def own_upserter_def run_upserter_def split: option.split prod.split)

lemma honest_ws_verifier:
  "good_env ops e \<Longrightarrow> ws_verifier (ev_router e) now = Some f \<Longrightarrow> honest uni v0 s \<Longrightarrow> honest uni v0 (snd (f tok s))"
  using honest_gate by (auto simp: ws_verifier_def good_env_def split: option.splits)

text \<open>A call of a program under way.\<close>

lemma keeps_program:
  "keeps (honest uni v0) (Call f) \<Longrightarrow> honest uni v0 db \<Longrightarrow> f db = (p, db') \<Longrightarrow> honest uni v0 db' \<and> keeps (honest uni v0) p"
  by (simp add: keeps_Call_iff)

lemma request_call:
  "calls_safe view ok uni v0 s \<Longrightarrow> f_http s = ps @ Call f # qs \<Longrightarrow> honest uni v0 db \<Longrightarrow> f db = (p, db') \<Longrightarrow>
     honest uni v0 db' \<and> keeps (honest uni v0) p"
  by (rule keeps_program [of uni v0 f db]) (simp_all add: calls_safe_def)

lemma end_call:
  "calls_safe view ok uni v0 s \<Longrightarrow> f_pc s c = Ending (Call f) env \<Longrightarrow> honest uni v0 db \<Longrightarrow> f db = (p, db') \<Longrightarrow>
     honest uni v0 db' \<and> keeps (honest uni v0) p"
  unfolding calls_safe_def by (rule keeps_program [of uni v0 f db]) blast+

lemma calls_safe_step:
  assumes "fine_step e s s'" and env: "good_env ops e" and inv: "fine_inv ops view ok (ev_uni e) v0 s"
  shows "calls_safe view ok (ev_uni e) v0 s'"
proof -
  have calls: "calls_safe view ok (ev_uni e) v0 s" and safe: "world_safe ops view ok (ev_uni e) v0 (f_pc s) (f_world s)"
    and h: "honest (ev_uni e) v0 (w_db (f_world s))"
    using inv by (simp_all add: fine_inv_def world_safe_def)
  show ?thesis
    using assms(1)
  proof cases
    case (Fine_Http ck hdr r)
    then show ?thesis using calls keeps_http env by (simp add: calls_safe_def good_env_def)
  next
    case (Fine_Call ps f qs p db)
    note request_call [OF calls Fine_Call(2) h Fine_Call(3)]
    then show ?thesis using calls Fine_Call by (auto simp: calls_safe_def)
  next
    case (Fine_End c env ops' req now)
    then have "h_store (f_world s) = Some ops'"
      by (auto simp: end_guard_def split: option.splits sum.splits if_splits)
    then have "ops' = ops" using safe by (auto simp: world_safe_def)
    then show ?thesis using calls keeps_end by (auto simp: Fine_End calls_safe_def)
  next
    case (Fine_End_Call c f env p db)
    note end_call [OF calls Fine_End_Call(2) h Fine_End_Call(3)]
    then show ?thesis using calls Fine_End_Call by (auto simp: calls_safe_def)
  qed (use calls in \<open>auto simp: calls_safe_def\<close>)
qed

lemma check_safe:
  assumes safe: "world_safe ops view ok uni v0 pcs w0" and c: "c \<in> h_conns w0"
    and j0: "join_check cdc c env w0 = (Inr (m, role, opponent), w)"
  shows "pc_safe view w c (Checked rid m role opponent)"
proof -
  obtain ops' mt where j: "h_store w0 = Some ops'" "cn_uid (w_conn w0 c) \<noteq> []"
    "st_GetMatch ops' m (w_db w0) = (Inr mt, w_db w)" "w = w0\<lparr>w_db := w_db w\<rparr>"
    "cn_uid (w_conn w0 c) \<in> set (m_players mt)"
    using join_check_Inr [OF j0] by blast
  have ok: "ok (w_db w0)" using safe by (simp add: world_safe_def honest_db_def store_inv_def)
  have "ops' = ops" using world_safe_ops [OF safe j(1)] .
  then have "v_matches (view (w_db w0)) m = Some mt" "view (w_db w) = view (w_db w0)"
    using lookup_opD(2,3) [OF match_law ok, of m] j(3) by simp_all
  moreover have "w_conn w = w_conn w0" "w_nconn w = w_nconn w0"
    by (subst j(4), simp)+
  ultimately show ?thesis
    using j world_safe_conn [OF safe c] by (simp add: is_player_def)
qed

lemma world_safe_step:
  assumes "fine_step e s s'" and env: "good_env ops e" and inv: "fine_inv ops view ok (ev_uni e) v0 s"
  shows "world_safe ops view ok (ev_uni e) v0 (f_pc s') (f_world s')"
proof -
  have calls: "calls_safe view ok (ev_uni e) v0 s" and safe: "world_safe ops view ok (ev_uni e) v0 (f_pc s) (f_world s)"
    and h: "honest (ev_uni e) v0 (w_db (f_world s))"
    using inv by (simp_all add: fine_inv_def world_safe_def)
  note eff = world_safe_effects [where uni = "ev_uni e" and pcs = "f_pc s" and ?v0.0 = v0]
  show ?thesis
    using assms(1)
  proof cases
    case (Fine_Call ps f qs p db)
    note request_call [OF calls Fine_Call(2) h Fine_Call(3)]
    then show ?thesis using world_safe_db [OF safe] Fine_Call by simp
  next
    case (Fine_Open now accept rd wr)
    then show ?thesis using world_safe_open [OF safe] honest_ws_verifier [OF env _ h] by simp
  next
    case (Fine_Frame c data i)
    then show ?thesis
      using store_effects.other_frame_keeps [OF eff safe] by simp
  next
    case (Fine_Refuse c env res w)
    then have "world_safe ops view ok (ev_uni e) v0 (f_pc s) w"
      using store_effects.join_check_keeps [OF eff safe] by blast
    then show ?thesis
      using Fine_Refuse by (simp add: world_safe_answer split: sum.split)
  next
    case (Fine_Check c env m role opponent w)
    then show ?thesis
      using store_effects.join_check_keeps [OF eff safe] check_safe [OF safe Fine_Check(2,4)]
      by (simp add: world_safe_def)
  next
    case (Fine_Enter c rid m role opponent now r w)
    then show ?thesis
      using world_safe_enter [of ops view ok "ev_uni e" v0 "f_pc s" "f_world s" c rid m role opponent now r w] safe
      by simp
  next
    case (Fine_Add c r rid m role opponent)
    then show ?thesis
      using world_safe_add [OF safe Fine_Add(2)] by (simp add: world_safe_answer)
  next
    case (Fine_End_Call c f env p db)
    note end_call [OF calls Fine_End_Call(2) h Fine_End_Call(3)]
    then have "world_safe ops view ok (ev_uni e) v0 (f_pc s) ((f_world s)\<lparr>w_db := db\<rparr>)"
      using world_safe_db [OF safe] by blast
    then show ?thesis by (simp add: Fine_End_Call world_safe_def)
  next
    case (Fine_End_Done c res env)
    have "world_safe ops view ok (ev_uni e) v0 (f_pc s) (case res of Some err \<Rightarrow> f_world s
          | None \<Rightarrow> answer (ev_codec e) c env
              (broadcastRoom (ev_codec e) (cn_match (w_conn (f_world s) c)) env c (f_world s)))"
      using safe store_effects.keeps_broadcast [OF eff safe] by (simp add: world_safe_answer split: option.split)
    then show ?thesis by (simp add: Fine_End_Done world_safe_def)
  next
    case (Fine_Close c)
    then show ?thesis using world_safe_close [OF safe] by simp
  qed (use safe in \<open>simp_all add: world_safe_def\<close>)
qed

lemma fine_inv_reachable:
  "fine_reachable e s0 s \<Longrightarrow> good_env ops e \<Longrightarrow> fine_inv ops view ok (ev_uni e) v0 s0
     \<Longrightarrow> fine_inv ops view ok (ev_uni e) v0 s"
  by (induction rule: fine_reachable.induct) (auto simp: fine_inv_def intro: world_safe_step calls_safe_step)

end

lemma fine_inv_start:
  assumes "ok db" and "keyed_matches (view db)" and "attempts_sound uni (view db)"
    and "w0 = NewHub db \<or> w0 = NewHubWithStore ops db"
  shows "fine_inv ops view ok uni (view db) (start w0)"
  using assms
  by (auto simp: fine_inv_def calls_safe_def world_safe_def honest_db_def store_inv_def rooms_safe_def NewHubWithStore_def
      NewHub_def nil_conn_def)

end
