(* ===== verification/Ws_Race.thy ===== *)
theory Ws_Race
  imports Ws_Fine_Safe
begin

text \<open>
  Rooms at lock level: whatever is half done, only players sit in rooms; but the registry invariant of the server with
  atomic handlers is lost, and how.
\<close>

section \<open>Rooms\<close>

lemma fine_inv_seeded:
  "fine_inv mem_iface mem_view mem_wf uni (mem_view (seeded cs)) (start (NewHubWithStore mem_iface (seeded cs)))"
  using seeded_server_inv [of uni cs]
  by (intro fine_inv_start) (auto simp: server_inv_def store_inv_def NewHubWithStore_def NewHub_def)

text \<open>C15: Only players sit in rooms, also when handlers are interrupted: in every state that the
  lock-level server can reach from a hub with a seeded in-memory store, every member of every
  room object, listed in the registry or not, is a connection whose user is a player of the match
  whose id the room has.\<close>

theorem fine_rooms_have_players:
  assumes "fine_reachable e (start (NewHubWithStore mem_iface (seeded cs))) s" and "good_env mem_iface e"
    and "r < w_nroom (f_world s)" and "c \<in> set (rm_conns (w_room (f_world s) r))"
  shows "cn_uid (w_conn (f_world s) c) \<noteq> [] \<and>
    (\<exists>mt. gm_get (ms_matches (w_db (f_world s))) (rm_id (w_room (f_world s) r)) = Some mt
       \<and> cn_uid (w_conn (f_world s) c) \<in> set (m_players mt))"
proof -
  have "fine_inv mem_iface mem_view mem_wf (ev_uni e) (mem_view (seeded cs)) s"
    by (rule mem.fine_inv_reachable [OF assms(1,2) fine_inv_seeded])
  then have "is_player mem_view (f_world s) (rm_id (w_room (f_world s) r)) c"
    using assms(3,4) by (simp add: fine_inv_def world_safe_def rooms_safe_def)
  then show ?thesis by (simp add: is_player_def)
qed

section \<open>A join that loses its room\<close>

text \<open>
  Bob is in the room of the match. Ann's join finds that room; before it adds her, Bob's
  connection ends and takes the empty room out of the registry; then Ann is added to it. Bob
  comes back and gets a new room.
\<close>

definition bob_in :: "mem_store world" where
  "bob_in = says (Suc 0) (join_env ''m1'') two_conns"

definition half_joined :: "mem_store world" where
  "half_joined = snd (join_enter 9 0 ''m1'' bob_in)"

definition bob_left :: "mem_store world" where
  "bob_left = close_conn (Suc 0) half_joined"

definition ann_lost :: "mem_store world" where
  "ann_lost = answer wire_codec 0 (ackJoin wire_codec ''r1'' True ''m1'' ''p1'' ''bob'' [])
     (snd (Room_add (fst (join_enter 9 0 ''m1'' bob_in)) 0 bob_left))"

definition bob_back :: "mem_store world" where
  "bob_back = says 2 (join_env ''m1'') (open_as ''bob'' ann_lost)"

lemma runs_bob: "runs_to bob_in"
  unfolding bob_in_def by (rule reach_says [OF runs_two]) simp

lemma bob_in_simps [simp]:
  "h_conns bob_in = {0, Suc 0}" "w_nconn bob_in = 2" "members m bob_in = (if m = ''m1'' then [Suc 0] else [])"
  "h_store bob_in = Some mem_iface" "w_db bob_in = w_db two_conns"
  "w_conn bob_in 0 = \<lparr>cn_uid = ''ann'', cn_match = []\<rparr>"
  "w_conn bob_in (Suc 0) = \<lparr>cn_uid = ''bob'', cn_match = ''m1''\<rparr>"
proof -
  have j: "may_join wire_codec (Suc 0) (join_env ''m1'') two_conns ''m1'' match1" by (simp add: may_join_env)
  show "h_conns bob_in = {0, Suc 0}" "w_nconn bob_in = 2" "members m bob_in = (if m = ''m1'' then [Suc 0] else [])"
    "h_store bob_in = Some mem_iface" "w_db bob_in = w_db two_conns"
    "w_conn bob_in 0 = \<lparr>cn_uid = ''ann'', cn_match = []\<rparr>"
    "w_conn bob_in (Suc 0) = \<lparr>cn_uid = ''bob'', cn_match = ''m1''\<rparr>"
    using runs_inv [OF runs_two] by (simp_all add: bob_in_def says_join_simps [OF _ _ j])
qed

lemma ann_lost_simps [simp]:
  "h_conns ann_lost = {0}" "w_nconn ann_lost = 2" "gm_get (h_rooms ann_lost) ''m1'' = None"
  "h_store ann_lost = Some mem_iface" "w_db ann_lost = w_db two_conns"
  "w_conn ann_lost 0 = \<lparr>cn_uid = ''ann'', cn_match = ''m1''\<rparr>"
proof -
  obtain r where r: "gm_get (h_rooms bob_in) ''m1'' = Some r" "rm_conns (w_room bob_in r) = [Suc 0]"
    using bob_in_simps(3) [of "''m1''"] by (auto simp: members_def split: option.splits)
  then have half: "fst (join_enter 9 0 ''m1'' bob_in) = r"
    "half_joined = bob_in\<lparr>w_conn := (w_conn bob_in)(0 := \<lparr>cn_uid = ''ann'', cn_match = ''m1''\<rparr>)\<rparr>"
    by (simp_all add: half_joined_def join_enter_def)
  show "h_conns ann_lost = {0}" "w_nconn ann_lost = 2" "gm_get (h_rooms ann_lost) ''m1'' = None"
    "h_store ann_lost = Some mem_iface" "w_db ann_lost = w_db two_conns"
    "w_conn ann_lost 0 = \<lparr>cn_uid = ''ann'', cn_match = ''m1''\<rparr>"
    using r by (auto simp: ann_lost_def bob_left_def half close_conn_def unregister_def Room_remove_def
        Room_empty_def Room_add_def answer_def send_def Let_def split: prod.split option.split)
qed

lemma bob_back_simps:
  "{0, 2} \<subseteq> h_conns bob_back" "cn_match (w_conn bob_back 0) = ''m1''" "cn_match (w_conn bob_back 2) = ''m1''"
  "members ''m1'' bob_back = [2]"
proof -
  have j: "may_join wire_codec 2 (join_env ''m1'') (open_as ''bob'' ann_lost) ''m1'' match1"
    by (simp add: may_join_env numeral_2_eq_2 [symmetric])
  have none: "gm_get (h_rooms (open_as ''bob'' ann_lost)) ''m1'' = None"
    using open_as_eq [of "''bob''" ann_lost] by auto
  show "{0, 2} \<subseteq> h_conns bob_back" "cn_match (w_conn bob_back 0) = ''m1''" "cn_match (w_conn bob_back 2) = ''m1''"
    by (simp_all add: bob_back_def says_join_simps [OF _ _ j])
  show "members ''m1'' bob_back = [2]"
    using none by (simp add: bob_back_def says_join [OF _ _ j])
      (simp add: members_def enter_room_def join_enter_def newRoom_def Room_add_def Let_def)
qed

lemma fine_lost: "fine_reachable sample_env (start bob_in) (start ann_lost)"
proof -
  define pc1 :: "nat \<Rightarrow> mem_store join_pc" where "pc1 = (\<lambda>_. Idle)(0 := Checked ''r1'' ''m1'' ''p1'' ''bob'')"
  obtain r where enter: "join_enter 9 0 ''m1'' bob_in = (r, half_joined)"
    by (metis half_joined_def prod.collapse)
  define pc2 where "pc2 = pc1(0 := Entered r ''r1'' ''m1'' ''p1'' ''bob'')"
  have j: "may_join wire_codec 0 (join_env ''m1'') bob_in ''m1'' match1" by (simp add: may_join_env)
  have "join_check wire_codec 0 (join_env ''m1'') bob_in = (Inr (''m1'', ''p1'', ''bob''), bob_in)"
    using join_check_may_join(1) [OF _ _ j] by (simp add: roleOf_eq)
  then have 1: "fine_step sample_env (start bob_in) \<lparr>f_world = bob_in, f_pc = pc1, f_http = []\<rparr>"
    using Fine_Check [of 0 "start bob_in" sample_env "join_env ''m1''" "''m1''" "''p1''" "''bob''" bob_in]
    by (simp add: start_def sample_env_def pc1_def join_env_def)
  have 2: "fine_step sample_env \<lparr>f_world = bob_in, f_pc = pc1, f_http = []\<rparr> \<lparr>f_world = half_joined, f_pc = pc2, f_http = []\<rparr>"
    using Fine_Enter [of "\<lparr>f_world = bob_in, f_pc = pc1, f_http = []\<rparr>" 0 "''r1''" "''m1''" "''p1''" "''bob''" 9 r half_joined]
      enter by (simp add: pc1_def pc2_def)
  have "h_conns half_joined = {0, Suc 0}"
    by (simp add: half_joined_def join_enter_def newRoom_def Let_def split: option.split)
  then have 3: "fine_step sample_env \<lparr>f_world = half_joined, f_pc = pc2, f_http = []\<rparr> \<lparr>f_world = bob_left, f_pc = pc2, f_http = []\<rparr>"
    using Fine_Close [of "Suc 0" "\<lparr>f_world = half_joined, f_pc = pc2, f_http = []\<rparr>" sample_env]
    by (simp add: bob_left_def pc2_def pc1_def)
  have idle: "pc2(0 := Idle) = (\<lambda>_. Idle)" by (auto simp: pc2_def pc1_def)
  have 4: "fine_step sample_env \<lparr>f_world = bob_left, f_pc = pc2, f_http = []\<rparr> (start ann_lost)"
    using Fine_Add [of "\<lparr>f_world = bob_left, f_pc = pc2, f_http = []\<rparr>" 0 r "''r1''" "''m1''" "''p1''" "''bob''" sample_env] enter
    by (simp add: start_def ann_lost_def idle sample_env_def) (simp add: pc2_def)
  show ?thesis by (rule Fine_next [OF Fine_next [OF Fine_next [OF fine_one [OF 1] 2] 3] 4])
qed

lemma fine_back: "fine_reachable sample_env (start ann_lost) (start bob_back)"
proof -
  have "fine_step sample_env (start ann_lost) (start (open_as ''bob'' ann_lost))"
    using Fine_Open [of sample_env "start ann_lost" 5 None "ReadBinary (frame (auth_env ''bob''))" None]
    by (simp add: open_as_def sample_env_def)
  moreover have "fine_reachable sample_env (start (open_as ''bob'' ann_lost)) (start bob_back)"
    using fine_frame [of 2 "open_as ''bob'' ann_lost" sample_env "at_time 9" "frame (join_env ''m1'')"]
    by (simp add: bob_back_def says_def sample_env_def)
  ultimately show ?thesis by (blast intro: fine_trans fine_one)
qed

lemma fine_runs_back:
  "fine_reachable sample_env (start (NewHubWithStore mem_iface (seeded sample_seed))) (start bob_back)"
  by (rule fine_trans [OF fine_back fine_trans [OF fine_lost coarse_fine [OF runs_bob]]])

text \<open>C14: Two players can both have joined the same match and yet not be in one room: the lock-level
  server can reach a state with no join under way in which two live connections have the same
  match, but only one of them is a member of its room, because the hub's lock is released before
  the connection is added to the room. (With atomic handlers this cannot happen.)\<close>

theorem join_race_splits_match:
  "\<exists>w. fine_reachable sample_env (start (NewHubWithStore mem_iface (seeded sample_seed))) (start w)
     \<and> {0, 2} \<subseteq> h_conns w \<and> cn_match (w_conn w 0) = ''m1'' \<and> cn_match (w_conn w 2) = ''m1''
     \<and> members ''m1'' w = [2]"
proof (intro exI [of _ bob_back] conjI)
  show "fine_reachable sample_env (start (NewHubWithStore mem_iface (seeded sample_seed))) (start bob_back)"
    by (rule fine_runs_back)
qed (rule bob_back_simps)+


theorem fine_rooms_have_players_witness:
  "\<exists>r mt. gm_get (h_rooms bob_back) ''m1'' = Some r \<and> 2 \<in> set (rm_conns (w_room bob_back r))
     \<and> gm_get (ms_matches (w_db bob_back)) (rm_id (w_room bob_back r)) = Some mt
     \<and> cn_uid (w_conn bob_back 2) \<in> set (m_players mt)"
proof -
  obtain r where r: "gm_get (h_rooms bob_back) ''m1'' = Some r" "2 \<in> set (rm_conns (w_room bob_back r))"
    using bob_back_simps(4) by (auto simp: members_def split: option.splits)
  have "fine_inv mem_iface mem_view mem_wf (ev_uni sample_env) (mem_view (seeded sample_seed)) (start bob_back)"
    by (rule mem.fine_inv_reachable [OF fine_runs_back sample_good fine_inv_seeded])
  then have "r < w_nroom bob_back"
    using r(1) by (simp add: fine_inv_def world_safe_def rooms_safe_def)
  with r show ?thesis
    using fine_rooms_have_players [OF fine_runs_back sample_good, of r 2] by auto
qed

end
