(* ===== verification/Program_Fine.thy ===== *)
theory Program_Fine
  imports Program Ws_Race
begin

text \<open>
  The server on MongoDB, at the granularity of its locks and of its database commands: what holds at every moment,
  while handlers are half done.
\<close>

section \<open>The hub with the store\<close>

lemma mongo_fine_inv:
  assumes "mongo_driver dr bc docs" and "mongo_wf docs db" and "attempts_sound (ev_uni e) (mongo_view bc docs db)"
    and "good_env (mongo_ops dr bc) e" and "w0 = NewHub db \<or> w0 = NewHubWithStore (mongo_ops dr bc) db"
    and "fine_reachable e (start w0) s"
  shows "fine_inv (mongo_ops dr bc) (mongo_view bc docs) (mongo_wf docs) (ev_uni e) (mongo_view bc docs db) s"
  using fine_inv_start [where ok = "mongo_wf docs" and view = "mongo_view bc docs", OF assms(2) _ assms(3,5)]
    mongo_driver.matches_keyed [OF assms(1,2)]
    store_laws.fine_inv_reachable [OF mongo_driver.store_contract [OF assms(1)] assms(6,4)] by blast

text \<open>C24: The server with match play is safe on MongoDB at every moment: start it on a well-formed database with honest
  attempts and a driver that behaves as documented and may fail any call, let any requests, handshakes, frames and
  disconnections interleave, and stop between any two critical sections or database commands. Every member of every room is a player of
  that match as the database has it, every stored attempt has exactly the score and win flag of its guesses against the
  stored puzzle, no puzzle has changed, and every match has the players that it had.\<close>

theorem mongo_fine_safe:
  assumes "mongo_driver dr bc docs" and "mongo_wf docs db" and "attempts_sound (ev_uni e) (mongo_view bc docs db)"
    and "good_env (mongo_ops dr bc) e" and "fine_reachable e (start (NewHubWithStore (mongo_ops dr bc) db)) s"
  shows "(\<forall>r c. r < w_nroom (f_world s) \<longrightarrow> c \<in> set (rm_conns (w_room (f_world s) r)) \<longrightarrow>
        is_player (mongo_view bc docs) (f_world s) (rm_id (w_room (f_world s) r)) c)
    \<and> attempts_sound (ev_uni e) (mongo_view bc docs (w_db (f_world s)))
    \<and> v_puzzles (mongo_view bc docs (w_db (f_world s))) = v_puzzles (mongo_view bc docs db)
    \<and> map_option m_players (v_matches (mongo_view bc docs (w_db (f_world s))) m)
        = map_option m_players (v_matches (mongo_view bc docs db) m)"
  using mongo_fine_inv [OF assms(1-4) disjI2 [OF refl] assms(5)]
  by (simp add: fine_inv_def world_safe_def rooms_safe_def honest_db_def store_inv_def steady_def)

section \<open>Identities\<close>

text \<open>Half-done handlers do not touch the identities of the connections.\<close>

interpretation conn_ids: store_effects "conns_verified rt" c for rt c
  by unfold_locales (auto simp: conns_verified_def)

lemma conns_verified_cong:
  "h_conns w' = h_conns w \<Longrightarrow> w_nconn w' = w_nconn w \<Longrightarrow> (\<And>c. cn_uid (w_conn w' c) = cn_uid (w_conn w c)) \<Longrightarrow>
     conns_verified rt w' = conns_verified rt w"
  by (simp add: conns_verified_def)

lemma answer_conns [simp]: "conns_verified rt (answer cdc c env w) = conns_verified rt w"
  by (rule conns_verified_cong) (auto simp: answer_def send_def split: prod.split option.split)

lemma enter_conns: "join_enter now c m w = (r, w') \<Longrightarrow> conns_verified rt w' = conns_verified rt w"
  by (rule conns_verified_cong) (auto simp: join_enter_def newRoom_def Let_def split: option.splits)

lemma db_conns [simp]: "conns_verified rt (w\<lparr>w_db := db\<rparr>) = conns_verified rt w"
  by (rule conns_verified_cong) simp_all

lemma fine_conns_step:
  assumes "fine_step e s s'" and ids: "conns_verified (ev_router e) (f_world s)"
  shows "conns_verified (ev_router e) (f_world s')"
  using assms(1)
proof cases
  case (Fine_Open now accept rd wr)
  then show ?thesis using conns_verified_step [OF Step_Open ids] by simp
next
  case (Fine_Frame c data i)
  then show ?thesis using conn_ids.other_frame_keeps [OF ids] by simp
next
  case (Fine_Refuse c env res w)
  then show ?thesis using conn_ids.join_check_keeps [OF ids Fine_Refuse(4)] by (simp split: sum.split)
next
  case (Fine_Check c env m role opponent w)
  then show ?thesis using conn_ids.join_check_keeps [OF ids Fine_Check(4)] by simp
next
  case (Fine_Enter c rid m role opponent now r w)
  then show ?thesis using enter_conns [OF Fine_Enter(3)] ids by simp
next
  case (Fine_Add c r rid m role opponent)
  have "conns_verified (ev_router e) (snd (Room_add r c (f_world s))) = conns_verified (ev_router e) (f_world s)"
    by (rule conns_verified_cong) (simp_all add: Room_add_def)
  with Fine_Add ids show ?thesis by simp
next
  case (Fine_End_Done c res env)
  then show ?thesis using conn_ids.keeps_broadcast [OF ids] ids by (simp split: option.split)
next
  case (Fine_Close c)
  then show ?thesis using conns_verified_step [OF Step_Close ids] by simp
qed (use ids in simp_all)

lemma fine_conns_reachable:
  "fine_reachable e s0 s \<Longrightarrow> h_conns (f_world s0) = {} \<Longrightarrow> conns_verified (ev_router e) (f_world s)"
proof (induction rule: fine_reachable.induct)
  case Fine_init
  then show ?case by (simp add: conns_verified_def)
qed (blast intro: fine_conns_step)

section \<open>The program\<close>

text \<open>C3: The program, from its start on and at every moment: if it has started on MongoDB with a driver that
  behaves as documented, and the database it connected to was well-formed with honest attempts, then however requests,
  handshakes, frames and disconnections interleave, between any two critical sections or database commands, and
  whichever commands fail, every stored attempt has the exact score of its guesses against the stored puzzle of its valid
  date, no puzzle has changed, and every live WebSocket connection acts under the user id of an ID token that
  Firebase has accepted.\<close>

theorem program_always_safe:
  assumes "mongo_driver dr bc docs"
    and "\<And>uri database s. connect uri database = Inr s \<Longrightarrow>
           docs_wf (docs s) \<and> attempts_sound (ev_uni e) (docs_view bc (docs s))"
    and "main_on_mongo dr bc connect getenv sdk_app sdk_auth sdk_verify path_abs is_dir
           = Inr (ev_router e, w0)"
    and "fine_reachable e (start w0) s"
  shows "attempts_sound (ev_uni e) (mongo_view bc docs (w_db (f_world s)))
    \<and> v_puzzles (mongo_view bc docs (w_db (f_world s))) = v_puzzles (mongo_view bc docs (w_db w0))
    \<and> (\<forall>c \<in> h_conns (f_world s).
        \<exists>client tok t. sdk_verify client tok = Inr t \<and> tk_uid t = cn_uid (w_conn (f_world s) c))"
proof -
  obtain c0 client where start: "w0 = NewHub c0" "mongo_wf docs c0" "attempts_sound (ev_uni e) (mongo_view bc docs c0)"
    "good_env (mongo_ops dr bc) e"
    and gate: "rt_ws_verifier (ev_router e) =
        Some (NewGate (Some (Firebase_Verify sdk_verify (Some client)))
               (Some (st_UpsertUserOnFirstAuth (mongo_ops dr bc))))"
    using main_start [OF assms(1) _ assms(3)] assms(2) by blast
  have db: "w_db w0 = c0" by (simp add: start(1) NewHub_def)
  have "fine_inv (mongo_ops dr bc) (mongo_view bc docs) (mongo_wf docs) (ev_uni e) (mongo_view bc docs c0) s"
    using mongo_fine_inv [OF assms(1) start(2-4) _ assms(4)] start(1) by blast
  moreover have "conns_verified (ev_router e) (f_world s)"
    by (rule fine_conns_reachable [OF assms(4)]) (simp add: start(1) NewHub_def)
  ultimately show ?thesis
    using verified_token [OF gate] unfolding db
    by (auto simp: fine_inv_def world_safe_def honest_db_def store_inv_def steady_def conns_verified_def)
qed

section \<open>Half-done requests\<close>

text \<open>A submission that has arrived and not yet been handled.\<close>

definition arrived :: "'s env \<Rightarrow> 's world \<Rightarrow> 's fine" where
  "arrived e w = (start w)\<lparr>f_http := [http_prog (ev_router e) (ev_uni e) (ev_files e)
     \<lparr>ck_auth = 1, ck_1 = sample_now, ck_2 = sample_now\<rparr> ''Bearer ann'' (HApi (RSubmit sample_body))]\<rparr>"

lemma arrived_reachable: "reachable e w0 w \<Longrightarrow> fine_reachable e (start w0) (arrived e w)"
  using Fine_next [OF coarse_fine Fine_Http, of e w0 w] by (simp add: arrived_def del: http_prog.simps)

lemma arrived_world [simp]: "f_world (arrived e w) = w"
  by (simp add: arrived_def)

theorem mongo_fine_safe_witness:
  "f_http (arrived ref_env ref_world) \<noteq> [] \<and>
   attempts_sound (ev_uni ref_env) (mongo_view ref_codec (\<lambda>s. s) (w_db (f_world (arrived ref_env ref_world)))) \<and>
   v_puzzles (mongo_view ref_codec (\<lambda>s. s) (w_db (f_world (arrived ref_env ref_world)))) ''2025-11-29'' = Some sample_puzzle"
proof -
  have good: "good_env (mongo_ops ref_driver ref_codec) ref_env"
    by (simp add: good_env_def ref_env_def)
  have "reachable ref_env (NewHubWithStore (mongo_ops ref_driver ref_codec) ref_seeded) ref_world"
    unfolding ref_world_def by (blast intro: Reach_step Reach_init Step_Open)
  note run = arrived_reachable [OF this]
  have sound: "attempts_sound (ev_uni ref_env) (mongo_view ref_codec (\<lambda>s. s) ref_seeded)"
    using ref_seeded_sound by (simp add: ref_env_def)
  have "v_puzzles (mongo_view ref_codec (\<lambda>s. s) ref_seeded) ''2025-11-29'' = Some sample_puzzle"
    by (simp add: ref_seeded_view view_put_puzzle_def sample_puzzle_def)
  then show ?thesis
    using mongo_fine_safe [OF ref.mongo_driver_axioms ref_seeded_view(1) sound good run]
    by (auto simp: arrived_def)
qed

theorem program_always_safe_witness:
  "f_http (arrived ref_server ref_ann) \<noteq> [] \<and> 0 \<in> h_conns (f_world (arrived ref_server ref_ann)) \<and>
   (\<exists>client tok t. any_token client tok = Inr t \<and> tk_uid t = cn_uid (w_conn (f_world (arrived ref_server ref_ann)) 0)) \<and>
   attempts_sound (\<lambda>s. s) (mongo_view ref_codec (\<lambda>s. s) (w_db (f_world (arrived ref_server ref_ann))))"
proof -
  obtain claims tr where ann: "ref_ann = register 0 ((fresh_conn ''ann'' (NewHub ref_seeded))
     \<lparr>w_db := snd (mongo_UpsertUserOnFirstAuth ref_driver ref_codec 5 claims ref_seeded), w_sent := tr\<rparr>)"
    using ref_ann_eq by blast
  have "0 \<in> h_conns ref_ann" by (simp add: ann register_def)
  moreover have "ev_uni ref_server = (\<lambda>s. s)" by (simp add: ref_server_def)
  ultimately show ?thesis
    using program_always_safe [OF ref.mongo_driver_axioms ref_good ref_start arrived_reachable [OF ref_ann_reachable]]
    by (auto simp: arrived_def)
qed

end
