(* ===== verification/Api_Text.thy ===== *)
theory Api_Text
  imports Api_Props Mem_Queries
begin

text \<open>
  The bytes that leave the program as JSON: the bodies of the API's responses, and the lines of
  \<open>Export\<close>. A handler ignores the error of \<open>Encode\<close>, in which case the body is empty; \<open>Export\<close>
  returns it.
\<close>

section \<open>Response bodies\<close>

definition response_bytes :: "response \<Rightarrow> string" where
  "response_bytes resp =
     (case rs_body resp of
        BText s \<Rightarrow> s
      | BJson j \<Rightarrow> (case Encode j of Some t \<Rightarrow> t | None \<Rightarrow> []))"

lemma nested_mono: "nested m j \<Longrightarrow> m \<le> n \<Longrightarrow> nested n j"
proof (induction m j arbitrary: n rule: nested.induct)
  case (1 m js)
  then show ?case by (cases n) (auto simp: list_all_iff)
next
  case (2 m kvs)
  have "nested (n - 1) j" if "(k, j) \<in> set kvs" for k j
    using 2(1) [OF that, of k j "n - 1"] 2(2,3) that by (auto simp: list_all_iff)
  then show ?case using 2(2,3) by (auto simp: list_all_iff)
qed simp_all

lemma json_bytes:
  assumes "nested 3 j" and "rs_body resp = BJson j"
  shows "if times_ok j then response_bytes resp = json_text j @ [newline] \<and> parse_json (response_bytes resp) = Some (val_of j)
    else response_bytes resp = []"
  using assms(2) parse_json_text(1) [OF nested_mono [OF assms(1)]] by (simp add: response_bytes_def Encode_def)

lemma okJson_parses: "nested 3 j \<Longrightarrow> times_ok j \<Longrightarrow> parse_json (response_bytes (okJson j)) = Some (val_of j)"
  using json_bytes [of j "okJson j"] by auto

text \<open>Responses that are JSON with the content type that says so, and whose instants can be written.\<close>

definition json_response :: "response \<Rightarrow> bool" where
  "json_response resp \<longleftrightarrow>
     rs_headers resp = json_header \<and> (\<exists>j. rs_body resp = BJson j \<and> nested 3 j \<and> times_ok j)"

lemma json_response_error [simp]: "json_response (writeError st msg)"
  by (simp add: json_response_def writeError_def)

lemma json_response_ok: "nested 3 j \<Longrightarrow> times_ok j \<Longrightarrow> json_response (okJson j)"
  by (simp add: json_response_def okJson_def)

lemma submit_json: "json_response (fst (attempts_submit ops uni now1 now2 body ctx s))"
  by (auto simp: attempts_submit_def Let_def submit_response_json_def intro!: json_response_ok
      split: option.split sum.split prod.split)

lemma byDate_json:
  "json_response (fst (puzzles_byDate ops d ctx s))" "json_response (fst (puzzles_meByDate ops d ctx s))"
  by (auto simp: puzzles_byDate_def puzzles_meByDate_def public_puzzle_json_def puzzle_json_def omit_empty_def
      intro!: json_response_ok split: sum.split prod.split)

lemma board_json: "json_response (fst (board_page ops sc d key q s))"
  by (auto simp: board_page_def board_response_json_def rank_json_def list_all_iff intro!: json_response_ok
      split: sum.split prod.split)

lemma mine_json:
  "rs_headers (fst (attempts_mine ops d ctx s)) = json_header
     \<and> (\<exists>j. rs_body (fst (attempts_mine ops d ctx s)) = BJson j \<and> nested 3 j)"
  by (auto simp: attempts_mine_def attempt_json_def list_all_iff writeError_def okJson_def
      split: option.split sum.split prod.split)

text \<open>
  A response that a client can read: one line of JSON, or nothing when an instant has no text,
  which \<open>may_fail\<close> tells to be possible.
\<close>

definition readable :: "bool \<Rightarrow> response \<Rightarrow> bool" where
  "readable may_fail resp \<longleftrightarrow> rs_headers resp = json_header
      \<and> (\<exists>j. rs_body resp = BJson j \<and> nested 3 j
           \<and> (if times_ok j
              then response_bytes resp = json_text j @ [newline] \<and> newline \<notin> set (json_text j)
                \<and> parse_json (response_bytes resp) = Some (val_of j)
              else response_bytes resp = [] \<and> rs_status resp = 200 \<and> may_fail))"

lemma json_readable:
  assumes "json_response resp"
  shows "readable may_fail resp"
proof -
  obtain j where j: "rs_headers resp = json_header" "rs_body resp = BJson j" "nested 3 j" "times_ok j"
    using assms unfolding json_response_def by blast
  with json_bytes [OF j(3,2)] text_one_line show ?thesis by (auto simp: readable_def)
qed

lemma mine_readable: "readable True (fst (attempts_mine ops d ctx s))"
proof -
  obtain j where j: "rs_headers (fst (attempts_mine ops d ctx s)) = json_header"
    "rs_body (fst (attempts_mine ops d ctx s)) = BJson j" "nested 3 j"
    using mine_json [of ops d ctx s] by blast
  have "rs_status (fst (attempts_mine ops d ctx s)) = 200" if "\<not> times_ok j"
    using that j(2) by (auto simp: attempts_mine_def writeError_def split: option.splits sum.splits prod.splits if_splits)
  then show ?thesis using j json_bytes [OF j(3,2)] text_one_line by (auto simp: readable_def)
qed

lemma handler_readable: "readable (\<exists>date. r = RMine date) (fst (api_handler ops uni ck r ctx s))"
proof (cases "\<exists>date. r = RMine date")
  case True
  then show ?thesis using mine_readable by (auto simp: api_handler_def)
next
  case False
  then have "json_response (fst (api_handler ops uni ck r ctx s))"
    by (cases r) (simp_all add: api_handler_def submit_json puzzles_today_def puzzles_get_def puzzles_meToday_def
        puzzles_meGet_def leaderboards_get_def byDate_json board_json Let_def)
  then show ?thesis by (rule json_readable)
qed

text \<open>C36: What the API answers can be read: the body of every response is either the word "unauthorized", with
  status 401 and only when a verifier is configured, or it is sent as application/json and consists of
  one valid JSON value, nested at most three deep and on one line, whose reading gives the value that
  the handler encoded. The one exception is the answer with an attempt whose time of
  completion has a year outside 0 to 9999: its body is empty, with status 200.\<close>

theorem api_bodies:
  "let resp = fst (api_serve ops uni v up ck hdr r s) in
     rs_body resp = BText ''unauthorized'' \<and> rs_status resp = 401 \<and> v \<noteq> None
   \<or> rs_headers resp = json_header
      \<and> (\<exists>j. rs_body resp = BJson j \<and> nested 3 j
           \<and> (if times_ok j
              then response_bytes resp = json_text j @ [newline] \<and> newline \<notin> set (json_text j)
                \<and> parse_json (response_bytes resp) = Some (val_of j)
              else response_bytes resp = [] \<and> rs_status resp = 200 \<and> (\<exists>date. r = RMine date)))"
  unfolding Let_def readable_def [of "\<exists>date. r = RMine date", symmetric]
proof (cases "is_protected r")
  case False
  then show "rs_body (fst (api_serve ops uni v up ck hdr r s)) = BText ''unauthorized''
      \<and> rs_status (fst (api_serve ops uni v up ck hdr r s)) = 401 \<and> v \<noteq> None
    \<or> readable (\<exists>date. r = RMine date) (fst (api_serve ops uni v up ck hdr r s))"
    unfolding api_serve_eq by (simp add: handler_readable)
next
  case True
  then show "rs_body (fst (api_serve ops uni v up ck hdr r s)) = BText ''unauthorized''
      \<and> rs_status (fst (api_serve ops uni v up ck hdr r s)) = 401 \<and> v \<noteq> None
    \<or> readable (\<exists>date. r = RMine date) (fst (api_serve ops uni v up ck hdr r s))"
    unfolding api_serve_eq
    by (cases rule: protect_cases [of v up "ck_auth ck" hdr "api_handler ops uni ck r" s])
      (simp_all add: unauthorized_def handler_readable)
qed

section \<open>From bytes to bytes\<close>

lemma ascii_to_valid: "list_all is_ascii (to_valid s) \<Longrightarrow> to_valid s = s"
proof (induction s rule: to_valid.induct)
  case (2 c s)
  have "\<not> list_all is_ascii rune_error" by code_simp
  moreover have "\<not> list_all is_ascii (rune (c # s))" if nz: "rune_len (c # s) \<noteq> 0"
  proof -
    obtain b r where "rune (c # s) = b # r" using nz by (cases "rune_len (c # s)") (auto simp: rune_def)
    then show ?thesis using rune_bytes [of b "c # s"] by (simp add: is_ascii_def)
  qed
  ultimately show ?case using 2 by (auto simp: to_valid.simps(2) split: if_splits)
qed simp

lemma validDate_ascii: "validDate s \<Longrightarrow> list_all is_ascii s"
proof -
  assume "validDate s"
  then obtain c where c: "parse_date s = Some c" by (auto simp: validDate_iff)
  have "list_all plain (format_civil c)"
  proof -
    have "plain (CHR ''-'')" by code_simp
    then show ?thesis using plain_append_int by (simp add: format_civil_def split: prod.split)
  qed
  then show ?thesis using format_parse_date [OF c] by (auto simp: list_all_iff plain_def)
qed

text \<open>C12: From bytes to bytes: when a client posts its guesses, encoded as JSON and followed by anything, and
  is answered 200, then its GET for that date is answered with a JSON text whose reading is
  the finalized attempt: the same date, the same guesses (made valid UTF-8), the user of the token, and the
  score and the win flag that the server derives from the stored puzzle.\<close>

theorem submit_bytes_roundtrip:
  assumes "mem_wf s" and "\<not> ms_closed s" and "time_ok now2"
    and "rs_status (fst (attempts_submit mem_iface uni now1 now2 (json_text (request_json d gs) @ t) (Some claims) s)) = 200"
  shows "\<exists>p. v_puzzles (mem_view s) d = Some p \<and>
     parse_json (response_bytes (fst (attempts_mine mem_iface d (Some claims)
        (snd (attempts_submit mem_iface uni now1 now2 (json_text (request_json d gs) @ t) (Some claims) s)))))
     = Some (val_of (attempt_json (finalize uni (new_attempt (c_uid claims) d (map to_valid gs) now2) (p_word p))))"
proof -
  let ?body = "json_text (request_json d gs) @ t"
  obtain req p where req: "decode_submit ?body = Some req" and p: "v_puzzles (mem_view s) (sr_date req) = Some p"
    and get: "fst (attempts_mine mem_iface (sr_date req) (Some claims)
            (snd (attempts_submit mem_iface uni now1 now2 ?body (Some claims) s)))
     = okJson (attempt_json (finalize uni (new_attempt (c_uid claims) (sr_date req) (sr_guesses req) now2) (p_word p)))"
    using submit_then_mine [OF assms(1,2,4)] by blast
  have r: "req = \<lparr>sr_date = to_valid d, sr_guesses = map to_valid gs\<rparr>"
    using req submit_body_decoded [of d gs t] by simp
  have "validDate (sr_date req)"
    using mem.submit_bad [of ?body now1 uni now2 claims s] req assms(4) by (fastforce simp: acceptable_def)
  then have "to_valid d = d" using ascii_to_valid validDate_ascii r by simp
  with r have req': "sr_date req = d" "sr_guesses req = map to_valid gs" by simp_all
  let ?j = "attempt_json (finalize uni (new_attempt (c_uid claims) d (map to_valid gs) now2) (p_word p))"
  have "nested 3 ?j" "times_ok ?j"
    using assms(3) by (simp_all add: attempt_json_def finalize_def new_attempt_def list_all_iff split: prod.split)
  then have "parse_json (response_bytes (okJson ?j)) = Some (val_of ?j)"
    by (rule okJson_parses)
  then show ?thesis using p get unfolding req' by metis
qed

lemma sample_time_ok: "time_ok sample_now"
  by code_simp

theorem submit_bytes_roundtrip_witness:
  "\<exists>v. parse_json (response_bytes (fst (attempts_mine mem_iface ''2025-11-29'' (Some (sample_claims ''u1''))
     (snd (attempts_submit mem_iface (\<lambda>s. s) sample_now sample_now (sample_body @ ''xyz'')
        (Some (sample_claims ''u1'')) sample_store))))) = Some v"
proof -
  have dec: "decode_submit (sample_body @ ''xyz'') = Some sample_request"
    using sample_decoded submit_body_decoded [of "''2025-11-29''" "[''legend'', ''League'']" "''xyz''"]
      submit_body_decoded [of "''2025-11-29''" "[''legend'', ''League'']" "[]"]
    by (simp add: sample_body_def)
  have "rs_status (fst (attempts_submit mem_iface (\<lambda>s. s) sample_now sample_now (sample_body @ ''xyz'')
      (Some (sample_claims ''u1'')) sample_store)) = 200"
    using mem.submit_outcome [OF sample_store dec sample_acceptable, of "\<lambda>s. s" sample_now "sample_claims ''u1''"]
      sample_puzzle_stored
    by (simp add: sample_request_def Let_def del: mem_view_simps)
  from submit_bytes_roundtrip [OF sample_store sample_time_ok this [unfolded sample_body_def]] show ?thesis
    unfolding sample_body_def by blast
qed

section \<open>Export as text\<close>

definition ErrMarshalTime :: go_error where
  "ErrMarshalTime = ErrText ''json: error calling MarshalJSON for type time.Time''"

definition text_encoder :: "json \<Rightarrow> string \<Rightarrow> unit res \<times> string" where
  "text_encoder j w = (case Encode j of Some t \<Rightarrow> (Inr (), w @ t) | None \<Rightarrow> (Inl ErrMarshalTime, w))"

lemma lines_text_simps [simp]:
  "lines_text [] = []" "lines_text (j # js) = json_text j @ newline # lines_text js"
  by (simp_all add: lines_text_def)

lemma lines_text_append: "lines_text (js @ js') = lines_text js @ lines_text js'"
  by (simp add: lines_text_def)

definition written :: "json list \<Rightarrow> string \<Rightarrow> unit res \<times> string" where
  "written rows w = (if list_all times_ok rows then Inr () else Inl ErrMarshalTime, w @ lines_text (takeWhile times_ok rows))"

lemma written_append:
  "list_all times_ok rows \<Longrightarrow> written (rows @ rows') w = written rows' (w @ lines_text rows)"
  "\<not> list_all times_ok rows \<Longrightarrow> written (rows @ rows') w = written rows w"
proof -
  show "list_all times_ok rows \<Longrightarrow> written (rows @ rows') w = written rows' (w @ lines_text rows)"
    by (auto simp: written_def lines_text_append list_all_iff takeWhile_append2)
  show "\<not> list_all times_ok rows \<Longrightarrow> written (rows @ rows') w = written rows w"
    by (auto simp: written_def list_all_iff takeWhile_append1)
qed

lemma written_result:
  "list_all times_ok rows \<Longrightarrow> written rows w = (Inr (), w @ lines_text rows)"
  "\<not> list_all times_ok rows \<Longrightarrow> \<exists>w'. written rows w = (Inl ErrMarshalTime, w')"
  by (simp_all add: written_def list_all_iff takeWhile_eq_all_conv [THEN iffD2])

lemma emit_all_written:
  "\<forall>k \<in> set ks. gm_get m k \<noteq> None \<Longrightarrow>
     emit_all text_encoder coll doc m ks w =
       written (map (\<lambda>k. JObj [(''collection'', JStr coll), (''doc'', doc (the (gm_get m k)))]) ks) w"
proof (induction ks arbitrary: w)
  case (Cons k ks)
  then obtain v where v: "gm_get m k = Some v" by auto
  show ?case
    using Cons by (cases "times_ok (doc v)") (simp_all add: v text_encoder_def Encode_def written_def)
qed (simp add: written_def)

lemma emit_all_text:
  "emit_all text_encoder coll doc m (sortedKeys m) w = written (export_rows coll doc m) w"
  unfolding export_rows_def by (rule emit_all_written [OF sortedKeys_present])

definition store_rows :: "mem_store \<Rightarrow> json list" where
  "store_rows s = export_rows ''users'' user_json (ms_users s) @ export_rows ''puzzles'' puzzle_json (ms_puzzles s)
     @ export_rows ''attempts'' attempt_json (ms_attempts s) @ export_rows ''matches'' match_json (ms_matches s)"

lemma mem_Export_written: "\<not> ms_closed s \<Longrightarrow> mem_Export text_encoder s [] = written (store_rows s) []"
proof -
  have step: "written (rows @ rows') w =
      (case written rows w of (Inl e, w') \<Rightarrow> (Inl e, w') | (Inr _, w') \<Rightarrow> written rows' w')" for rows rows' w
    using written_append [of rows rows' w] written_result [of rows w] by (cases "list_all times_ok rows") auto
  show "\<not> ms_closed s \<Longrightarrow> mem_Export text_encoder s [] = written (store_rows s) []"
    unfolding store_rows_def step mem_Export_def emit_all_text by simp
qed

lemma store_rows_nested: "list_all (nested 10000) (store_rows s)"
proof -
  have "nested 9999 (user_json u)" "nested 9999 (puzzle_json p)" "nested 9999 (attempt_json a)" "nested 9999 (match_json m)"
    for u p a m
    by (auto simp: user_json_def puzzle_json_def attempt_json_def match_json_def omit_empty_def list_all_iff)
  then show ?thesis by (auto simp: store_rows_def export_rows_def list_all_iff simp del: nested.simps(2))
      (auto simp: list_all_iff)
qed

text \<open>C32: An export can be read back: what Export of an open store writes is a sequence of lines, each of which is a valid JSON
  text, and reading line after line gives every stored document under the name of its
  collection, in the order users, puzzles, attempts, matches and by key within each. If some document has an
  instant whose year cannot be written, Export returns the error, and what it has written is exactly the lines
  before that document.\<close>

theorem mem_export_text:
  assumes "\<not> ms_closed s"
  shows "case mem_Export text_encoder s [] of (r, text) \<Rightarrow>
     map parse_json (text_lines text) = map (\<lambda>j. Some (val_of j)) (takeWhile times_ok (store_rows s))
   \<and> r = (if list_all times_ok (store_rows s) then Inr () else Inl ErrMarshalTime)"
proof -
  have "list_all (nested 10000) (takeWhile times_ok (store_rows s))"
    using store_rows_nested [of s] by (auto simp: list_all_iff dest: set_takeWhileD)
  then show ?thesis
    by (simp add: mem_Export_written [OF assms] written_def lines_values)
qed

theorem mem_export_text_witness:
  "map parse_json (text_lines (snd (mem_Export text_encoder sample_store [])))
   = [Some (VObj [(''collection'', VStr ''puzzles''),
        (''doc'', VObj [(''date'', VStr ''2025-11-29''), (''word'', VStr ''league''), (''difficulty'', VNum ''2'')])])]"
proof -
  have "store_rows sample_store = [JObj [(''collection'', JStr ''puzzles''),
      (''doc'', JObj [(''date'', JStr ''2025-11-29''), (''word'', JStr ''league''), (''difficulty'', JNum 2)])]]"
    by (simp add: store_rows_def sample_store_def mem_New_def mem_PutPuzzle_def export_rows_def sortedKeys_def puzzle_json_def
        sample_puzzle_def omit_empty_def)
  moreover have "to_valid ''collection'' = ''collection'' \<and> to_valid ''puzzles'' = ''puzzles'' \<and> to_valid ''doc'' = ''doc''
      \<and> to_valid ''2025-11-29'' = ''2025-11-29'' \<and> to_valid ''word'' = ''word'' \<and> to_valid ''league'' = ''league''
      \<and> to_valid ''difficulty'' = ''difficulty'' \<and> int_text 2 = ''2''"
    by code_simp
  ultimately show ?thesis
    using mem_export_text [OF sample_store(2)] by (simp add: split_beta)
qed

end
