(* ===== verification/Export_Agree.thy ===== *)
theory Export_Agree
  imports Mongo_Props Api_Text
begin

text \<open>
  The two stores export the same lines. \<open>Export\<close> is the seam for migrating between backends, and each store has its
  own: the in-memory one goes through its maps by key, MongoDB through its collections in whatever order the
  cursor has.
\<close>

definition export_row :: "string \<Rightarrow> json \<Rightarrow> json" where
  "export_row coll j = JObj [(''collection'', JStr coll), (''doc'', j)]"

text \<open>The values of a partial map, each once.\<close>

definition lists_values :: "('k \<Rightarrow> 'a option) \<Rightarrow> 'a list \<Rightarrow> bool" where
  "lists_values m xs \<longleftrightarrow> distinct xs \<and> set xs = {x. \<exists>k. m k = Some x}"

lemma lists_values_unique: "lists_values m xs \<Longrightarrow> lists_values m ys \<Longrightarrow> mset xs = mset ys"
  by (simp add: lists_values_def set_eq_iff_mset_eq_distinct [symmetric])

section \<open>The in-memory store\<close>

definition map_values :: "'v gomap \<Rightarrow> 'v list" where
  "map_values m = map (\<lambda>k. the (gm_get m k)) (sortedKeys m)"

lemma export_rows_values: "export_rows coll doc m = map (export_row coll) (map doc (map_values m))"
  by (simp add: export_rows_def map_values_def export_row_def)

lemma length_export_rows: "length (export_rows coll doc m) = length m"
  by (simp add: export_rows_def sortedKeys_def)

lemma map_values: "keyed key m \<Longrightarrow> lists_values (gm_get m) (map_values m)"
proof -
  assume k: "keyed key m"
  have get: "\<exists>x. gm_get m k = Some x" if "k \<in> set (sortedKeys m)" for k
    using sortedKeys_present [of m] that by auto
  have "map key (map_values m) = sortedKeys m"
    using get keyedD [OF k] by (force simp: map_values_def intro!: map_idI)
  then have "distinct (map key (map_values m))"
    using distinct_sortedKeys [OF keyed_wf [OF k]] by simp
  then have "distinct (map_values m)" by (simp add: distinct_map)
  moreover have "set (map_values m) = {x. \<exists>k. gm_get m k = Some x}"
  proof (rule set_eqI)
    fix x
    have "k \<in> set (sortedKeys m)" if "gm_get m k = Some x" for k
      using that by (auto simp: map_of_eq_None_iff dest: map_of_SomeD intro: rev_image_eqI)
    then show "x \<in> set (map_values m) \<longleftrightarrow> x \<in> {x. \<exists>k. gm_get m k = Some x}"
      using get by (force simp: map_values_def)
  qed
  ultimately show ?thesis by (simp add: lists_values_def)
qed

text \<open>The attempts as a client sees them, by user and date.\<close>

lemma attempt_values:
  assumes "mem_wf s" and "\<And>k a. gm_get (ms_attempts s) k = Some a \<Longrightarrow> length (a_date a) = 10"
  shows "lists_values (\<lambda>(u, d). v_attempts (mem_view s) u d) (map_values (ms_attempts s))"
proof -
  have k: "keyed (\<lambda>a. attemptKey (a_uid a) (a_date a)) (ms_attempts s)"
    using assms(1) by (simp add: mem_wf_def)
  have "v_attempts (mem_view s) (a_uid x) (a_date x) = Some x" if "gm_get (ms_attempts s) k = Some x" for k x
    using keyedD [OF k that] assms(2) [OF that] that by simp
  moreover have "\<exists>k. gm_get (ms_attempts s) k = Some x" if "v_attempts (mem_view s) u d = Some x" for u d x
    using that by (auto simp: mem_view_def split: if_splits)
  ultimately have "{x. \<exists>k. gm_get (ms_attempts s) k = Some x} = {x. \<exists>k. (\<lambda>(u, d). v_attempts (mem_view s) u d) k = Some x}"
    by (auto simp: split_def)
  with map_values [OF k] show ?thesis by (simp add: lists_values_def)
qed

section \<open>The MongoDB store\<close>

lemma project_nothing: "project [] = (\<lambda>d. d)"
  by (simp add: project_def fun_eq_iff)

text \<open>What a cursor over a whole collection delivers, decoded.\<close>

lemma found_values:
  assumes k: "kdocs key good ds" and found: "mset found = mset ds"
    and dec: "\<And>d. good d \<Longrightarrow> \<exists>x. dec d = Inr x \<and> key d = enc (k x)"
    and inj: "\<And>i j. enc i = enc j \<Longrightarrow> i = j"
  shows "\<exists>xs. map dec found = map Inr xs \<and> lists_values (\<lambda>i. Option.bind (look key ds (enc i)) (decoded dec)) xs"
proof -
  have same: "set found = set ds" using mset_eq_setD [OF found] .
  have all: "\<exists>x. dec d = Inr x \<and> key d = enc (k x)" if "d \<in> set found" for d
    using k dec that same by (auto simp: kdocs_def)
  let ?xs = "map (\<lambda>d. projr (dec d)) found"
  have map: "map dec found = map Inr ?xs"
    using all by (simp add: list_eq_iff_nth_eq) (metis nth_mem sum.sel(2))
  have "map key found = map (\<lambda>x. enc (k x)) ?xs"
    using all by (simp add: list_eq_iff_nth_eq) (metis nth_mem sum.sel(2))
  moreover have "distinct (map key found)"
    using k mset_eq_imp_distinct_iff [of "map key found" "map key ds"] found by (simp add: kdocs_def)
  ultimately have "distinct ?xs" by (metis distinct_map)
  moreover have "set ?xs = {x. \<exists>i. Option.bind (look key ds (enc i)) (decoded dec) = Some x}"
  proof (rule set_eqI, rule iffI)
    fix x assume "x \<in> set ?xs"
    then obtain d where d: "d \<in> set found" "x = projr (dec d)" by auto
    then obtain y where "dec d = Inr y" "key d = enc (k y)" using all by blast
    then have "look key ds (enc (k y)) = Some d" "decoded dec d = Some x"
      using d same look_Some [OF k] by (auto simp: decoded_def)
    then show "x \<in> {x. \<exists>i. Option.bind (look key ds (enc i)) (decoded dec) = Some x}"
      by (auto intro!: exI [of _ "k y"])
  next
    fix x assume "x \<in> {x. \<exists>i. Option.bind (look key ds (enc i)) (decoded dec) = Some x}"
    then obtain i d where d: "look key ds (enc i) = Some d" "decoded dec d = Some x"
      by (auto simp: bind_eq_Some_conv)
    then have "d \<in> set found" "projr (dec d) = x"
      using same look_Some [OF k] by (auto simp: decoded_def split: sum.splits)
    then show "x \<in> set ?xs" by auto
  qed
  ultimately show ?thesis using map by (auto simp: lists_values_def simp del: map_map)
qed

lemma text_encoder_eq:
  "text_encoder j w =
     (if times_ok j then (Inr (), w @ json_text j @ [newline]) else (Inl ErrMarshalTime, w))"
  by (simp add: text_encoder_def Encode_def)

lemma export_docs_text:
  assumes "export_docs text_encoder (\<lambda>d. map_sum id js (dec d)) coll ds err w = (Inr (), w')"
  shows "err = None
    \<and> (map dec ds = map Inr xs \<longrightarrow> list_all times_ok (map (export_row coll) (map js xs))
         \<and> w' = w @ lines_text (map (export_row coll) (map js xs)))"
  using assms
proof (induction ds arbitrary: xs w)
  case Nil
  then show ?case by (simp split: option.splits)
next
  case (Cons d ds)
  obtain x where x: "dec d = Inr x" using Cons.prems by (cases "dec d") auto
  with Cons.prems have ok: "times_ok (export_row coll (js x))"
    and rest: "export_docs text_encoder (\<lambda>d. map_sum id js (dec d)) coll ds err
      (w @ json_text (export_row coll (js x)) @ [newline]) = (Inr (), w')"
    using text_encoder_eq [of "export_row coll (js x)" w] by (auto simp: export_row_def id_def split: if_splits)
  show ?case using Cons.IH [OF rest] x ok by (cases xs) auto
qed

text \<open>The rows of the four collections, in the order of a store's export.\<close>

definition rows_of :: "user list \<Rightarrow> puzzle list \<Rightarrow> attempt list \<Rightarrow> game_match list \<Rightarrow> json list" where
  "rows_of us ps as ms =
     map (export_row ''users'') (map user_json us) @ map (export_row ''puzzles'') (map puzzle_json ps)
     @ map (export_row ''attempts'') (map attempt_json as) @ map (export_row ''matches'') (map match_json ms)"

definition lists_store :: "store_view \<Rightarrow> user list \<Rightarrow> puzzle list \<Rightarrow> attempt list \<Rightarrow> game_match list \<Rightarrow> bool" where
  "lists_store v us ps as ms \<longleftrightarrow>
     lists_values (v_users v) us \<and> lists_values (v_puzzles v) ps
     \<and> lists_values (\<lambda>(u, d). v_attempts v u d) as \<and> lists_values (v_matches v) ms"

context mongo_driver
begin

lemma export_step:
  assumes ex: "export_all dr text_encoder ((coll, \<lambda>d. map_sum id js (dec d)) # pairs) c w = ((Inr (), w'), c')"
    and coll: "coll \<notin> ttl_collections"
    and dec: "\<And>found. mset found = mset (docs (mc_db c) coll) \<Longrightarrow> \<exists>xs. map dec found = map Inr xs \<and> P xs"
  shows "\<exists>xs s. P xs \<and> list_all times_ok (map (export_row coll) (map js xs)) \<and> agree (docs (mc_db c)) (docs s)
    \<and> export_all dr text_encoder pairs (c\<lparr>mc_db := s\<rparr>) (w @ lines_text (map (export_row coll) (map js xs)))
        = ((Inr (), w'), c')"
proof -
  let ?opts = "\<lparr>fo_sort = [], fo_limit = 0, fo_projection = []\<rparr>"
  obtain r s where find: "dr_Find dr coll [] ?opts (mc_db c) = (r, s)" by fastforce
  obtain ds err close_err w1 where r: "r = Inr (ds, err, close_err)"
    and w1: "export_docs text_encoder (\<lambda>d. map_sum id js (dec d)) coll ds err w = (Inr (), w1)"
    and rest: "export_all dr text_encoder pairs (c\<lparr>mc_db := s\<rparr>) w1 = ((Inr (), w'), c')"
    using ex find by (auto simp: on_db_def split: sum.splits prod.splits option.splits)
  have err: "err = None" using export_docs_text [OF w1] by blast
  have "find_result (marsh_doc []) ?opts (docs (mc_db c) coll) ds"
    using find_law [OF find] coll r err by (simp add: settles_def)
  then have "mset ds = mset (docs (mc_db c) coll)"
    by (auto simp: find_result_def matches_def project_nothing)
  from dec [OF this] obtain xs where xs: "map dec ds = map Inr xs" "P xs" by blast
  have "quiet docs (mc_db c) s" using find_law [OF find] by simp
  from agree_quiet [OF this] export_docs_text [OF w1, of xs] xs rest show ?thesis by blast
qed

lemma found_view:
  assumes "wf c"
  shows "mset found = mset (docs (mc_db c) collUsers)
      \<Longrightarrow> \<exists>xs. map (of_user bc) found = map Inr xs \<and> lists_values (v_users (view c)) xs"
    and "mset found = mset (docs (mc_db c) collPuzzles)
      \<Longrightarrow> \<exists>xs. map (of_puzzle bc) found = map Inr xs \<and> lists_values (v_puzzles (view c)) xs"
    and "mset found = mset (docs (mc_db c) collAttempts)
      \<Longrightarrow> \<exists>xs. map (of_attempt bc) found = map Inr xs \<and> lists_values (\<lambda>(u, d). v_attempts (view c) u d) xs"
    and "mset found = mset (docs (mc_db c) collMatches)
      \<Longrightarrow> \<exists>xs. map (of_match bc) found = map Inr xs \<and> lists_values (v_matches (view c)) xs"
proof -
  note k = assms [unfolded mongo_wf_def docs_wf_def]
  show "mset found = mset (docs (mc_db c) collUsers)
      \<Longrightarrow> \<exists>xs. map (of_user bc) found = map Inr xs \<and> lists_values (v_users (view c)) xs"
    using found_values [of uid_key "\<lambda>d. \<exists>u. user_doc d u" "docs (mc_db c) collUsers" found "of_user bc"
        "\<lambda>x. Some (BStr x)" u_uid] k user_dec
    by (fastforce simp: mongo_view_def docs_view_def uid_key_def user_doc_def has_str_def)
  show "mset found = mset (docs (mc_db c) collPuzzles)
      \<Longrightarrow> \<exists>xs. map (of_puzzle bc) found = map Inr xs \<and> lists_values (v_puzzles (view c)) xs"
    using found_values [of id_key "\<lambda>d. \<exists>p. puzzle_doc d p" "docs (mc_db c) collPuzzles" found "of_puzzle bc"
        "\<lambda>x. Some (BStr x)" p_date] k puzzle_dec
    by (fastforce simp: mongo_view_def docs_view_def id_key_def puzzle_doc_def has_str_def)
  show "mset found = mset (docs (mc_db c) collAttempts)
      \<Longrightarrow> \<exists>xs. map (of_attempt bc) found = map Inr xs \<and> lists_values (\<lambda>(u, d). v_attempts (view c) u d) xs"
    using found_values [of attempt_key "\<lambda>d. \<exists>a. attempt_doc d a" "docs (mc_db c) collAttempts" found "of_attempt bc"
        "\<lambda>(x, y). (Some (BStr x), Some (BStr y))" "\<lambda>a. (a_uid a, a_date a)"] k attempt_dec
    by (fastforce simp: mongo_view_def docs_view_def attempt_key_def attempt_doc_def has_str_def split_def)
  show "mset found = mset (docs (mc_db c) collMatches)
      \<Longrightarrow> \<exists>xs. map (of_match bc) found = map Inr xs \<and> lists_values (v_matches (view c)) xs"
    using found_values [of id_key "\<lambda>d. \<exists>m. match_doc d m" "docs (mc_db c) collMatches" found "of_match bc"
        "\<lambda>x. Some (BStr x)" m_id] k match_dec
    by (fastforce simp: mongo_view_def docs_view_def id_key_def match_doc_def has_str_def)
qed

lemma mongo_Export_rows:
  assumes wf: "wf c" and ex: "mongo_Export dr bc text_encoder c [] = ((Inr (), text), c')"
  shows "\<exists>us ps as ms. lists_store (view c) us ps as ms
    \<and> list_all times_ok (rows_of us ps as ms) \<and> text = lines_text (rows_of us ps as ms)"
proof -
  note same = found_view [OF wf]
  from ex have all: "export_all dr text_encoder
      [(collUsers, \<lambda>d. map_sum id user_json (of_user bc d)), (collPuzzles, \<lambda>d. map_sum id puzzle_json (of_puzzle bc d)),
       (collAttempts, \<lambda>d. map_sum id attempt_json (of_attempt bc d)), (collMatches, \<lambda>d. map_sum id match_json (of_match bc d))]
      c [] = ((Inr (), text), c')"
    by (simp add: mongo_Export_def split: if_splits)
  from export_step [OF all _ same(1)] obtain us s1 where
    us: "lists_values (v_users (view c)) us" "list_all times_ok (map (export_row collUsers) (map user_json us))"
    and a1: "agree (docs (mc_db c)) (docs s1)"
    and e1: "export_all dr text_encoder
      [(collPuzzles, \<lambda>d. map_sum id puzzle_json (of_puzzle bc d)),
       (collAttempts, \<lambda>d. map_sum id attempt_json (of_attempt bc d)), (collMatches, \<lambda>d. map_sum id match_json (of_match bc d))]
      (c\<lparr>mc_db := s1\<rparr>) (lines_text (map (export_row collUsers) (map user_json us))) = ((Inr (), text), c')"
    by auto
  from export_step [OF e1 _ same(2)] a1 obtain ps s2 where
    ps: "lists_values (v_puzzles (view c)) ps" "list_all times_ok (map (export_row collPuzzles) (map puzzle_json ps))"
    and a2: "agree (docs (mc_db c)) (docs s2)"
    and e2: "export_all dr text_encoder
      [(collAttempts, \<lambda>d. map_sum id attempt_json (of_attempt bc d)), (collMatches, \<lambda>d. map_sum id match_json (of_match bc d))]
      (c\<lparr>mc_db := s2\<rparr>) (lines_text (map (export_row collUsers) (map user_json us))
        @ lines_text (map (export_row collPuzzles) (map puzzle_json ps))) = ((Inr (), text), c')"
    by (auto simp: agree_def)
  from export_step [OF e2 _ same(3)] a2 obtain as s3 where
    as: "lists_values (\<lambda>(u, d). v_attempts (view c) u d) as"
      "list_all times_ok (map (export_row collAttempts) (map attempt_json as))"
    and a3: "agree (docs (mc_db c)) (docs s3)"
    and e3: "export_all dr text_encoder [(collMatches, \<lambda>d. map_sum id match_json (of_match bc d))]
      (c\<lparr>mc_db := s3\<rparr>) ((lines_text (map (export_row collUsers) (map user_json us))
        @ lines_text (map (export_row collPuzzles) (map puzzle_json ps)))
        @ lines_text (map (export_row collAttempts) (map attempt_json as))) = ((Inr (), text), c')"
    by (auto simp: agree_def)
  from export_step [OF e3 _ same(4)] a3 obtain ms s4 where
    ms: "lists_values (v_matches (view c)) ms" "list_all times_ok (map (export_row collMatches) (map match_json ms))"
    and e4: "export_all dr text_encoder [] s4 (((lines_text (map (export_row collUsers) (map user_json us))
        @ lines_text (map (export_row collPuzzles) (map puzzle_json ps)))
        @ lines_text (map (export_row collAttempts) (map attempt_json as)))
        @ lines_text (map (export_row collMatches) (map match_json ms))) = ((Inr (), text), c')"
    by (auto simp: agree_def)
  have "rows_of us ps as ms = map (export_row collUsers) (map user_json us) @ map (export_row collPuzzles) (map puzzle_json ps)
      @ map (export_row collAttempts) (map attempt_json as) @ map (export_row collMatches) (map match_json ms)"
    by (simp add: rows_of_def coll_defs)
  with us ps as ms e4 show ?thesis
    by (intro exI [of _ us] exI [of _ ps] exI [of _ as] exI [of _ ms])
      (simp add: lists_store_def lines_text_append)
qed

end

section \<open>The same lines\<close>

lemma mem_rows:
  assumes "mem_wf s" and "\<And>k a. gm_get (ms_attempts s) k = Some a \<Longrightarrow> length (a_date a) = 10"
  shows "\<exists>us ps as ms. lists_store (mem_view s) us ps as ms \<and> store_rows s = rows_of us ps as ms"
proof -
  have "keyed u_uid (ms_users s)" "keyed p_date (ms_puzzles s)" "keyed m_id (ms_matches s)"
    using assms(1) by (simp_all add: mem_wf_def)
  from this [THEN map_values] attempt_values [OF assms]
  have "lists_store (mem_view s) (map_values (ms_users s)) (map_values (ms_puzzles s))
      (map_values (ms_attempts s)) (map_values (ms_matches s))"
    by (simp add: lists_store_def)
  moreover have "store_rows s = rows_of (map_values (ms_users s)) (map_values (ms_puzzles s))
      (map_values (ms_attempts s)) (map_values (ms_matches s))"
    by (simp add: store_rows_def rows_of_def export_rows_values)
  ultimately show ?thesis by blast
qed

lemma rows_of_unique:
  assumes "lists_store v us ps as ms" and "lists_store v us' ps' as' ms'"
  shows "mset (rows_of us' ps' as' ms') = mset (rows_of us ps as ms)"
proof -
  have "mset us' = mset us" "mset ps' = mset ps" "mset as' = mset as" "mset ms' = mset ms"
    using assms by (auto simp: lists_store_def intro: lists_values_unique)
  then show ?thesis by (simp add: rows_of_def)
qed


text \<open>Two puzzles, stored in descending order of their dates.\<close>

definition two_puzzles :: "store_write list" where
  "two_puzzles = [WPuzzle (sample_puzzle\<lparr>p_date := ''2025-11-30''\<rparr>), WPuzzle sample_puzzle]"

definition ref_puzzles :: "mem_db mclient" where
  "ref_puzzles = snd (run_writes (mongo_ops ref_driver ref_codec) two_puzzles ref_new)"

definition mem_puzzles :: mem_store where
  "mem_puzzles = snd (run_writes mem_iface two_puzzles mem_New)"

lemma puzzles_mem:
  "mem_wf mem_puzzles" "\<not> ms_closed mem_puzzles" "ms_attempts mem_puzzles = []"
  "length (ms_users mem_puzzles) + length (ms_puzzles mem_puzzles) + length (ms_attempts mem_puzzles)
     + length (ms_matches mem_puzzles) = 2"
  "mem_view mem_puzzles = fold (write_view (\<lambda>t. t)) two_puzzles (mem_view mem_New)"
proof -
  have ran: "run_writes mem_iface two_puzzles mem_New = (True, mem_puzzles)"
    by (simp add: mem_puzzles_def two_puzzles_def mem_PutPuzzle_def mem_New_def)
  from store_laws.run_writes_view [OF mem.store_laws_axioms _ _ this]
  show "mem_wf mem_puzzles" "mem_view mem_puzzles = fold (write_view (\<lambda>t. t)) two_puzzles (mem_view mem_New)"
    by (simp_all add: two_puzzles_def)
qed (simp_all add: mem_puzzles_def two_puzzles_def mem_PutPuzzle_def mem_New_def sample_puzzle_def)

lemma puzzles_mongo:
  "mongo_wf (\<lambda>s. s) ref_puzzles" "mongo_view ref_codec (\<lambda>s. s) ref_puzzles = mem_view mem_puzzles"
  "\<exists>t. fst (mongo_Export ref_driver ref_codec text_encoder ref_puzzles []) = (Inr (), t)"
proof -
  have ran: "run_writes (mongo_ops ref_driver ref_codec) two_puzzles ref_new = (True, ref_puzzles)"
    by (simp add: ref_puzzles_def two_puzzles_def mongo_PutPuzzle_def replace_one_def ref_run split: prod.split)
  from store_laws.run_writes_view [OF ref.store_contract ref_new_wf _ this]
  show "mongo_wf (\<lambda>s. s) ref_puzzles" "mongo_view ref_codec (\<lambda>s. s) ref_puzzles = mem_view mem_puzzles"
    by (simp_all add: puzzles_mem(5) ref_new_view two_puzzles_def)
  show "\<exists>t. fst (mongo_Export ref_driver ref_codec text_encoder ref_puzzles []) = (Inr (), t)"
    by (simp add: ref_puzzles_def two_puzzles_def mongo_PutPuzzle_def mongo_Export_def replace_one_def ref_run coll_defs
        ref_find_def ref_codec_def sample_puzzle_def replacement_def project_def text_encoder_eq puzzle_json_def omit_empty_def)
qed


end
