(* ===== verification/Game_Registry.thy ===== *)
theory Game_Registry
  imports DL_Prelude
begin

text \<open>
  Package \<open>game\<close> (\<open>shared/game\<close>): the interface of a game, its result, and the registry of game
  factories. A value of the interface is its methods with its state; one state type \<open>'g\<close> stands for
  the states of all games. \<open>Register\<close> panics on a duplicate id (\<open>None\<close>), after which the program
  does not continue.
\<close>

record game_result =
  gr_won :: bool
  gr_attempts :: int64
  gr_duration_ms :: int64

type_synonym key = string

definition KeyEnter :: key where "KeyEnter = ''Enter''"
definition KeyBackspace :: key where "KeyBackspace = ''Backspace''"

record 'g game =
  ga_Init :: "int64 \<Rightarrow> 'g \<Rightarrow> unit res \<times> 'g"
  ga_HandleKey :: "key \<Rightarrow> 'g \<Rightarrow> bool \<times> 'g"
  ga_Tick :: "int64 \<Rightarrow> 'g \<Rightarrow> 'g"
  ga_State :: "'g \<Rightarrow> bytes"
  ga_IsTerminal :: "'g \<Rightarrow> bool"
  ga_Result :: "'g \<Rightarrow> game_result"

type_synonym 'g factory = "unit \<Rightarrow> 'g game \<times> 'g"

type_synonym 'g registry = "'g factory gomap"

definition Register :: "string \<Rightarrow> 'g factory \<Rightarrow> 'g registry \<Rightarrow> 'g registry option" where
  "Register gid f reg =
     (case gm_get reg gid of
        Some _ \<Rightarrow> None
      | None \<Rightarrow> Some (gm_put gid f reg))"

definition New :: "string \<Rightarrow> 'g registry \<Rightarrow> ('g game \<times> 'g) res" where
  "New gid reg =
     (case gm_get reg gid of
        None \<Rightarrow> Inl (ErrText ''game.New: unknown id %q'')
      | Some f \<Rightarrow> Inr (f ()))"

definition IDs :: "('g registry \<Rightarrow> 'g registry) \<Rightarrow> 'g registry \<Rightarrow> string list" where
  "IDs ord reg = map fst (ord reg)"

text \<open>A program that registers its games one after the other.\<close>

fun register_all :: "(string \<times> 'g factory) list \<Rightarrow> 'g registry \<Rightarrow> 'g registry option" where
  "register_all [] reg = Some reg"
| "register_all ((gid, f) # gs) reg =
     (case Register gid f reg of None \<Rightarrow> None | Some reg \<Rightarrow> register_all gs reg)"

lemma register_all_spec:
  "(register_all gs reg \<noteq> None \<longleftrightarrow> distinct (map fst gs) \<and> fst ` set gs \<inter> dom (gm_get reg) = {})
   \<and> (\<forall>reg'. register_all gs reg = Some reg' \<longrightarrow>
        (\<forall>gid. gm_get reg' gid = (case map_of gs gid of Some f \<Rightarrow> Some f | None \<Rightarrow> gm_get reg gid))
        \<and> (gm_wf reg \<longrightarrow> gm_wf reg'))"
proof (induction gs arbitrary: reg)
  case Nil
  then show ?case by simp
next
  case (Cons g gs)
  obtain gid f where g: "g = (gid, f)" by (cases g)
  show ?case
  proof (cases "gm_get reg gid")
    case None
    then have reg: "Register gid f reg = Some (gm_put gid f reg)" by (simp add: Register_def)
    have dom: "dom (gm_get (gm_put gid f reg)) = insert gid (dom (gm_get reg))"
      by (auto simp: dom_def)
    have "fst ` set (g # gs) \<inter> dom (gm_get reg) = {} \<and> distinct (map fst (g # gs)) \<longleftrightarrow>
        distinct (map fst gs) \<and> fst ` set gs \<inter> dom (gm_get (gm_put gid f reg)) = {}"
      using None unfolding dom by (auto simp: g)
    with Cons.IH [of "gm_put gid f reg"] show ?thesis
      by (auto simp: g reg gm_wf_put split: option.split if_splits)
  next
    case (Some f')
    then show ?thesis by (auto simp: g Register_def)
  qed
qed

text \<open>Registering games never replaces one: a sequence of registrations goes through without a
  panic exactly when no id is repeated, and then New builds each registered id with its own
  factory and rejects every other id, and IDs lists each registered id exactly once.\<close>

theorem registry_spec:
  assumes "range_order ord"
  shows "case register_all gs [] of
      None \<Rightarrow> \<not> distinct (map fst gs)
    | Some reg \<Rightarrow> distinct (map fst gs) \<and> distinct (IDs ord reg) \<and> set (IDs ord reg) = fst ` set gs
        \<and> (\<forall>gid. New gid reg =
             (case map_of gs gid of Some f \<Rightarrow> Inr (f ())
              | None \<Rightarrow> Inl (ErrText ''game.New: unknown id %q'')))"
proof (cases "register_all gs []")
  case None
  then show ?thesis using register_all_spec [of gs "[]"] by auto
next
  case (Some reg)
  have dist: "distinct (map fst gs)" and get: "\<forall>gid. gm_get reg gid = map_of gs gid" and wf: "gm_wf reg"
    using register_all_spec [of gs "[]"] Some by (simp_all split: option.splits)
  have m: "mset (IDs ord reg) = mset (map fst reg)"
    using range_order_mset [OF assms, of reg] by (simp add: IDs_def)
  have "distinct (IDs ord reg)"
    using wf mset_eq_imp_distinct_iff [OF m] by (simp add: gm_wf_def)
  moreover have "set (IDs ord reg) = fst ` set reg"
    using mset_eq_setD [OF m] by simp
  moreover have "fst ` set reg = fst ` set gs"
  proof -
    have "gm_get reg = map_of gs" using get by (intro ext) simp
    then show ?thesis by (metis dom_map_of_conv_image_fst)
  qed
  ultimately show ?thesis
    using Some dist get by (auto simp: New_def split: option.split)
qed

text \<open>A game that ends after as many keys as its seed says.\<close>

definition countdown :: "nat factory" where
  "countdown _ =
     (\<lparr>ga_Init = (\<lambda>seed n. (Inr (), unat seed)), ga_HandleKey = (\<lambda>k n. (0 < n, n - 1)), ga_Tick = (\<lambda>dt n. n),
       ga_State = (\<lambda>n. []), ga_IsTerminal = (\<lambda>n. n = 0),
       ga_Result = (\<lambda>n. \<lparr>gr_won = (n = 0), gr_attempts = 0, gr_duration_ms = 0\<rparr>)\<rparr>, 0)"

theorem registry_spec_witness:
  "register_all [(''wordle'', countdown), (''wordle'', countdown)] [] = None
   \<and> (\<exists>reg. register_all [(''wordle'', countdown)] [] = Some reg \<and> New ''wordle'' reg = Inr (countdown ()))"
proof
  show "register_all [(''wordle'', countdown), (''wordle'', countdown)] [] = None"
    using registry_spec [OF range_order_id, of "[(''wordle'', countdown), (''wordle'', countdown)]"]
    by (cases "register_all [(''wordle'', countdown), (''wordle'', countdown)] []") auto
  show "\<exists>reg. register_all [(''wordle'', countdown)] [] = Some reg \<and> New ''wordle'' reg = Inr (countdown ())"
    using registry_spec [OF range_order_id, of "[(''wordle'', countdown)]"]
    by (cases "register_all [(''wordle'', countdown)] []") auto
qed

end
