(* ===== verification/Thread_Bounds.thy ===== *)
theory Thread_Bounds
  imports Store_Threads
begin

text \<open>
  How many calls of the store a handler makes at most, whatever the store answers: five for a request, six for a
  MATCH_END. A pool of handlers therefore comes to rest, and it can rest only when every handler has answered.
\<close>

primrec at_most :: "('s, 'r) prog \<Rightarrow> nat \<Rightarrow> bool" where
  "at_most (Return r) = (\<lambda>n. True)"
| "at_most (Call f) = (\<lambda>n. 0 < n \<and> (\<forall>s. fst (map_prod at_most id (f s)) (n - 1)))"

lemma at_most_call: "0 < n \<Longrightarrow> (\<And>x. at_most (k x) (n - 1)) \<Longrightarrow> at_most (call op k) n"
  by (simp add: call_def split_def)

lemma at_most_map: "at_most (map_prog g p) n = at_most p n"
  by (induction p arbitrary: n) (auto simp: fsts.simps split_def)

section \<open>The handlers\<close>

lemma at_most_both: "1 < n \<Longrightarrow> at_most k (n - 2) \<Longrightarrow> at_most (both_prog ops d u sc k) n"
  unfolding both_prog_def by (intro at_most_call) (simp_all add: numeral_2_eq_2)

lemma at_most_submit: "4 \<le> n \<Longrightarrow> at_most (submit_prog ops uni now1 now2 body ctx) n"
  by (auto simp: submit_prog_def store_prog_def Let_def intro!: at_most_call at_most_both split: option.split sum.split)
     arith

lemma at_most_handler: "4 \<le> n \<Longrightarrow> at_most (handler_prog ops uni ck r ctx) n"
  by (cases r) (auto simp: handler_prog_def atomic_def at_most_submit intro!: at_most_call)

lemma at_most_serve: "5 \<le> n \<Longrightarrow> at_most (serve_prog ops uni v up ck hdr r) n"
  by (auto simp: serve_prog_def middleware_prog_def
      intro!: at_most_call at_most_handler split: sum.split option.split prod.split)

lemma at_most_end: "at_most (end_prog ops now i req) 6"
  by (auto simp: end_prog_def finish_prog_def Let_def simp del: roleOf_ne
      intro!: at_most_call at_most_both split: sum.split)

lemma at_most_job: "at_most (job_prog ops uni v up j) 6"
  by (cases j) (simp_all add: at_most_map at_most_serve at_most_end)

section \<open>Pools\<close>

lemma at_most_step:
  "pool_step c c' \<Longrightarrow> list_all2 at_most (fst c) ns \<Longrightarrow> \<exists>ns'. list_all2 at_most (fst c') ns' \<and> sum_list ns = Suc (sum_list ns')"
proof (induction rule: pool_step.cases)
  case (1 i ps f s p s')
  then have n: "at_most (Call f) (ns ! i)" "i < length ns" by (auto simp: list_all2_conv_all_nth dest: spec [of _ i])
  then have p: "at_most p (ns ! i - 1)" "0 < ns ! i"
    using 1(5) by (auto dest!: spec [of _ s])
  then have "sum_list ns = Suc (sum_list (ns[i := ns ! i - 1]))"
    using n(2) member_le_sum_list [of "ns ! i" ns] by (simp add: sum_list_update)
  moreover have "list_all2 at_most (fst c') (ns[i := ns ! i - 1])"
    using 1 p by (auto intro: list_all2_update_cong)
  ultimately show ?case by blast
qed

lemma at_most_steps:
  "(pool_step ^^ n) c c' \<Longrightarrow> list_all2 at_most (fst c) ns \<Longrightarrow> n \<le> sum_list ns"
proof (induction n arbitrary: c ns)
  case (Suc n)
  from relpowp_Suc_D2 [OF Suc.prems(1)] obtain c1 where c1: "pool_step c c1" "(pool_step ^^ n) c1 c'" by blast
  from at_most_step [OF c1(1) Suc.prems(2)] Suc.IH [OF c1(2)] show ?case by fastforce
qed simp

lemma pool_stuck: "(\<exists>c'. pool_step (ps, s) c') \<longleftrightarrow> (\<exists>p \<in> set ps. \<exists>f. p = Call f)" (is "?l \<longleftrightarrow> ?r")
proof
  assume ?l then show ?r by (auto elim!: pool_step.cases) (metis nth_mem)
next
  assume ?r
  then obtain i f where "i < length ps" "ps ! i = Call f" by (auto simp: in_set_conv_nth)
  moreover obtain p s' where "f s = (p, s')" by fastforce
  ultimately show ?l by (blast intro: pool_step.intros)
qed

end
