(* ===== verification/Concurrent_Props.thy ===== *)
theory Concurrent_Props
  imports Thread_Safety Thread_Bounds
begin

text \<open>
  The properties of handlers that run at the same time, their calls of the store interleaved in any way: on the in-memory
  store the outcome is that of a serial order, and on MongoDB the stored data stays sound at every moment. Every pool
  of handlers comes to an end.
\<close>

section \<open>Programs and handlers\<close>


section \<open>Schedules\<close>

text \<open>A run by the list of threads whose turn it is.\<close>

fun sched :: "nat list \<Rightarrow> ('s, 'r) prog list \<times> 's \<Rightarrow> ('s, 'r) prog list \<times> 's" where
  "sched [] c = c"
| "sched (i # is) (ps, s) =
     (if i < length ps
      then (case ps ! i of
              Return _ \<Rightarrow> sched is (ps, s)
            | Call f \<Rightarrow> (case f s of (p, s') \<Rightarrow> sched is (ps[i := p], s')))
      else sched is (ps, s))"

lemma pool_trans: "pool_run c' c'' \<Longrightarrow> pool_run c c' \<Longrightarrow> pool_run c c''"
  by (induction rule: pool_run.induct) (auto intro: Pool_next)

lemma sched_run: "pool_run c (sched is c)"
proof (induction "is" c rule: sched.induct)
  case (2 i "is" ps s)
  show ?case
  proof (cases "\<exists>f. i < length ps \<and> ps ! i = Call f")
    case True
    then obtain f where f: "i < length ps" "ps ! i = Call f" by blast
    obtain p s' where p: "f s = (p, s')" by fastforce
    have "pool_run (ps, s) (ps[i := p], s')" using f p by (blast intro: Pool_next Pool_init pool_step.intros)
    then show ?thesis using 2(2) [OF f(1) f(2) p [symmetric]] f p by (auto intro: pool_trans)
  next
    case False
    then show ?thesis using 2 by (cases "ps ! i") (auto)
  qed
qed (simp add: Pool_init)

fun finished :: "('s, 'r) prog list \<Rightarrow> bool" where
  "finished [] = True"
| "finished (Return r # ps) = finished ps"
| "finished (Call f # ps) = False"

lemma finished_iff: "finished ps \<longleftrightarrow> (\<forall>p \<in> set ps. \<exists>r. p = Return r)"
  by (induction ps rule: finished.induct) auto

text \<open>Two submissions of one user, interleaved so that the better one is stored first and scored last.\<close>

definition accept_all :: verifier where
  "accept_all tok = (sample_claims tok, None)"

definition submit_job :: "string list \<Rightarrow> job" where
  "submit_job gs =
     Request \<lparr>ck_auth = 1, ck_1 = sample_now, ck_2 = sample_now\<rparr> ''Bearer u1''
       (RSubmit (json_text (request_json ''2025-11-29'' gs)))"

definition two_submits :: "job list" where
  "two_submits = [submit_job [''league''], submit_job [''legend'', ''League'']]"

definition after_two :: "(mem_store, reply) prog list \<times> mem_store" where
  "after_two = sched [0, 1, 0, 1, 0, 1, 1, 1, 0, 0]
     (map (job_prog mem_iface (\<lambda>s. s) (Some accept_all) mem_upserter) two_submits, sample_store)"

lemma after_two_finished: "finished (fst after_two)"
  by code_simp

lemma after_two_run:
  "pool_run (map (job_prog mem_iface (\<lambda>s. s) (Some accept_all) mem_upserter) two_submits, sample_store)
     (fst after_two, snd after_two)"
  unfolding after_two_def prod.collapse by (rule sched_run)

section \<open>Termination\<close>

text \<open>C7: Handlers always answer, however they are interleaved: on any store and with any upserter, requests and
  MATCH_ENDs started together make at most six calls of the store each, so there is no infinite run, and as long as one of
  them has not answered some handler can go on.\<close>

theorem handlers_end:
  assumes "(pool_step ^^ n) (map (job_prog ops uni v up) jobs, s) (ps, s')"
  shows "n \<le> 6 * length jobs \<and> ((\<exists>c. pool_step (ps, s') c) \<longleftrightarrow> \<not> finished ps)"
proof -
  have "list_all2 at_most (map (job_prog ops uni v up) jobs) (replicate (length jobs) 6)"
    by (simp add: list_all2_conv_all_nth at_most_job)
  then have "n \<le> 6 * length jobs"
    using at_most_steps [OF assms] by (fastforce simp: sum_list_replicate)
  moreover have "(\<exists>p \<in> set ps. \<exists>f. p = Call f) \<longleftrightarrow> \<not> finished ps"
    unfolding finished_iff by (metis prog.exhaust prog.distinct(1))
  ultimately show ?thesis unfolding pool_stuck by blast
qed

lemma pool_run_steps: "pool_run c c' \<Longrightarrow> \<exists>n. (pool_step ^^ n) c c'"
  by (induction rule: pool_run.induct) (auto intro: relpowp_0_I relpowp_Suc_I)

theorem handlers_end_witness:
  "\<exists>n \<le> 12. (pool_step ^^ n) (map (job_prog mem_iface (\<lambda>s. s) (Some accept_all) mem_upserter) two_submits, sample_store) after_two
     \<and> (\<nexists>c. pool_step after_two c)"
proof -
  obtain n where n: "(pool_step ^^ n) (map (job_prog mem_iface (\<lambda>s. s) (Some accept_all) mem_upserter) two_submits,
      sample_store) (fst after_two, snd after_two)"
    using pool_run_steps [OF after_two_run] by blast
  have "length two_submits = 2" by (simp add: two_submits_def)
  with handlers_end [OF n] n after_two_finished show ?thesis by auto
qed

section \<open>A serial order\<close>

text \<open>C5: Concurrent handlers are serializable: take any requests and MATCH_ENDs, started together on an open in-memory
  store or one after another, with their calls of the store interleaved in any way. When all have answered, the puzzles, attempts, matches and
  leaderboards are exactly what handling the same jobs one at a time, in some order, would have left; and every
  submission and every MATCH_END got the answer that it would have got alone.\<close>

theorem concurrent_is_serial:
  assumes "mem_wf s" and "\<not> ms_closed s"
    and "pool_run (map (job_prog mem_iface uni v mem_upserter) jobs, s) (ps, s')" and "finished ps"
  shows "(\<exists>jobs'. mset jobs' = mset jobs \<and>
      (let w = mem_view (serial_run mem_iface uni v mem_upserter jobs' s) in
         v_puzzles (mem_view s') = v_puzzles w \<and> v_attempts (mem_view s') = v_attempts w \<and>
         v_matches (mem_view s') = v_matches w \<and> v_boards (mem_view s') = v_boards w))
    \<and> (\<forall>i < length jobs. is_writer (jobs ! i) \<longrightarrow>
         ps ! i = Return (fst (run_prog (job_prog mem_iface uni v mem_upserter (jobs ! i)) s)))"
proof -
  have keyed: "keyed_matches (mem_view s)"
    using assms(1) by (auto simp: keyed_matches_def mem_wf_def keyed_def)
  have up: "mem_upserter = Some (st_UpsertUserOnFirstAuth mem_iface)" by (simp add: mem_ops_def)
  note answered = assms(4) [unfolded finished_iff]
  note serial = mem.pool_serial [OF assms(1,2) keyed assms(3) [unfolded up] answered, folded up]
  obtain jobs' where "mset jobs' = mset jobs"
    "no_users (mem_view s') = no_users (mem_view (serial_run mem_iface uni v mem_upserter jobs' s))"
    using serial(1) by blast
  then show ?thesis
    unfolding no_users_eq Let_def using serial(2) by blast
qed

theorem concurrent_is_serial_witness:
  "\<exists>jobs'. mset jobs' = mset two_submits \<and>
     v_attempts (mem_view (snd after_two)) =
       v_attempts (mem_view (serial_run mem_iface (\<lambda>s. s) (Some accept_all) mem_upserter jobs' sample_store))"
  using concurrent_is_serial [OF sample_store after_two_run after_two_finished] unfolding Let_def by blast

section \<open>Integrity\<close>

lemma view_sound_no_users: "no_users v = no_users v' \<Longrightarrow> view_sound uni v = view_sound uni v'"
  by (simp add: no_users_eq view_sound_def attempt_sound_def)

lemma boards_cover_no_users: "no_users v = no_users v' \<Longrightarrow> boards_cover v = boards_cover v'"
  by (simp add: no_users_eq boards_cover_def)

lemma serial_requests:
  "serial_run ops uni v up (map (\<lambda>(ck, hdr, r). Request ck hdr r) reqs) s = api_run ops uni v up reqs s"
  by (induction reqs arbitrary: s) (auto simp: serial_run_def api_run_def run_serve)

text \<open>C6: A client cannot inflate a score by racing either: take an in-memory store seeded with puzzles and any API
  requests, with their calls of the store interleaved in any way. When all have answered, every stored attempt
  has exactly the score and win flag of its guesses against the stored puzzle, every board entry is between 25 and 100
  points, a stored win is on its daily board with at least its score, and a daily entry never exceeds the user's all-time entry.\<close>

theorem concurrent_integrity:
  assumes "pool_run (map (\<lambda>(ck, hdr, r). job_prog mem_iface uni v mem_upserter (Request ck hdr r)) reqs,
      mem_run (map CPutPuzzle puzzles) mem_New) (ps, s')" and "finished ps"
  shows "view_sound uni (mem_view s') \<and> boards_cover (mem_view s')"
proof -
  let ?s = "mem_run (map CPutPuzzle puzzles) mem_New"
  let ?job = "\<lambda>(ck, hdr, r). Request ck hdr r"
  have s: "mem_wf ?s" "\<not> ms_closed ?s" "view_sound uni (mem_view ?s)" "boards_cover (mem_view ?s)"
    by (rule seeded_store [OF refl])+
  have keyed: "keyed_matches (mem_view ?s)"
    using s(1) by (auto simp: keyed_matches_def mem_wf_def keyed_def)
  have up: "mem_upserter = Some (st_UpsertUserOnFirstAuth mem_iface)" by (simp add: mem_ops_def)
  have "map (\<lambda>(ck, hdr, r). job_prog mem_iface uni v mem_upserter (Request ck hdr r)) reqs
      = map (job_prog mem_iface uni v mem_upserter) (map ?job reqs)"
    by (simp add: comp_def split_def)
  note run = assms(1) [unfolded this, unfolded up]
  from mem.pool_serial(1) [OF s(1,2) keyed run assms(2) [unfolded finished_iff], folded up]
  obtain jobs' where jobs': "mset jobs' = mset (map ?job reqs)"
    "no_users (mem_view s') = no_users (mem_view (serial_run mem_iface uni v mem_upserter jobs' ?s))" by blast
  have "\<exists>reqs'. jobs' = map ?job reqs'"
  proof -
    have "set jobs' = ?job ` set reqs" using mset_eq_setD [OF jobs'(1)] by simp
    then have "set jobs' \<subseteq> range ?job" by blast
    then show ?thesis by (metis ex_map_conv rangeE subsetD)
  qed
  then obtain reqs' where "jobs' = map ?job reqs'" by blast
  with mem_api_run_keeps [OF s, where reqs = reqs' and v = v] show ?thesis
    using view_sound_no_users [OF jobs'(2), of uni] boards_cover_no_users [OF jobs'(2)]
    by (simp add: serial_requests)
qed

theorem concurrent_integrity_witness:
  "view_sound (\<lambda>s. s) (mem_view (snd after_two)) \<and> boards_cover (mem_view (snd after_two))"
proof (rule concurrent_integrity [OF _ after_two_finished])
  let ?ck = "\<lparr>ck_auth = 1, ck_1 = sample_now, ck_2 = sample_now\<rparr>"
  let ?reqs = "map (\<lambda>gs. (?ck, ''Bearer u1'', RSubmit (json_text (request_json ''2025-11-29'' gs))))
    [[''league''], [''legend'', ''League'']]"
  show "pool_run (map (\<lambda>(ck, hdr, r). job_prog mem_iface (\<lambda>s. s) (Some accept_all) mem_upserter (Request ck hdr r)) ?reqs,
      mem_run (map CPutPuzzle [sample_puzzle]) mem_New) (fst after_two, snd after_two)"
    using after_two_run by (simp add: two_submits_def submit_job_def sample_store_def)
qed

section \<open>Every moment, on MongoDB\<close>

text \<open>On MongoDB the stored data stays sound at every moment: start any requests and MATCH_ENDs on a well-formed
  database with honest attempts, with a driver that behaves as documented and may fail any call, and stop anywhere
  between two commands. Every stored attempt has exactly the score and win flag of its guesses against the stored
  puzzle, no puzzle has changed, and the matches are the ones that were there, each with the players it had.\<close>

theorem mongo_concurrent_safe:
  assumes "mongo_driver dr bc docs" and "mongo_wf docs c" and "attempts_sound uni (mongo_view bc docs c)"
    and "pool_run (map (job_prog (mongo_ops dr bc) uni v (Some (mongo_UpsertUserOnFirstAuth dr bc))) jobs, c) (ps, c')"
  shows "mongo_wf docs c' \<and> attempts_sound uni (mongo_view bc docs c')
    \<and> v_puzzles (mongo_view bc docs c') = v_puzzles (mongo_view bc docs c)
    \<and> map_option m_players (v_matches (mongo_view bc docs c') i) = map_option m_players (v_matches (mongo_view bc docs c) i)"
proof -
  have "store_inv (mongo_view bc docs) (mongo_wf docs) uni c"
    using assms(2,3) mongo_driver.matches_keyed [OF assms(1,2)] by (simp add: store_inv_def)
  moreover have "own_upserter (mongo_ops dr bc) (Some (mongo_UpsertUserOnFirstAuth dr bc))"
    by (simp add: own_upserter_def)
  ultimately show ?thesis
    using store_laws.pool_honest [OF mongo_driver.store_contract [OF assms(1)] _ _ assms(4)]
    by (auto simp: store_inv_def steady_def)
qed

text \<open>The same two submissions on MongoDB, the second between two calls of the first.\<close>

definition half_way :: "(mem_db mclient, reply) prog list \<times> mem_db mclient" where
  "half_way = sched [0, 1, 0, 1, 0, 1, 1]
     (map (job_prog (mongo_ops ref_driver ref_codec) (\<lambda>s. s) (Some accept_all)
        (Some (mongo_UpsertUserOnFirstAuth ref_driver ref_codec))) two_submits, ref_seeded)"

theorem mongo_concurrent_safe_witness:
  "attempts_sound (\<lambda>s. s) (mongo_view ref_codec (\<lambda>s. s) (snd half_way))
   \<and> v_puzzles (mongo_view ref_codec (\<lambda>s. s) (snd half_way)) ''2025-11-29'' = Some sample_puzzle"
proof -
  have run: "pool_run (map (job_prog (mongo_ops ref_driver ref_codec) (\<lambda>s. s) (Some accept_all)
        (Some (mongo_UpsertUserOnFirstAuth ref_driver ref_codec))) two_submits, ref_seeded)
      (fst half_way, snd half_way)"
    unfolding half_way_def prod.collapse by (rule sched_run)
  have "v_puzzles (mongo_view ref_codec (\<lambda>s. s) ref_seeded) ''2025-11-29'' = Some sample_puzzle"
    by (simp add: ref_seeded_view view_put_puzzle_def sample_puzzle_def)
  then show ?thesis
    using mongo_concurrent_safe [OF ref.mongo_driver_axioms ref_seeded_view(1) ref_seeded_sound run] by simp
qed

end
